(* ===== verification/Prelude.thy ===== *)
theory Prelude
  imports Complex_Main "HOL-Library.Word" "HOL-Library.AList" "HOL-Library.Sublist"
begin

text \<open>
  The types, fact collections and generic lemmas the component theories share: C++ integer types
  as words, decimal printing, word arithmetic that does not wrap, association lists as
  \<open>unordered_map\<close>, and sums over lists.
\<close>

section \<open>Integer types\<close>

text \<open>
  Unsigned integers are words and wrap around, as in C++. Signed integers are words too, read with
  \<^const>\<open>sint\<close> where the code compares or divides them. Signed overflow, undefined in C++, is given
  the two's complement result.
\<close>

type_synonym size_t = "64 word"
type_synonym uint64 = "64 word"
type_synonym uint32 = "32 word"
type_synonym int32 = "32 word"
type_synonym int64 = "64 word"

text \<open>A device pointer (\<open>void*\<close>); \<open>nullptr\<close> is 0.\<close>

type_synonym ptr = "64 word"

abbreviation (input) nullptr :: ptr where
  "nullptr \<equiv> 0"

text \<open>The size of a container as a \<open>size_t\<close>, and the conversion \<open>int32_t\<close> to \<open>size_t\<close>.\<close>

abbreviation sz :: "'a list \<Rightarrow> size_t" where
  "sz xs \<equiv> of_nat (length xs)"

abbreviation to_size :: "int32 \<Rightarrow> size_t" where
  "to_size n \<equiv> scast n"

text \<open>The conversion \<open>static_cast<int32_t>(n)\<close> of a \<open>size_t\<close>: the low 32 bits.\<close>

abbreviation to_int32 :: "size_t \<Rightarrow> int32" where
  "to_int32 n \<equiv> ucast n"

text \<open>Division of signed integers truncates towards zero.\<close>

definition sdiv_int32 :: "int32 \<Rightarrow> int32 \<Rightarrow> int32" where
  "sdiv_int32 a b = word_of_int (sgn (sint a) * sgn (sint b) * (\<bar>sint a\<bar> div \<bar>sint b\<bar>))"

section \<open>Fact collections\<close>

named_theorems result_iff \<open>when a computation returns an error or a value\<close>
named_theorems frame \<open>what an operation leaves unchanged\<close>
named_theorems inv_pres \<open>operations that keep an invariant\<close>

section \<open>Decimal printing (std::to_string)\<close>

definition digit_char :: "nat \<Rightarrow> char" where
  "digit_char n = char_of (48 + n)"

fun nat_to_string :: "nat \<Rightarrow> string" where
  "nat_to_string n =
     (if n < 10 then [digit_char n] else nat_to_string (n div 10) @ [digit_char (n mod 10)])"

declare nat_to_string.simps [simp del]

definition int_to_string :: "int \<Rightarrow> string" where
  "int_to_string i = (if i < 0 then CHR ''-'' # nat_to_string (nat (- i)) else nat_to_string (nat i))"

definition size_to_string :: "size_t \<Rightarrow> string" where
  "size_to_string n = nat_to_string (unat n)"

definition int32_to_string :: "int32 \<Rightarrow> string" where
  "int32_to_string n = int_to_string (sint n)"

text \<open>
  \<open>std::fixed << std::setprecision(p)\<close> and, with six decimals, \<open>std::to_string(double)\<close>: the decimal
  nearest to the number, ties to even.
\<close>

definition round_half_even :: "real \<Rightarrow> int" where
  "round_half_even x =
     (let f = \<lfloor>x\<rfloor>; d = x - of_int f
      in if d < 1/2 then f else if d > 1/2 then f + 1 else if even f then f else f + 1)"

definition pad_left :: "nat \<Rightarrow> string \<Rightarrow> string" where
  "pad_left n s = (if length s < n then replicate (n - length s) (CHR ''0'') @ s else s)"

definition fixed :: "nat \<Rightarrow> real \<Rightarrow> string" where
  "fixed p x =
     (let r = round_half_even (\<bar>x\<bar> * 10 ^ p); q = nat r div 10 ^ p; m = nat r mod 10 ^ p
      in (if x < 0 then ''-'' else '''') @ nat_to_string q @
         (if p = 0 then '''' else ''.'' @ pad_left p (nat_to_string m)))"

section \<open>Unsigned division\<close>

text \<open>Division by zero is undefined behaviour in the program: it has no value here.\<close>

definition size_div :: "size_t \<Rightarrow> size_t \<Rightarrow> size_t option" where
  "size_div a b = (if b = 0 then None else Some (a div b))"

lemma size_div_Some [result_iff]: "size_div a b = Some q \<longleftrightarrow> b \<noteq> 0 \<and> q = a div b"
  by (auto simp: size_div_def)

section \<open>Words that do not wrap\<close>

lemma unat_plus_nowrap:
  fixes a b :: "'a::len word"
  assumes "unat a + unat b < 2 ^ LENGTH('a)"
  shows "unat (a + b) = unat a + unat b"
  using assms by (simp add: unat_word_ariths)

lemma unat_mult_nowrap:
  fixes a b :: "'a::len word"
  assumes "unat a * unat b < 2 ^ LENGTH('a)"
  shows "unat (a * b) = unat a * unat b"
  using assms by (simp add: unat_word_ariths)

lemma unat_of_nat_size:
  fixes w :: "'a::len word"
  assumes "i \<le> unat w"
  shows "unat (of_nat i :: 'a word) = i"
proof -
  have "unat w < 2 ^ LENGTH('a)" by (rule unsigned_less)
  with assms have "i < 2 ^ LENGTH('a)" by (rule le_less_trans)
  then show ?thesis by (simp add: unat_of_nat)
qed

lemma unat_minus_nowrap:
  fixes a b :: "'a::len word"
  assumes "unat b \<le> unat a"
  shows "unat (a - b) = unat a - unat b"
  using assms by (simp add: unat_sub word_le_nat_alt)

lemma unat_plus_le:
  fixes a b c :: "'a::len word"
  assumes "unat a + unat b \<le> unat c"
  shows "unat (a + b) = unat a + unat b"
proof -
  have "unat c < 2 ^ LENGTH('a)" by (rule unsigned_less)
  with assms show ?thesis by (intro unat_plus_nowrap) linarith
qed

lemma unat_le_mono: "(a :: 'a::len word) \<le> b \<Longrightarrow> unat a \<le> unat b"
  by (simp add: word_le_nat_alt)

section \<open>Association lists as maps\<close>

lemma map_of_update [simp]: "map_of (AList.update k v al) = (map_of al)(k \<mapsto> v)"
  by (rule update_conv')

lemma map_of_delete [simp]: "map_of (AList.delete k al) = (map_of al)(k := None)"
  by (rule delete_conv')

lemma keys_update_present:
  "k \<in> fst ` set al \<Longrightarrow> map fst (AList.update k v al) = map fst al"
  by (induction al) auto

lemma update_absent: "k \<notin> fst ` set al \<Longrightarrow> AList.update k v al = al @ [(k, v)]"
  by (induction al) auto

lemma in_set_update: "x \<in> set (AList.update k v al) \<Longrightarrow> x = (k, v) \<or> x \<in> set al"
  by (induction al) (auto split: if_splits)

lemma map_of_map_snd: "map_of (map (\<lambda>(k, v). (k, f k v)) al) k = map_option (f k) (map_of al k)"
  by (induction al) auto

section \<open>Sums over lists\<close>

lemma sum_list_remove1:
  fixes f :: "'a \<Rightarrow> nat"
  assumes "x \<in> set xs"
  shows "sum_list (map f xs) = f x + sum_list (map f (remove1 x xs))"
  using assms by (induction xs) auto

lemma sum_list_ge_member:
  fixes f :: "'a \<Rightarrow> nat"
  assumes "x \<in> set xs"
  shows "f x \<le> sum_list (map f xs)"
  using sum_list_remove1 [OF assms, of f] by simp

section \<open>Lists with unique keys\<close>

lemma key_notin_remove1:
  assumes "distinct (map f xs)" and "x \<in> set xs"
  shows "f x \<notin> f ` set (remove1 x xs)"
  using assms by (induction xs) (auto simp: image_iff)

lemma distinct_keys_remove1: "distinct (map f xs) \<Longrightarrow> distinct (map f (remove1 x xs))"
  by (induction xs) (auto dest: set_remove1_subset [THEN subsetD])

section \<open>Counters\<close>

abbreviation uint64_max :: uint64 where
  "uint64_max \<equiv> 0xFFFFFFFFFFFFFFFF"

lemma word_lt_plus1:
  assumes "b < uint64_max"
  shows "b < b + 1"
proof -
  have "unat b + unat (1 :: uint64) \<le> unat uint64_max"
    using assms by (simp add: word_less_nat_alt)
  then have "unat (b + 1) = unat b + unat (1 :: uint64)" by (rule unat_plus_le)
  then show ?thesis by (simp add: word_less_nat_alt)
qed

end
