(* ===== verification/Result_Type.thy ===== *)
theory Result_Type
  imports Prelude
begin

text \<open>
  \<^verbatim>\<open>include/utils/result.hpp\<close>: the \<open>Error\<close> struct with its factories, and \<open>Result<T>\<close> as a sum
  (\<^const>\<open>Inl\<close> holds the error). \<open>value()\<close> and \<open>error()\<close> throw on the wrong alternative: they return the
  text of the \<open>runtime_error\<close> in \<^const>\<open>Inl\<close>.
\<close>

section \<open>Error\<close>

record error =
  code :: string
  message :: string
  details :: string

definition mk_error :: "string \<Rightarrow> string \<Rightarrow> error" where
  "mk_error c m = \<lparr>code = c, message = m, details = ''''\<rparr>"

definition internal :: "string \<Rightarrow> error" where
  "internal msg = mk_error ''internal_error'' msg"

definition invalid_request :: "string \<Rightarrow> error" where
  "invalid_request msg = mk_error ''invalid_request_error'' msg"

definition model_error :: "string \<Rightarrow> error" where
  "model_error msg = mk_error ''model_error'' msg"

definition resource_exhausted :: "string \<Rightarrow> error" where
  "resource_exhausted msg = mk_error ''resource_exhausted'' msg"

definition timeout :: "string \<Rightarrow> error" where
  "timeout msg = mk_error ''timeout'' msg"

definition cancelled_error :: "string \<Rightarrow> error" where
  "cancelled_error msg = mk_error ''cancelled'' msg"

lemmas error_factories =
  internal_def invalid_request_def model_error_def resource_exhausted_def timeout_def
  cancelled_error_def mk_error_def

section \<open>Result\<close>

type_synonym 'a result = "error + 'a"

definition result_ok :: "'a result \<Rightarrow> bool" where
  "result_ok r = (case r of Inl _ \<Rightarrow> False | Inr _ \<Rightarrow> True)"

definition is_error :: "'a result \<Rightarrow> bool" where
  "is_error r = (case r of Inl _ \<Rightarrow> True | Inr _ \<Rightarrow> False)"

definition result_value :: "'a result \<Rightarrow> string + 'a" where
  "result_value r = (case r of
     Inl e \<Rightarrow> Inl (''Result::value() called on error: '' @ message e)
   | Inr v \<Rightarrow> Inr v)"

definition result_error :: "'a result \<Rightarrow> string + error" where
  "result_error r = (case r of
     Inl e \<Rightarrow> Inr e
   | Inr _ \<Rightarrow> Inl ''Result::error() called on success'')"

definition value_or :: "'a result \<Rightarrow> 'a \<Rightarrow> 'a" where
  "value_or r d = (case r of Inl _ \<Rightarrow> d | Inr v \<Rightarrow> v)"

definition result_map :: "('a \<Rightarrow> 'b) \<Rightarrow> 'a result \<Rightarrow> 'b result" where
  "result_map f r = (case r of Inl e \<Rightarrow> Inl e | Inr v \<Rightarrow> Inr (f v))"

definition and_then :: "'a result \<Rightarrow> ('a \<Rightarrow> 'b result) \<Rightarrow> 'b result" where
  "and_then r f = (case r of Inl e \<Rightarrow> Inl e | Inr v \<Rightarrow> f v)"

text \<open>
  \<open>Result<void>\<close> is a class of its own, an optional error. The development writes \<^typ>\<open>unit result\<close> for it;
  \<open>void_as_result\<close> relates the two.
\<close>

type_synonym void_result = "error option"

definition void_success :: void_result where
  "void_success = None"

definition void_ok :: "void_result \<Rightarrow> bool" where
  "void_ok r = (case r of None \<Rightarrow> True | Some _ \<Rightarrow> False)"

definition void_is_error :: "void_result \<Rightarrow> bool" where
  "void_is_error r = (case r of None \<Rightarrow> False | Some _ \<Rightarrow> True)"

definition void_value :: "void_result \<Rightarrow> string + unit" where
  "void_value r = (case r of Some e \<Rightarrow> Inl (''Result::value() called on error: '' @ message e) | None \<Rightarrow> Inr ())"

definition void_error :: "void_result \<Rightarrow> string + error" where
  "void_error r = (case r of None \<Rightarrow> Inl ''Result::error() called on success'' | Some e \<Rightarrow> Inr e)"

fun void_as_result :: "void_result \<Rightarrow> unit result" where
  "void_as_result None = Inr ()"
| "void_as_result (Some e) = Inl e"

lemma void_refines_result:
  "void_ok r = result_ok (void_as_result r)" "void_is_error r = is_error (void_as_result r)"
  "void_value r = result_value (void_as_result r)" "void_error r = result_error (void_as_result r)"
  "void_as_result void_success = Inr ()" "inj void_as_result"
  by (auto simp: void_ok_def result_ok_def void_is_error_def is_error_def void_value_def result_value_def void_error_def
      result_error_def void_success_def inj_def split: option.splits elim: void_as_result.elims)

lemma result_ok_iff [simp]: "result_ok r \<longleftrightarrow> (\<exists>v. r = Inr v)"
  by (auto simp: result_ok_def split: sum.splits)

lemma is_error_iff [simp]: "is_error r \<longleftrightarrow> (\<exists>e. r = Inl e)"
  by (auto simp: is_error_def split: sum.splits)

lemma and_then_Inr [result_iff]: "and_then r f = Inr y \<longleftrightarrow> (\<exists>x. r = Inr x \<and> f x = Inr y)"
  by (auto simp: and_then_def split: sum.splits)

lemma and_then_Inl [result_iff]:
  "and_then r f = Inl e \<longleftrightarrow> r = Inl e \<or> (\<exists>x. r = Inr x \<and> f x = Inl e)"
  by (auto simp: and_then_def split: sum.splits)

lemma and_then_assoc: "and_then (and_then r f) g = and_then r (\<lambda>x. and_then (f x) g)"
  by (auto simp: and_then_def split: sum.splits)

end
