(* ===== verification/Cuda_Runtime.thy ===== *)
theory Cuda_Runtime
  imports Result_Type
begin

text \<open>
  The CUDA runtime calls the program makes. CUDA is not part of the repository: its state is the type
  variable \<open>'c\<close> and its calls are the fields of the record \<open>cuda\<close>, an argument of every definition
  that calls them. The predicate \<open>cuda_heap\<close> states the documented behaviour that the leak theorems
  rely on, over a ghost function that gives the set of live device blocks.

  \<open>cuda_alloc_kv\<close> is the sequence set device, allocate K, allocate V, release K when V fails, which
  the allocators of \<^verbatim>\<open>src/kvcache/kv_allocator.cpp\<close> run in five places.
\<close>

section \<open>The runtime as a parameter\<close>

type_synonym cuda_error = nat

abbreviation (input) cudaSuccess :: cuda_error where
  "cudaSuccess \<equiv> 0"

record device_prop =
  prop_name :: string
  totalGlobalMem :: size_t
  prop_major :: int32
  prop_minor :: int32

record 'c cuda =
  cudaSetDevice :: "int32 \<Rightarrow> 'c \<Rightarrow> cuda_error \<times> 'c"
  cudaMalloc :: "size_t \<Rightarrow> 'c \<Rightarrow> (cuda_error \<times> ptr) \<times> 'c"
  cudaFree :: "ptr \<Rightarrow> 'c \<Rightarrow> 'c"
  cudaGetDeviceProperties :: "int32 \<Rightarrow> 'c \<Rightarrow> cuda_error \<times> device_prop"
  cudaGetDeviceCount :: "'c \<Rightarrow> cuda_error \<times> int32"
  cudaMemGetInfo :: "'c \<Rightarrow> size_t \<times> size_t"
  cudaDeviceCanAccessPeer :: "int32 \<Rightarrow> int32 \<Rightarrow> 'c \<Rightarrow> cuda_error \<times> bool"
  cudaDeviceEnablePeerAccess :: "int32 \<Rightarrow> 'c \<Rightarrow> 'c"
  cudaDeviceSynchronize :: "'c \<Rightarrow> 'c"
  cudaGetErrorString :: "cuda_error \<Rightarrow> string"

text \<open>
  What the CUDA documentation promises and the allocators rely on: a successful allocation of a
  positive size returns a non-null block that was not live and makes it live, a failed one changes no
  block, \<open>cudaFree\<close> ends exactly the block it is given, selecting a device changes no block.
\<close>

definition cuda_heap :: "'c cuda \<Rightarrow> ('c \<Rightarrow> ptr set) \<Rightarrow> bool" where
  "cuda_heap C live \<longleftrightarrow>
     (\<forall>d c. live (snd (cudaSetDevice C d c)) = live c) \<and>
     (\<forall>n c e p c'. n \<noteq> 0 \<longrightarrow> cudaMalloc C n c = ((e, p), c') \<longrightarrow>
        (if e = cudaSuccess then p \<noteq> nullptr \<and> p \<notin> live c \<and> live c' = insert p (live c)
         else live c' = live c)) \<and>
     (\<forall>p c. live (cudaFree C p c) = live c - {p})"

lemma cuda_heap_set_device: "cuda_heap C live \<Longrightarrow> live (snd (cudaSetDevice C d c)) = live c"
  by (simp add: cuda_heap_def)

lemma cuda_heap_free: "cuda_heap C live \<Longrightarrow> live (cudaFree C p c) = live c - {p}"
  by (simp add: cuda_heap_def)

lemma cuda_heap_malloc_ok:
  assumes "cuda_heap C live" and "n \<noteq> 0" and "cudaMalloc C n c = ((cudaSuccess, p), c')"
  shows "p \<noteq> nullptr" and "p \<notin> live c" and "live c' = insert p (live c)"
  using assms unfolding cuda_heap_def by (metis (full_types))+

lemma cuda_heap_malloc_fail:
  assumes "cuda_heap C live" and "n \<noteq> 0" and "cudaMalloc C n c = ((e, p), c')" and "e \<noteq> cudaSuccess"
  shows "live c' = live c"
  using assms unfolding cuda_heap_def by (metis (full_types))

text \<open>A block lies inside the 64-bit address space, its end included.\<close>

definition cuda_addressable :: "'c cuda \<Rightarrow> bool" where
  "cuda_addressable C \<longleftrightarrow>
     (\<forall>n c p c'. cudaMalloc C n c = ((cudaSuccess, p), c') \<longrightarrow> unat p + unat n < 2 ^ 64)"

section \<open>Allocating a K and a V block\<close>

datatype kv_alloc_failure = Set_device_failed cuda_error | K_failed cuda_error | V_failed cuda_error

text \<open>
  The device is set, both halves are allocated, and K is released when V fails. \<open>n\<close> is the size of
  one half (\<open>bytes / 2\<close> at every call site).
\<close>

definition cuda_alloc_kv ::
  "'c cuda \<Rightarrow> int32 \<Rightarrow> size_t \<Rightarrow> 'c \<Rightarrow> (kv_alloc_failure + ptr \<times> ptr) \<times> 'c" where
  "cuda_alloc_kv C d n c =
     (case cudaSetDevice C d c of (err, c1) \<Rightarrow>
      if err \<noteq> cudaSuccess then (Inl (Set_device_failed err), c1)
      else (case cudaMalloc C n c1 of ((err, k), c2) \<Rightarrow>
        if err \<noteq> cudaSuccess then (Inl (K_failed err), c2)
        else (case cudaMalloc C n c2 of ((err, v), c3) \<Rightarrow>
          if err \<noteq> cudaSuccess then (Inl (V_failed err), cudaFree C k c3)
          else (Inr (k, v), c3))))"

text \<open>The three calls of a run, by the outcome.\<close>

lemma cuda_alloc_kv_Inr:
  assumes "cuda_alloc_kv C d n c = (Inr (k, v), c')"
  obtains c1 c2 where "cudaSetDevice C d c = (cudaSuccess, c1)"
    and "cudaMalloc C n c1 = ((cudaSuccess, k), c2)"
    and "cudaMalloc C n c2 = ((cudaSuccess, v), c')"
  using assms that by (auto simp: cuda_alloc_kv_def split: prod.splits if_splits)

lemma cuda_alloc_kv_Inl:
  assumes "cuda_alloc_kv C d n c = (Inl f, c')"
  obtains
    (set_device) err where "cudaSetDevice C d c = (err, c')" and "err \<noteq> cudaSuccess"
      and "f = Set_device_failed err"
  | (k) c1 err k where "cudaSetDevice C d c = (cudaSuccess, c1)"
      and "cudaMalloc C n c1 = ((err, k), c')" and "err \<noteq> cudaSuccess" and "f = K_failed err"
  | (v) c1 c2 c3 err k v where "cudaSetDevice C d c = (cudaSuccess, c1)"
      and "cudaMalloc C n c1 = ((cudaSuccess, k), c2)" and "cudaMalloc C n c2 = ((err, v), c3)"
      and "err \<noteq> cudaSuccess" and "c' = cudaFree C k c3" and "f = V_failed err"
  using assms that by (auto simp: cuda_alloc_kv_def split: prod.splits if_splits)

text \<open>A failed attempt leaves no block behind; a successful one adds two distinct fresh blocks.\<close>

lemma cuda_alloc_kv_fail:
  assumes heap: "cuda_heap C live" and n: "n \<noteq> 0" and run: "cuda_alloc_kv C d n c = (Inl f, c')"
  shows "live c' = live c"
  using run
proof (cases rule: cuda_alloc_kv_Inl)
  case (set_device err)
  then show ?thesis using cuda_heap_set_device [OF heap, of d c] by simp
next
  case (k c1 err k)
  then show ?thesis
    using cuda_heap_set_device [OF heap, of d c] cuda_heap_malloc_fail [OF heap n k(2,3)] by simp
next
  case (v c1 c2 c3 err k v)
  have "live c1 = live c" using cuda_heap_set_device [OF heap, of d c] v(1) by simp
  moreover note cuda_heap_malloc_ok [OF heap n v(2)] cuda_heap_malloc_fail [OF heap n v(3,4)]
  ultimately show ?thesis using v(5) cuda_heap_free [OF heap] by simp
qed

lemma cuda_alloc_kv_ok:
  assumes heap: "cuda_heap C live" and n: "n \<noteq> 0"
    and run: "cuda_alloc_kv C d n c = (Inr (k, v), c')"
  shows "live c' = insert k (insert v (live c))" and "k \<notin> live c" and "v \<notin> live c" and "k \<noteq> v"
    and "k \<noteq> nullptr" and "v \<noteq> nullptr"
proof -
  from run obtain c1 c2 where r: "cudaSetDevice C d c = (cudaSuccess, c1)"
      "cudaMalloc C n c1 = ((cudaSuccess, k), c2)" "cudaMalloc C n c2 = ((cudaSuccess, v), c')"
    by (rule cuda_alloc_kv_Inr)
  have c1: "live c1 = live c" using cuda_heap_set_device [OF heap, of d c] r(1) by simp
  note K = cuda_heap_malloc_ok [OF heap n r(2)] and V = cuda_heap_malloc_ok [OF heap n r(3)]
  show "live c' = insert k (insert v (live c))" using K V c1 by auto
  show "k \<notin> live c" "v \<notin> live c" "k \<noteq> v" "k \<noteq> nullptr" "v \<noteq> nullptr" using K V c1 by auto
qed

lemma cuda_alloc_kv_addressable:
  assumes "cuda_addressable C" and "cuda_alloc_kv C d n c = (Inr (k, v), c')"
  shows "unat k + unat n < 2 ^ 64" and "unat v + unat n < 2 ^ 64"
  using assms(2) by (rule cuda_alloc_kv_Inr; use assms(1) in \<open>auto simp: cuda_addressable_def\<close>)+

text \<open>
  Releasing the blocks of a list of per-device allocations, as the error paths and \<open>free\<close> do:
  select the device, free K, free V.
\<close>

definition release_kv :: "'c cuda \<Rightarrow> int32 \<Rightarrow> ptr \<Rightarrow> ptr \<Rightarrow> 'c \<Rightarrow> 'c" where
  "release_kv C d k v c = cudaFree C v (cudaFree C k (snd (cudaSetDevice C d c)))"

lemma live_release_kv:
  "cuda_heap C live \<Longrightarrow> live (release_kv C d k v c) = live c - {k, v}"
  by (auto simp: release_kv_def cuda_heap_free cuda_heap_set_device)

section \<open>A reference device heap\<close>

text \<open>
  A device heap with bump allocation and a budget: the concrete runtime at which the theorems with a
  \<^const>\<open>cuda_heap\<close> hypothesis are applied. A device with a negative number cannot be selected.
\<close>

record bump =
  bump_next :: ptr
  bump_live :: "ptr list"
  bump_budget :: nat

definition bump_cuda :: "bump cuda" where
  "bump_cuda = \<lparr>
     cudaSetDevice = (\<lambda>d c. (if sint d < 0 then 101 else cudaSuccess, c)),
     cudaMalloc = (\<lambda>n c.
       if bump_budget c = 0 \<or> bump_next c = 0 \<or> bump_next c \<in> set (bump_live c) \<or>
          unat (bump_next c) + unat n \<ge> 2 ^ 64
       then ((2, nullptr), c)
       else ((cudaSuccess, bump_next c),
             c\<lparr>bump_next := bump_next c + n, bump_live := bump_next c # bump_live c,
               bump_budget := bump_budget c - 1\<rparr>)),
     cudaFree = (\<lambda>p c. c\<lparr>bump_live := filter (\<lambda>q. q \<noteq> p) (bump_live c)\<rparr>),
     cudaGetDeviceProperties = (\<lambda>d c. (cudaSuccess,
       \<lparr>prop_name = ''L40S'', totalGlobalMem = 48000000000, prop_major = 8, prop_minor = 9\<rparr>)),
     cudaGetDeviceCount = (\<lambda>c. (cudaSuccess, 2)),
     cudaMemGetInfo = (\<lambda>c. (48000000000, 48000000000)),
     cudaDeviceCanAccessPeer = (\<lambda>a b c. (cudaSuccess, True)),
     cudaDeviceEnablePeerAccess = (\<lambda>d c. c),
     cudaDeviceSynchronize = (\<lambda>c. c),
     cudaGetErrorString = (\<lambda>e. if e = 2 then ''out of memory'' else ''invalid device'')\<rparr>"

abbreviation bump_blocks :: "bump \<Rightarrow> ptr set" where
  "bump_blocks c \<equiv> set (bump_live c)"

lemma bump_cuda_heap: "cuda_heap bump_cuda bump_blocks"
  by (auto simp: cuda_heap_def bump_cuda_def split: if_splits)

lemma bump_cuda_addressable: "cuda_addressable bump_cuda"
  by (auto simp: cuda_addressable_def bump_cuda_def split: if_splits)

definition bump_init :: "nat \<Rightarrow> bump" where
  "bump_init n = \<lparr>bump_next = 4096, bump_live = [], bump_budget = n\<rparr>"

end
