(* ===== verification/Kv_Types.thy ===== *)
theory Kv_Types
  imports Cuda_Runtime
begin

text \<open>
  The data of \<^verbatim>\<open>include/kvcache/kv_allocator.hpp\<close>: cache handles, memory statistics, the allocator
  configuration with its size formulas, and the Qwen2.5-32B constants. The lemmas relate the wrapping
  64-bit formulas to the mathematical sizes.
\<close>

section \<open>Handles\<close>

record per_device_kv_cache =
  pd_k_cache :: ptr
  pd_v_cache :: ptr
  pd_device_id :: int32
  bytes_allocated :: size_t

record kv_cache_handle =
  k_cache :: ptr
  v_cache :: ptr
  max_seq_len :: size_t
  current_len :: size_t
  h_device_id :: int32
  allocation_id :: uint64
  device_caches :: "per_device_kv_cache list"
  is_tensor_parallel :: bool

definition empty_handle :: kv_cache_handle where
  "empty_handle = \<lparr>k_cache = nullptr, v_cache = nullptr, max_seq_len = 0, current_len = 0,
     h_device_id = 0, allocation_id = 0, device_caches = [], is_tensor_parallel = False\<rparr>"

definition is_valid :: "kv_cache_handle \<Rightarrow> bool" where
  "is_valid h =
     (if is_tensor_parallel h
      then (case device_caches h of [] \<Rightarrow> False | x # _ \<Rightarrow> pd_k_cache x \<noteq> nullptr)
      else k_cache h \<noteq> nullptr \<and> v_cache h \<noteq> nullptr)"

definition remaining :: "kv_cache_handle \<Rightarrow> size_t" where
  "remaining h = max_seq_len h - current_len h"

definition num_devices_of :: "kv_cache_handle \<Rightarrow> size_t" where
  "num_devices_of h = (if is_tensor_parallel h then sz (device_caches h) else 1)"

lemma empty_handle_invalid [simp]: "\<not> is_valid empty_handle"
  by (simp add: is_valid_def empty_handle_def)

section \<open>Memory statistics\<close>

record memory_stats =
  total_bytes :: size_t
  used_bytes :: size_t
  free_bytes :: size_t
  peak_bytes :: size_t
  active_allocations :: uint32
  total_allocations :: uint32
  total_frees :: uint32

definition zero_stats :: memory_stats where
  "zero_stats = \<lparr>total_bytes = 0, used_bytes = 0, free_bytes = 0, peak_bytes = 0,
     active_allocations = 0, total_allocations = 0, total_frees = 0\<rparr>"

text \<open>The statistics of a device with \<open>n\<close> bytes of which none is used.\<close>

definition fresh_stats :: "size_t \<Rightarrow> memory_stats" where
  "fresh_stats n = zero_stats\<lparr>total_bytes := n, free_bytes := n\<rparr>"

text \<open>
  The two updates every allocator makes on a device's statistics: \<open>b\<close> bytes taken (with the peak
  raised), \<open>b\<close> bytes given back.
\<close>

definition charge :: "size_t \<Rightarrow> memory_stats \<Rightarrow> memory_stats" where
  "charge b s =
     (let s1 = s\<lparr>used_bytes := used_bytes s + b, free_bytes := free_bytes s - b,
                 active_allocations := active_allocations s + 1,
                 total_allocations := total_allocations s + 1\<rparr>
      in if used_bytes s1 > peak_bytes s1 then s1\<lparr>peak_bytes := used_bytes s1\<rparr> else s1)"

definition refund :: "size_t \<Rightarrow> memory_stats \<Rightarrow> memory_stats" where
  "refund b s = s\<lparr>used_bytes := used_bytes s - b, free_bytes := free_bytes s + b,
     active_allocations := active_allocations s - 1, total_frees := total_frees s + 1\<rparr>"

text \<open>The sum of all devices' statistics (\<open>stats()\<close> of both allocators).\<close>

definition add_stats :: "memory_stats \<Rightarrow> memory_stats \<Rightarrow> memory_stats" where
  "add_stats t s = \<lparr>
     total_bytes = total_bytes t + total_bytes s,
     used_bytes = used_bytes t + used_bytes s,
     free_bytes = free_bytes t + free_bytes s,
     peak_bytes = peak_bytes t + peak_bytes s,
     active_allocations = active_allocations t + active_allocations s,
     total_allocations = total_allocations t + total_allocations s,
     total_frees = total_frees t + total_frees s\<rparr>"

definition stats_reset :: "memory_stats \<Rightarrow> memory_stats" where
  "stats_reset s = s\<lparr>used_bytes := 0, free_bytes := total_bytes s, active_allocations := 0\<rparr>"

lemma charge_fields [simp]:
  "total_bytes (charge b s) = total_bytes s"
  "used_bytes (charge b s) = used_bytes s + b"
  "free_bytes (charge b s) = free_bytes s - b"
  "active_allocations (charge b s) = active_allocations s + 1"
  "total_allocations (charge b s) = total_allocations s + 1"
  "total_frees (charge b s) = total_frees s"
  "peak_bytes (charge b s) = max (peak_bytes s) (used_bytes s + b)"
  by (auto simp: charge_def Let_def max_def)

lemma refund_fields [simp]:
  "total_bytes (refund b s) = total_bytes s"
  "used_bytes (refund b s) = used_bytes s - b"
  "free_bytes (refund b s) = free_bytes s + b"
  "active_allocations (refund b s) = active_allocations s - 1"
  "total_allocations (refund b s) = total_allocations s"
  "total_frees (refund b s) = total_frees s + 1"
  "peak_bytes (refund b s) = peak_bytes s"
  by (simp_all add: refund_def)

text \<open>A device's books balance: what is used fits the total and the rest is free.\<close>

definition stats_ok :: "memory_stats \<Rightarrow> bool" where
  "stats_ok s \<longleftrightarrow> unat (used_bytes s) + unat (free_bytes s) = unat (total_bytes s) \<and>
     used_bytes s \<le> peak_bytes s \<and> peak_bytes s \<le> total_bytes s"

lemma stats_ok_fresh [simp]: "stats_ok (fresh_stats n)"
  by (simp add: stats_ok_def fresh_stats_def zero_stats_def)

lemma unat_charge:
  assumes "stats_ok s" and "b \<le> free_bytes s"
  shows "unat (used_bytes s + b) = unat (used_bytes s) + unat b"
    and "unat (free_bytes s - b) = unat (free_bytes s) - unat b"
proof -
  have "unat b \<le> unat (free_bytes s)" using assms(2) by (rule unat_le_mono)
  with assms(1) show "unat (used_bytes s + b) = unat (used_bytes s) + unat b"
    by (intro unat_plus_le [where c = "total_bytes s"]) (simp add: stats_ok_def)
  show "unat (free_bytes s - b) = unat (free_bytes s) - unat b"
    using \<open>unat b \<le> unat (free_bytes s)\<close> by (rule unat_minus_nowrap)
qed

lemma stats_ok_charge [inv_pres]:
  assumes "stats_ok s" and "b \<le> free_bytes s"
  shows "stats_ok (charge b s)"
proof -
  have "unat b \<le> unat (free_bytes s)" using assms(2) by (rule unat_le_mono)
  with assms(1) show ?thesis
    using unat_charge [OF assms] by (auto simp: stats_ok_def word_le_nat_alt max_def)
qed

lemma unat_refund:
  assumes "stats_ok s" and "b \<le> used_bytes s"
  shows "unat (used_bytes s - b) = unat (used_bytes s) - unat b"
    and "unat (free_bytes s + b) = unat (free_bytes s) + unat b"
proof -
  have le: "unat b \<le> unat (used_bytes s)" using assms(2) by (rule unat_le_mono)
  then show "unat (used_bytes s - b) = unat (used_bytes s) - unat b" by (rule unat_minus_nowrap)
  show "unat (free_bytes s + b) = unat (free_bytes s) + unat b"
    using assms(1) le by (intro unat_plus_le [where c = "total_bytes s"]) (simp add: stats_ok_def)
qed

lemma stats_ok_refund [inv_pres]:
  assumes "stats_ok s" and "b \<le> used_bytes s"
  shows "stats_ok (refund b s)"
proof -
  have "unat b \<le> unat (used_bytes s)" using assms(2) by (rule unat_le_mono)
  with assms(1) show ?thesis
    using unat_refund [OF assms] by (auto simp: stats_ok_def word_le_nat_alt)
qed

text \<open>Giving back what was just taken restores every figure but the peak and the two totals.\<close>

lemma refund_charge:
  "refund b (charge b s) = s\<lparr>peak_bytes := max (peak_bytes s) (used_bytes s + b),
     total_allocations := total_allocations s + 1, total_frees := total_frees s + 1\<rparr>"
  by (auto simp: refund_def charge_def Let_def max_def)

section \<open>Configuration and size formulas\<close>

record kv_allocator_config =
  num_layers :: int32
  num_kv_heads :: int32
  head_dim :: int32
  dtype_bytes :: size_t
  max_total_memory :: size_t
  cfg_device_id :: int32
  pre_allocate :: bool
  cfg_device_ids :: "int32 list"
  tensor_parallel_size :: int32

definition default_kv_config :: kv_allocator_config where
  "default_kv_config = \<lparr>num_layers = 64, num_kv_heads = 8, head_dim = 128, dtype_bytes = 2,
     max_total_memory = 0, cfg_device_id = 0, pre_allocate = False, cfg_device_ids = [],
     tensor_parallel_size = 1\<rparr>"

text \<open>
  The first four factors are \<open>int32_t\<close>, so their product is taken at 32 bits; it is then converted to
  \<open>size_t\<close> for the multiplication by \<open>dtype_bytes\<close>.
\<close>

definition bytes_per_token :: "kv_allocator_config \<Rightarrow> size_t" where
  "bytes_per_token cfg =
     to_size (2 * num_layers cfg * num_kv_heads cfg * head_dim cfg) * dtype_bytes cfg"

definition bytes_per_token_per_device :: "kv_allocator_config \<Rightarrow> size_t" where
  "bytes_per_token_per_device cfg =
     (let kv_heads_per_device = sdiv_int32 (num_kv_heads cfg) (tensor_parallel_size cfg)
      in to_size (2 * num_layers cfg * kv_heads_per_device * head_dim cfg) * dtype_bytes cfg)"

definition bytes_for_seq_len :: "kv_allocator_config \<Rightarrow> size_t \<Rightarrow> size_t" where
  "bytes_for_seq_len cfg seq_len = seq_len * bytes_per_token cfg"

definition bytes_for_seq_len_per_device :: "kv_allocator_config \<Rightarrow> size_t \<Rightarrow> size_t" where
  "bytes_for_seq_len_per_device cfg seq_len = seq_len * bytes_per_token_per_device cfg"

text \<open>The product of the four signed factors when it fits an \<open>int32_t\<close>.\<close>

lemma sint_mult_nowrap:
  fixes a b :: int32
  assumes "- (2 ^ 31) \<le> sint a * sint b" and "sint a * sint b < 2 ^ 31"
  shows "sint (a * b) = sint a * sint b"
  using assms by (simp add: sint_word_ariths signed_take_bit_int_eq_self)

section \<open>Qwen2.5-32B constants\<close>

definition BYTES_PER_TOKEN :: size_t where
  "BYTES_PER_TOKEN = to_size (2 * 64 * 8 * 128 :: int32) * 2"

definition BYTES_FOR_70K :: size_t where
  "BYTES_FOR_70K = 70000 * BYTES_PER_TOKEN"

definition L40S_KV_BUDGET_PER_GPU :: size_t where
  "L40S_KV_BUDGET_PER_GPU = 14 * 1024 * 1024 * 1024"

definition BYTES_FOR_70K_PER_GPU_TP :: size_t where
  "BYTES_FOR_70K_PER_GPU_TP = BYTES_FOR_70K div 2"

definition max_concurrent_requests_tp :: "size_t \<Rightarrow> size_t \<Rightarrow> size_t" where
  "max_concurrent_requests_tp seq_len available_bytes =
     (let bytes_needed = seq_len * BYTES_PER_TOKEN div 2
      in if bytes_needed > 0 then available_bytes div bytes_needed else 0)"

lemma BYTES_PER_TOKEN_eq [simp]: "BYTES_PER_TOKEN = 262144"
  by (simp add: BYTES_PER_TOKEN_def)

lemma bytes_per_token_default: "bytes_per_token default_kv_config = BYTES_PER_TOKEN"
  by (simp add: bytes_per_token_def default_kv_config_def)

end
