(* ===== verification/Kv_Books.thy ===== *)
theory Kv_Books
  imports Kv_Types "HOL-Library.Multiset"
begin

text \<open>
  The accounting shared by the allocators. A device table (\<open>unordered_map<int32_t, MemoryStats>\<close> as
  an association list) is booked for a multiset of outstanding charges when every device's used bytes
  and active count are exactly those of its charges. The interface \<open>kv_allocator\<close> at the end states
  what the scheduler relies on: which handles are live, and what allocating and freeing do to them.
\<close>

section \<open>Device tables and outstanding charges\<close>

type_synonym device_table = "(int32 \<times> memory_stats) list"
type_synonym charges = "(int32 \<times> size_t) multiset"

definition held :: "charges \<Rightarrow> int32 \<Rightarrow> nat" where
  "held cs d = (\<Sum>x \<in># filter_mset (\<lambda>x. fst x = d) cs. unat (snd x))"

definition held_count :: "charges \<Rightarrow> int32 \<Rightarrow> nat" where
  "held_count cs d = size (filter_mset (\<lambda>x. fst x = d) cs)"

definition booked :: "device_table \<Rightarrow> charges \<Rightarrow> bool" where
  "booked tab cs \<longleftrightarrow>
     (\<forall>d st. map_of tab d = Some st \<longrightarrow>
        stats_ok st \<and> unat (used_bytes st) = held cs d \<and>
        active_allocations st = of_nat (held_count cs d)) \<and>
     (\<forall>x \<in># cs. map_of tab (fst x) \<noteq> None)"

lemma bookedD:
  assumes "booked tab cs" and "map_of tab d = Some st"
  shows "stats_ok st" and "unat (used_bytes st) = held cs d"
    and "active_allocations st = of_nat (held_count cs d)"
  using assms by (auto simp: booked_def)

lemma held_add [simp]:
  "held (add_mset (d', b) cs) d = (if d' = d then unat b else 0) + held cs d"
  by (simp add: held_def)

lemma held_count_add [simp]:
  "held_count (add_mset (d', b) cs) d = (if d' = d then 1 else 0) + held_count cs d"
  by (simp add: held_count_def)

lemma held_empty [simp]: "held {#} d = 0" "held_count {#} d = 0"
  by (simp_all add: held_def held_count_def)

lemma booked_empty:
  assumes "\<And>d st. map_of tab d = Some st \<Longrightarrow> st = fresh_stats (total_bytes st)"
  shows "booked tab {#}"
proof -
  have "stats_ok st \<and> used_bytes st = 0 \<and> active_allocations st = 0" if "map_of tab d = Some st" for d st
  proof -
    have "st = fresh_stats (total_bytes st)" using that by (rule assms)
    moreover have "stats_ok (fresh_stats (total_bytes st))
        \<and> used_bytes (fresh_stats (total_bytes st)) = 0
        \<and> active_allocations (fresh_stats (total_bytes st)) = 0"
      using stats_ok_fresh by (simp add: fresh_stats_def zero_stats_def)
    ultimately show ?thesis by metis
  qed
  then show ?thesis by (simp add: booked_def)
qed

lemma booked_charge [inv_pres]:
  assumes "booked tab cs" and "map_of tab d = Some st" and "b \<le> free_bytes st"
  shows "booked (AList.update d (charge b st) tab) (add_mset (d, b) cs)"
proof -
  from assms(1,2) have ok: "stats_ok st" and used: "unat (used_bytes st) = held cs d"
    and act: "active_allocations st = of_nat (held_count cs d)"
    by (auto simp: booked_def)
  note unat_charge [OF ok assms(3)] and stats_ok_charge [OF ok assms(3)]
  with assms(1,2) used act show ?thesis
    by (auto simp: booked_def)
qed

lemma booked_refund [inv_pres]:
  assumes "booked tab (add_mset (d, b) cs)" and "map_of tab d = Some st"
  shows "booked (AList.update d (refund b st) tab) cs"
proof -
  from assms have ok: "stats_ok st" and used: "unat (used_bytes st) = unat b + held cs d"
    and act: "active_allocations st = of_nat (Suc (held_count cs d))"
    by (auto simp: booked_def)
  then have le: "b \<le> used_bytes st" by (simp add: word_le_nat_alt)
  note unat_refund [OF ok le] and stats_ok_refund [OF ok le]
  with assms used act show ?thesis
    by (auto simp: booked_def)
qed

text \<open>A booked table never hands out more than the device has.\<close>

lemma booked_bound:
  assumes "booked tab cs" and "map_of tab d = Some st"
  shows "held cs d \<le> unat (total_bytes st)"
  using bookedD [OF assms] by (simp add: stats_ok_def)

lemma booked_no_charges:
  assumes "booked tab {#}" and "map_of tab d = Some st"
  shows "used_bytes st = 0" and "free_bytes st = total_bytes st" and "active_allocations st = 0"
proof -
  from assms have "stats_ok st" and u: "unat (used_bytes st) = 0" and a: "active_allocations st = 0"
    by (auto simp: booked_def)
  then show "used_bytes st = 0" and "active_allocations st = 0" by (simp_all add: unat_eq_0)
  from \<open>stats_ok st\<close> u show "free_bytes st = total_bytes st"
    by (simp add: stats_ok_def word_unat_eq_iff)
qed

lemma booked_reset:
  assumes "booked tab cs"
  shows "booked (map (\<lambda>(d, st). (d, stats_reset st)) tab) {#}"
proof -
  have "stats_ok (stats_reset st)" if "stats_ok st" for st
    using that by (auto simp: stats_ok_def stats_reset_def)
  with assms show ?thesis
    by (auto simp: booked_def map_of_map_snd stats_reset_def)
qed

section \<open>What a client of an allocator relies on\<close>

text \<open>
  \<open>books s hs\<close>: the allocator is in a consistent state in which exactly the handles \<open>hs\<close> are live.
  \<open>ready n s\<close>: the request size and the allocator's identifier counter are in the range the laws
  cover. \<open>idle s\<close>: nothing is in use. A command of a client either allocates or frees the \<open>i\<close>-th of
  the handles it holds.
\<close>

datatype kv_command = Alloc size_t | Free nat

type_synonym 's kv_client = "'s \<times> kv_cache_handle list"

fun run_command ::
  "(size_t \<Rightarrow> 's \<Rightarrow> kv_cache_handle result \<times> 's) \<Rightarrow> (kv_cache_handle \<Rightarrow> 's \<Rightarrow> kv_cache_handle \<times> 's) \<Rightarrow>
     kv_command \<Rightarrow> 's kv_client \<Rightarrow> 's kv_client" where
  "run_command alloc free (Alloc n) (s, hs) =
     (case alloc n s of (Inr h, s') \<Rightarrow> (s', h # hs) | (Inl e, s') \<Rightarrow> (s', hs))"
| "run_command alloc free (Free i) (s, hs) =
     (if i < length hs then (snd (free (hs ! i) s), remove1 (hs ! i) hs) else (s, hs))"

definition run_script ::
  "(size_t \<Rightarrow> 's \<Rightarrow> kv_cache_handle result \<times> 's) \<Rightarrow> (kv_cache_handle \<Rightarrow> 's \<Rightarrow> kv_cache_handle \<times> 's) \<Rightarrow>
     kv_command list \<Rightarrow> 's kv_client \<Rightarrow> 's kv_client" where
  "run_script alloc free cmds st = fold (run_command alloc free) cmds st"

text \<open>Every allocation of the script is made in a state that is ready for its size.\<close>

fun script_ready ::
  "(size_t \<Rightarrow> 's \<Rightarrow> kv_cache_handle result \<times> 's) \<Rightarrow> (kv_cache_handle \<Rightarrow> 's \<Rightarrow> kv_cache_handle \<times> 's) \<Rightarrow>
     (size_t \<Rightarrow> 's \<Rightarrow> bool) \<Rightarrow> kv_command list \<Rightarrow> 's kv_client \<Rightarrow> bool" where
  "script_ready alloc free ready [] st = True"
| "script_ready alloc free ready (cmd # cmds) st =
     ((case cmd of Alloc n \<Rightarrow> ready n (fst st) | Free i \<Rightarrow> True) \<and>
      script_ready alloc free ready cmds (run_command alloc free cmd st))"

text \<open>Freeing a list of handles in order.\<close>

definition free_all ::
  "(kv_cache_handle \<Rightarrow> 's \<Rightarrow> kv_cache_handle \<times> 's) \<Rightarrow> kv_cache_handle list \<Rightarrow> 's \<Rightarrow> 's" where
  "free_all free hs s = fold (\<lambda>h s. snd (free h s)) hs s"

locale kv_allocator =
  fixes alloc :: "size_t \<Rightarrow> 's \<Rightarrow> kv_cache_handle result \<times> 's"
    and free :: "kv_cache_handle \<Rightarrow> 's \<Rightarrow> kv_cache_handle \<times> 's"
    and books :: "'s \<Rightarrow> kv_cache_handle list \<Rightarrow> bool"
    and ready :: "size_t \<Rightarrow> 's \<Rightarrow> bool"
    and idle :: "'s \<Rightarrow> bool"
  assumes alloc_ok: "\<lbrakk>books s hs; ready n s; alloc n s = (Inr h, s')\<rbrakk> \<Longrightarrow>
      is_valid h \<and> max_seq_len h = n \<and> current_len h = 0 \<and> books s' (h # hs)"
    and alloc_error: "\<lbrakk>books s hs; ready n s; alloc n s = (Inl e, s')\<rbrakk> \<Longrightarrow> books s' hs"
    and free_live: "\<lbrakk>books s hs; h \<in> set hs; free h s = (h', s')\<rbrakk> \<Longrightarrow>
      \<not> is_valid h' \<and> books s' (remove1 h hs)"
    and free_invalid: "\<not> is_valid h \<Longrightarrow> free h s = (h, s)"
    and books_Nil: "books s [] \<Longrightarrow> idle s"
begin

text \<open>Freeing a handle twice is the same as freeing it once.\<close>

lemma free_twice:
  assumes "books s hs" and "h \<in> set hs" and "free h s = (h', s')"
  shows "free h' s' = (h', s')"
  using free_live [OF assms] free_invalid by blast

lemma run_command_books:
  assumes "books (fst st) (snd st)" and "case cmd of Alloc n \<Rightarrow> ready n (fst st) | Free i \<Rightarrow> True"
  shows "books (fst (run_command alloc free cmd st)) (snd (run_command alloc free cmd st))"
proof (cases cmd)
  case (Alloc n)
  with assms show ?thesis
    by (cases st) (auto split: prod.splits sum.splits dest: alloc_ok alloc_error)
next
  case (Free i)
  with assms free_live show ?thesis
    by (cases st) (auto split: if_splits, metis nth_mem prod.collapse)
qed

lemma run_script_books:
  assumes "books (fst st) (snd st)" and "script_ready alloc free ready cmds st"
  shows "books (fst (run_script alloc free cmds st)) (snd (run_script alloc free cmds st))"
  using assms
proof (induction cmds arbitrary: st)
  case (Cons cmd cmds)
  then show ?case using run_command_books [of st cmd] by (simp add: run_script_def)
qed (simp add: run_script_def)

text \<open>Freeing every live handle leaves the allocator idle.\<close>

lemma free_all_idle: "books s hs \<Longrightarrow> idle (free_all free hs s)"
proof (induction hs arbitrary: s)
  case Nil
  then show ?case by (simp add: books_Nil free_all_def)
next
  case (Cons h hs)
  obtain h' s' where "free h s = (h', s')" by fastforce
  moreover from free_live [OF Cons.prems _ this] have "books s' hs" by simp
  ultimately show ?case using Cons.IH by (simp add: free_all_def)
qed

end

end
