(* ===== verification/Contiguous_Allocator.thy ===== *)
theory Contiguous_Allocator
  imports Kv_Books
begin

text \<open>
  \<open>ContiguousKVAllocator\<close> of \<^verbatim>\<open>src/kvcache/kv_allocator.cpp\<close>: one K block and one V block per
  request, or per request and device with tensor parallelism. Each operation is a function on the
  allocator's fields and the state of the CUDA runtime; the mutex makes each of them atomic.
\<close>

section \<open>State and operations\<close>

record contiguous =
  ca_config :: kv_allocator_config
  ca_device_ids :: "int32 list"
  device_stats :: device_table
  allocations :: "uint64 \<rightharpoonup> size_t"
  next_allocation_id :: uint64

definition contiguous_init :: contiguous where
  "contiguous_init = \<lparr>ca_config = default_kv_config, ca_device_ids = [], device_stats = [],
     allocations = Map.empty, next_allocation_id = 1\<rparr>"

text \<open>\<open>static_cast<size_t>(props.totalGlobalMem * 0.8)\<close>, with the product taken exactly.\<close>

definition four_fifths :: "size_t \<Rightarrow> size_t" where
  "four_fifths n = of_nat (unat n * 4 div 5)"

text \<open>The loop of \<open>initialize\<close> over the devices; a failed query leaves the earlier entries in place.\<close>

fun init_devices ::
  "'c cuda \<Rightarrow> 'c \<Rightarrow> size_t \<Rightarrow> int32 list \<Rightarrow> device_table \<Rightarrow> unit result \<times> device_table" where
  "init_devices C c max_total [] tab = (Inr (), tab)"
| "init_devices C c max_total (d # ds) tab =
     (if max_total = 0
      then (case cudaGetDeviceProperties C d c of (err, props) \<Rightarrow>
        if err \<noteq> cudaSuccess
        then (Inl (internal (''Failed to query GPU '' @ int32_to_string d @ '' properties: '' @
                cudaGetErrorString C err)), tab)
        else init_devices C c max_total ds
               (AList.update d (fresh_stats (four_fifths (totalGlobalMem props))) tab))
      else init_devices C c max_total ds (AList.update d (fresh_stats max_total) tab))"

definition ca_initialize ::
  "'c cuda \<Rightarrow> kv_allocator_config \<Rightarrow> contiguous \<Rightarrow> 'c \<Rightarrow> unit result \<times> contiguous" where
  "ca_initialize C cfg s c =
     (let ids = (if cfg_device_ids cfg = [] then [cfg_device_id cfg] else cfg_device_ids cfg);
          cfg' = cfg\<lparr>tensor_parallel_size := to_int32 (sz ids)\<rparr>;
          (r, tab) = init_devices C c (max_total_memory cfg') ids (device_stats s)
      in (r, s\<lparr>ca_config := cfg', ca_device_ids := ids, device_stats := tab\<rparr>))"

definition allocate_on_device ::
  "'c cuda \<Rightarrow> size_t \<Rightarrow> int32 \<Rightarrow> contiguous \<Rightarrow> 'c \<Rightarrow> kv_cache_handle result \<times> contiguous \<times> 'c" where
  "allocate_on_device C len d s c =
     (let bytes_needed = bytes_for_seq_len (ca_config s) len
      in case map_of (device_stats s) d of
        None \<Rightarrow> (Inl (internal (''Device '' @ int32_to_string d @ '' not initialized'')), s, c)
      | Some st \<Rightarrow>
          if bytes_needed > free_bytes st
          then (Inl (resource_exhausted (''Insufficient KV cache memory: need '' @
                  size_to_string bytes_needed @ '' bytes, have '' @ size_to_string (free_bytes st))), s, c)
          else (case cuda_alloc_kv C d (bytes_needed div 2) c of
            (Inl (Set_device_failed err), c') \<Rightarrow>
              (Inl (internal (''Failed to set device: '' @ cudaGetErrorString C err)), s, c')
          | (Inl (K_failed err), c') \<Rightarrow>
              (Inl (internal (''Failed to allocate K cache: '' @ cudaGetErrorString C err)), s, c')
          | (Inl (V_failed err), c') \<Rightarrow>
              (Inl (internal (''Failed to allocate V cache: '' @ cudaGetErrorString C err)), s, c')
          | (Inr (k, v), c') \<Rightarrow>
              (Inr (empty_handle\<lparr>k_cache := k, v_cache := v, max_seq_len := len, current_len := 0,
                 h_device_id := d, allocation_id := next_allocation_id s\<rparr>),
               s\<lparr>device_stats := AList.update d (charge bytes_needed st) (device_stats s),
                 next_allocation_id := next_allocation_id s + 1,
                 allocations := (allocations s)(next_allocation_id s \<mapsto> bytes_needed)\<rparr>,
               c')))"

definition ca_allocate ::
  "'c cuda \<Rightarrow> size_t \<Rightarrow> contiguous \<Rightarrow> 'c \<Rightarrow> kv_cache_handle result \<times> contiguous \<times> 'c" where
  "ca_allocate C len s c = allocate_on_device C len (cfg_device_id (ca_config s)) s c"

text \<open>The first loop of \<open>allocate_tensor_parallel\<close>: every device is known and has room.\<close>

fun tp_check :: "device_table \<Rightarrow> size_t \<Rightarrow> int32 list \<Rightarrow> unit result" where
  "tp_check tab b [] = Inr ()"
| "tp_check tab b (d # ds) =
     (case map_of tab d of
        None \<Rightarrow> Inl (internal (''Device '' @ int32_to_string d @ '' not initialized''))
      | Some st \<Rightarrow>
          if b > free_bytes st
          then Inl (resource_exhausted (''Insufficient KV cache memory on device '' @
                 int32_to_string d @ '': need '' @ size_to_string b @ '' bytes, have '' @
                 size_to_string (free_bytes st)))
          else tp_check tab b ds)"

text \<open>The cleanup loops over the caches allocated so far.\<close>

fun release_caches :: "'c cuda \<Rightarrow> per_device_kv_cache list \<Rightarrow> 'c \<Rightarrow> 'c" where
  "release_caches C [] c = c"
| "release_caches C (x # xs) c =
     release_caches C xs (release_kv C (pd_device_id x) (pd_k_cache x) (pd_v_cache x) c)"

definition tp_failure_message :: "'c cuda \<Rightarrow> int32 \<Rightarrow> kv_alloc_failure \<Rightarrow> string" where
  "tp_failure_message C d f = (case f of
     Set_device_failed err \<Rightarrow> ''Failed to set device '' @ int32_to_string d
   | K_failed err \<Rightarrow> ''Failed to allocate K cache on device '' @ int32_to_string d @ '': '' @
       cudaGetErrorString C err
   | V_failed err \<Rightarrow> ''Failed to allocate V cache on device '' @ int32_to_string d @ '': '' @
       cudaGetErrorString C err)"

text \<open>
  The second loop: one K and one V block per device, the device's statistics charged at once. On an
  error the blocks allocated so far are released; the statistics charged so far stay.
\<close>

definition charge_device :: "size_t \<Rightarrow> int32 \<Rightarrow> device_table \<Rightarrow> device_table" where
  "charge_device b d tab =
     AList.update d (charge b (case map_of tab d of None \<Rightarrow> zero_stats | Some st \<Rightarrow> st)) tab"

fun tp_allocate ::
  "'c cuda \<Rightarrow> size_t \<Rightarrow> int32 list \<Rightarrow> per_device_kv_cache list \<Rightarrow> device_table \<Rightarrow> 'c \<Rightarrow>
     per_device_kv_cache list result \<times> device_table \<times> 'c" where
  "tp_allocate C b [] caches tab c = (Inr caches, tab, c)"
| "tp_allocate C b (d # ds) caches tab c =
     (case cuda_alloc_kv C d (b div 2) c of
        (Inl f, c') \<Rightarrow> (Inl (internal (tp_failure_message C d f)), tab, release_caches C caches c')
      | (Inr (k, v), c') \<Rightarrow>
          tp_allocate C b ds
            (caches @ [\<lparr>pd_k_cache = k, pd_v_cache = v, pd_device_id = d, bytes_allocated = b\<rparr>])
            (charge_device b d tab) c')"

definition ca_allocate_tensor_parallel ::
  "'c cuda \<Rightarrow> size_t \<Rightarrow> int32 list \<Rightarrow> contiguous \<Rightarrow> 'c \<Rightarrow> kv_cache_handle result \<times> contiguous \<times> 'c" where
  "ca_allocate_tensor_parallel C len ds s c =
     (if ds = [] then ca_allocate C len s c
      else let b = bytes_for_seq_len_per_device (ca_config s) len
      in case tp_check (device_stats s) b ds of
        Inl e \<Rightarrow> (Inl e, s, c)
      | Inr _ \<Rightarrow>
          (let id = next_allocation_id s; s1 = s\<lparr>next_allocation_id := id + 1\<rparr>
           in case tp_allocate C b ds [] (device_stats s1) c of
             (Inl e, tab, c') \<Rightarrow> (Inl e, s1\<lparr>device_stats := tab\<rparr>, c')
           | (Inr caches, tab, c') \<Rightarrow>
               (Inr \<lparr>k_cache = pd_k_cache (hd caches), v_cache = pd_v_cache (hd caches),
                     max_seq_len = len, current_len = 0, h_device_id = hd ds, allocation_id = id,
                     device_caches = caches, is_tensor_parallel = True\<rparr>,
                s1\<lparr>device_stats := tab, allocations := (allocations s1)(id \<mapsto> b * sz ds)\<rparr>, c')))"

text \<open>\<open>free\<close>: the tensor-parallel loop, then the whole operation, which also clears the handle.\<close>

definition refund_device :: "size_t \<Rightarrow> int32 \<Rightarrow> device_table \<Rightarrow> device_table" where
  "refund_device b d tab =
     (case map_of tab d of None \<Rightarrow> tab | Some st \<Rightarrow> AList.update d (refund b st) tab)"

fun free_caches ::
  "'c cuda \<Rightarrow> per_device_kv_cache list \<Rightarrow> device_table \<Rightarrow> 'c \<Rightarrow> device_table \<times> 'c" where
  "free_caches C [] tab c = (tab, c)"
| "free_caches C (x # xs) tab c =
     free_caches C xs (refund_device (bytes_allocated x) (pd_device_id x) tab)
       (release_kv C (pd_device_id x) (pd_k_cache x) (pd_v_cache x) c)"

definition release_handle ::
  "'c cuda \<Rightarrow> kv_cache_handle \<Rightarrow> contiguous \<Rightarrow> 'c \<Rightarrow> device_table \<times> 'c" where
  "release_handle C h s c =
     (if is_tensor_parallel h then free_caches C (device_caches h) (device_stats s) c
      else (refund_device (case allocations s (allocation_id h) of None \<Rightarrow> 0 | Some b \<Rightarrow> b)
              (h_device_id h) (device_stats s),
            release_kv C (h_device_id h) (k_cache h) (v_cache h) c))"

definition ca_free ::
  "'c cuda \<Rightarrow> kv_cache_handle \<Rightarrow> contiguous \<Rightarrow> 'c \<Rightarrow> kv_cache_handle \<times> contiguous \<times> 'c" where
  "ca_free C h s c =
     (if \<not> is_valid h then (h, s, c)
      else (h\<lparr>k_cache := nullptr, v_cache := nullptr, device_caches := [], allocation_id := 0\<rparr>,
            s\<lparr>device_stats := fst (release_handle C h s c),
              allocations := (allocations s)(allocation_id h := None)\<rparr>,
            snd (release_handle C h s c)))"

definition ca_can_allocate :: "size_t \<Rightarrow> contiguous \<Rightarrow> bool" where
  "ca_can_allocate len s =
     (case map_of (device_stats s) (cfg_device_id (ca_config s)) of
        None \<Rightarrow> False
      | Some st \<Rightarrow> bytes_for_seq_len (ca_config s) len \<le> free_bytes st)"

fun tp_fits :: "device_table \<Rightarrow> size_t \<Rightarrow> int32 list \<Rightarrow> bool" where
  "tp_fits tab b [] = True"
| "tp_fits tab b (d # ds) =
     (case map_of tab d of
        None \<Rightarrow> False
      | Some st \<Rightarrow> if b > free_bytes st then False else tp_fits tab b ds)"

definition ca_can_allocate_tensor_parallel :: "size_t \<Rightarrow> int32 list \<Rightarrow> contiguous \<Rightarrow> bool" where
  "ca_can_allocate_tensor_parallel len ds s =
     (if ds = [] then ca_can_allocate len s
      else tp_fits (device_stats s) (bytes_for_seq_len_per_device (ca_config s) len) ds)"

definition ca_stats :: "contiguous \<Rightarrow> memory_stats" where
  "ca_stats s = foldl add_stats zero_stats (map snd (device_stats s))"

definition ca_stats_device :: "int32 \<Rightarrow> contiguous \<Rightarrow> memory_stats" where
  "ca_stats_device d s = (case map_of (device_stats s) d of None \<Rightarrow> zero_stats | Some st \<Rightarrow> st)"

definition ca_reset :: "contiguous \<Rightarrow> contiguous" where
  "ca_reset s = s\<lparr>device_stats := map (\<lambda>(d, st). (d, stats_reset st)) (device_stats s),
                  allocations := Map.empty\<rparr>"

section \<open>What a live handle holds\<close>

text \<open>
  The charges a handle stands for, the device blocks it owns, and the invariant: every device's books
  balance against the live handles, identifiers are unique and below the counter, and no device block
  is owned twice.
\<close>

definition footprint :: "(uint64 \<rightharpoonup> size_t) \<Rightarrow> kv_cache_handle \<Rightarrow> charges" where
  "footprint al h =
     (if is_tensor_parallel h
      then mset (map (\<lambda>x. (pd_device_id x, bytes_allocated x)) (device_caches h))
      else (case al (allocation_id h) of None \<Rightarrow> {#} | Some b \<Rightarrow> {#(h_device_id h, b)#}))"

definition cache_blocks :: "per_device_kv_cache list \<Rightarrow> ptr list" where
  "cache_blocks xs = concat (map (\<lambda>x. [pd_k_cache x, pd_v_cache x]) xs)"

definition handle_blocks :: "kv_cache_handle \<Rightarrow> ptr list" where
  "handle_blocks h =
     (if is_tensor_parallel h then cache_blocks (device_caches h) else [k_cache h, v_cache h])"

definition all_blocks :: "kv_cache_handle list \<Rightarrow> ptr list" where
  "all_blocks hs = concat (map handle_blocks hs)"

definition all_charges :: "(uint64 \<rightharpoonup> size_t) \<Rightarrow> kv_cache_handle list \<Rightarrow> charges" where
  "all_charges al hs = sum_list (map (footprint al) hs)"

definition ca_books ::
  "'c cuda \<Rightarrow> ('c \<Rightarrow> ptr set) \<Rightarrow> contiguous \<times> 'c \<Rightarrow> kv_cache_handle list \<Rightarrow> bool" where
  "ca_books C live = (\<lambda>(s, c) hs.
     cuda_heap C live \<and>
     booked (device_stats s) (all_charges (allocations s) hs) \<and>
     distinct (map allocation_id hs) \<and>
     (\<forall>h \<in> set hs. is_valid h \<and> allocation_id h < next_allocation_id s \<and>
        allocation_id h \<in> dom (allocations s)) \<and>
     distinct (all_blocks hs) \<and> set (all_blocks hs) \<subseteq> live c)"

definition ca_ready :: "size_t \<Rightarrow> contiguous \<times> 'c \<Rightarrow> bool" where
  "ca_ready len = (\<lambda>(s, c).
     bytes_for_seq_len (ca_config s) len div 2 \<noteq> 0 \<and> next_allocation_id s < uint64_max)"

definition ca_idle :: "contiguous \<times> 'c \<Rightarrow> bool" where
  "ca_idle = (\<lambda>(s, c). \<forall>d \<in> fst ` set (device_stats s).
     case map_of (device_stats s) d of
       None \<Rightarrow> True
     | Some st \<Rightarrow> used_bytes st = 0 \<and> free_bytes st = total_bytes st \<and> active_allocations st = 0)"

lemma all_charges_simps [simp]:
  "all_charges al [] = {#}"
  "all_charges al (h # hs) = footprint al h + all_charges al hs"
  by (simp_all add: all_charges_def)

lemma all_blocks_simps [simp]:
  "all_blocks [] = []"
  "all_blocks (h # hs) = handle_blocks h @ all_blocks hs"
  by (simp_all add: all_blocks_def)

lemma cache_blocks_simps [simp]:
  "cache_blocks [] = []"
  "cache_blocks (x # xs) = pd_k_cache x # pd_v_cache x # cache_blocks xs"
  "cache_blocks (xs @ ys) = cache_blocks xs @ cache_blocks ys"
  by (simp_all add: cache_blocks_def)

text \<open>Handles with other identifiers do not see a change of one entry of \<open>allocations_\<close>.\<close>

lemma all_charges_other:
  "i \<notin> allocation_id ` set hs \<Longrightarrow> all_charges (al(i := x)) hs = all_charges al hs"
  by (induction hs) (auto simp: footprint_def)

lemma all_charges_remove1:
  "h \<in> set hs \<Longrightarrow> all_charges al hs = footprint al h + all_charges al (remove1 h hs)"
  by (induction hs) (auto simp: ac_simps)

lemma all_blocks_remove1:
  "h \<in> set hs \<Longrightarrow> mset (all_blocks hs) = mset (handle_blocks h) + mset (all_blocks (remove1 h hs))"
  by (induction hs) (auto simp: ac_simps)

section \<open>Single-device allocation\<close>

lemma allocate_on_device_Inr:
  assumes "allocate_on_device C len d s c = (Inr h, s', c')"
  obtains st k v where "map_of (device_stats s) d = Some st"
    and "bytes_for_seq_len (ca_config s) len \<le> free_bytes st"
    and "cuda_alloc_kv C d (bytes_for_seq_len (ca_config s) len div 2) c = (Inr (k, v), c')"
    and "h = empty_handle\<lparr>k_cache := k, v_cache := v, max_seq_len := len, current_len := 0,
           h_device_id := d, allocation_id := next_allocation_id s\<rparr>"
    and "s' = s\<lparr>device_stats := AList.update d (charge (bytes_for_seq_len (ca_config s) len) st)
                  (device_stats s),
           next_allocation_id := next_allocation_id s + 1,
           allocations := (allocations s)(next_allocation_id s \<mapsto> bytes_for_seq_len (ca_config s) len)\<rparr>"
  using assms that
  by (auto simp: allocate_on_device_def Let_def not_less
      split: option.splits if_splits prod.splits sum.splits kv_alloc_failure.splits)

lemma allocate_on_device_Inl:
  assumes "allocate_on_device C len d s c = (Inl e, s', c')"
  shows "s' = s" and "c' = c \<or> (\<exists>f. cuda_alloc_kv C d (bytes_for_seq_len (ca_config s) len div 2) c = (Inl f, c'))"
  using assms
  by (auto simp: allocate_on_device_def Let_def
      split: option.splits if_splits prod.splits sum.splits kv_alloc_failure.splits)


text \<open>The invariant, taken apart and put together.\<close>

lemma ca_booksD:
  assumes "ca_books C live (s, c) hs"
  shows "cuda_heap C live" and "booked (device_stats s) (all_charges (allocations s) hs)"
    and "distinct (map allocation_id hs)" and "distinct (all_blocks hs)"
    and "set (all_blocks hs) \<subseteq> live c"
    and "\<And>h. h \<in> set hs \<Longrightarrow> is_valid h \<and> allocation_id h < next_allocation_id s \<and>
           allocation_id h \<in> dom (allocations s)"
  using assms by (auto simp: ca_books_def)

lemma fresh_id:
  assumes "ca_books C live (s, c) hs" and "next_allocation_id s < uint64_max"
  shows "next_allocation_id s \<notin> allocation_id ` set hs"
    and "\<And>h. h \<in> set hs \<Longrightarrow> allocation_id h < next_allocation_id s + 1"
  using ca_booksD(6) [OF assms(1)] word_lt_plus1 [OF assms(2)] by fastforce+

lemma allocate_on_device_books [inv_pres]:
  assumes books: "ca_books C live (s, c) hs" and ready: "ca_ready len (s, c)"
    and run: "allocate_on_device C len d s c = (Inr h, s', c')"
  shows "is_valid h \<and> max_seq_len h = len \<and> current_len h = 0 \<and> ca_books C live (s', c') (h # hs)"
proof -
  let ?b = "bytes_for_seq_len (ca_config s) len" and ?i = "next_allocation_id s"
  from ready have n: "?b div 2 \<noteq> 0" and i: "?i < uint64_max" by (auto simp: ca_ready_def)
  from run obtain st k v where st: "map_of (device_stats s) d = Some st" "?b \<le> free_bytes st"
      and kv: "cuda_alloc_kv C d (?b div 2) c = (Inr (k, v), c')"
      and h: "h = empty_handle\<lparr>k_cache := k, v_cache := v, max_seq_len := len, current_len := 0,
           h_device_id := d, allocation_id := ?i\<rparr>"
      and s': "s' = s\<lparr>device_stats := AList.update d (charge ?b st) (device_stats s),
           next_allocation_id := ?i + 1, allocations := (allocations s)(?i \<mapsto> ?b)\<rparr>"
    by (rule allocate_on_device_Inr)
  note B = ca_booksD [OF books] and F = fresh_id [OF books i]
  note K = cuda_alloc_kv_ok [OF B(1) n kv]
  have charges: "all_charges (allocations s') (h # hs) = add_mset (d, ?b) (all_charges (allocations s) hs)"
    using F(1) by (simp add: s' h footprint_def empty_handle_def all_charges_other)
  have "booked (device_stats s') (all_charges (allocations s') (h # hs))"
    unfolding charges using booked_charge [OF B(2) st] by (simp add: s')
  moreover have "is_valid h" and "handle_blocks h = [k, v]"
    using K by (auto simp: h is_valid_def handle_blocks_def empty_handle_def)
  moreover have "distinct (k # v # all_blocks hs)" and "set (k # v # all_blocks hs) \<subseteq> live c'"
    using K B(4,5) by auto
  ultimately show ?thesis
    using B(1,3,6) F word_lt_plus1 [OF i] by (auto simp: ca_books_def s' h)
qed

lemma allocate_on_device_error [inv_pres]:
  assumes books: "ca_books C live (s, c) hs" and ready: "ca_ready len (s, c)"
    and run: "allocate_on_device C len d s c = (Inl e, s', c')"
  shows "s' = s" and "live c' = live c" and "ca_books C live (s', c') hs"
proof -
  note B = ca_booksD [OF books]
  show s': "s' = s" using run by (rule allocate_on_device_Inl)
  show c': "live c' = live c"
    using allocate_on_device_Inl(2) [OF run] cuda_alloc_kv_fail [OF B(1)] ready
    by (auto simp: ca_ready_def)
  show "ca_books C live (s', c') hs" using books by (simp add: ca_books_def s' c')
qed

section \<open>Freeing\<close>

lemma live_release_caches:
  "cuda_heap C live \<Longrightarrow> live (release_caches C xs c) = live c - set (cache_blocks xs)"
  by (induction xs arbitrary: c) (auto simp: live_release_kv)

lemma live_free_caches:
  "cuda_heap C live \<Longrightarrow> live (snd (free_caches C xs tab c)) = live c - set (cache_blocks xs)"
  by (induction xs arbitrary: tab c) (auto simp: live_release_kv)

lemma booked_refund_device [inv_pres]:
  assumes "booked tab (add_mset (d, b) cs)"
  shows "booked (refund_device b d tab) cs"
proof -
  from assms obtain st where "map_of tab d = Some st" by (auto simp: booked_def)
  then show ?thesis using booked_refund [OF assms] by (simp add: refund_device_def)
qed

lemma booked_free_caches:
  assumes "booked tab (mset (map (\<lambda>x. (pd_device_id x, bytes_allocated x)) xs) + cs)"
  shows "booked (fst (free_caches C xs tab c)) cs"
  using assms by (induction xs arbitrary: tab c) (auto intro: booked_refund_device)

lemma live_release_handle:
  "cuda_heap C live \<Longrightarrow> live (snd (release_handle C h s c)) = live c - set (handle_blocks h)"
  by (auto simp: release_handle_def handle_blocks_def live_free_caches live_release_kv)

lemma booked_release_handle:
  assumes "booked (device_stats s) (footprint (allocations s) h + cs)"
    and "is_tensor_parallel h \<or> allocation_id h \<in> dom (allocations s)"
  shows "booked (fst (release_handle C h s c)) cs"
  using assms booked_free_caches booked_refund_device
  by (fastforce simp: release_handle_def footprint_def split: if_splits)

lemma ca_free_books [inv_pres]:
  assumes books: "ca_books C live (s, c) hs" and mem: "h \<in> set hs"
    and run: "ca_free C h s c = (h', s', c')"
  shows "\<not> is_valid h'" and "live c' = live c - set (handle_blocks h)"
    and "ca_books C live (s', c') (remove1 h hs)"
proof -
  note B = ca_booksD [OF books]
  from B(6) mem have valid: "is_valid h" and id: "is_tensor_parallel h \<or> allocation_id h \<in> dom (allocations s)"
    by auto
  from run valid have eqs: "s' = s\<lparr>device_stats := fst (release_handle C h s c),
      allocations := (allocations s)(allocation_id h := None)\<rparr>" "c' = snd (release_handle C h s c)"
    "h' = h\<lparr>k_cache := nullptr, v_cache := nullptr, device_caches := [], allocation_id := 0\<rparr>"
    by (auto simp: ca_free_def)
  then show "\<not> is_valid h'" by (simp add: is_valid_def)
  show live: "live c' = live c - set (handle_blocks h)"
    using eqs live_release_handle [OF B(1)] by simp
  have rest: "all_charges (allocations s') (remove1 h hs) = all_charges (allocations s) (remove1 h hs)"
    using key_notin_remove1 [OF B(3) mem] by (simp add: eqs all_charges_other)
  have "booked (device_stats s) (footprint (allocations s) h + all_charges (allocations s) (remove1 h hs))"
    using B(2) all_charges_remove1 [OF mem] by metis
  then have "booked (device_stats s') (all_charges (allocations s') (remove1 h hs))"
    unfolding rest using booked_release_handle [OF _ id] by (simp add: eqs)
  moreover have "distinct (handle_blocks h @ all_blocks (remove1 h hs))"
    using B(4) all_blocks_remove1 [OF mem] by (metis mset_append mset_eq_imp_distinct_iff)
  moreover have "set (all_blocks (remove1 h hs)) \<subseteq> live c"
    using B(5) all_blocks_remove1 [OF mem] by (metis le_sup_iff set_append set_mset_mset set_mset_union)
  moreover have "is_valid g \<and> allocation_id g < next_allocation_id s' \<and> allocation_id g \<in> dom (allocations s')"
    if "g \<in> set (remove1 h hs)" for g
  proof -
    have "g \<in> set hs" and "allocation_id g \<noteq> allocation_id h"
      using that set_remove1_subset [of h hs] key_notin_remove1 [OF B(3) mem] by (auto simp: image_iff)
    then show ?thesis using B(6) [of g] by (simp add: eqs)
  qed
  ultimately show "ca_books C live (s', c') (remove1 h hs)"
    using B(1) distinct_keys_remove1 [OF B(3)] live unfolding ca_books_def by auto
qed

section \<open>Tensor-parallel allocation\<close>

definition all_fit :: "device_table \<Rightarrow> size_t \<Rightarrow> int32 list \<Rightarrow> bool" where
  "all_fit tab b ds \<longleftrightarrow> (\<forall>d \<in> set ds. \<exists>st. map_of tab d = Some st \<and> b \<le> free_bytes st)"

lemma all_fit_simps [simp]:
  "all_fit tab b []"
  "all_fit tab b (d # ds) \<longleftrightarrow> (\<exists>st. map_of tab d = Some st \<and> b \<le> free_bytes st) \<and> all_fit tab b ds"
  by (auto simp: all_fit_def)

lemma tp_check_Inr [result_iff]: "tp_check tab b ds = Inr u \<longleftrightarrow> all_fit tab b ds"
  by (induction ds) (auto simp: not_less split: option.splits)

lemma tp_fits_iff: "tp_fits tab b ds \<longleftrightarrow> all_fit tab b ds"
  by (induction ds) (auto simp: not_less split: option.splits)

lemma charge_device_known: "map_of tab d = Some st \<Longrightarrow> charge_device b d tab = AList.update d (charge b st) tab"
  by (simp add: charge_device_def)

lemma all_fit_charge_other: "d \<notin> set ds \<Longrightarrow> all_fit (charge_device b' d tab) b ds = all_fit tab b ds"
  by (induction ds) (auto simp: charge_device_def)

text \<open>
  A successful loop appends one cache per device, charges every device once, and adds exactly the
  blocks of the new caches, all of them fresh.
\<close>

definition tp_result ::
  "('c \<Rightarrow> ptr set) \<Rightarrow> size_t \<Rightarrow> int32 list \<Rightarrow> per_device_kv_cache list \<Rightarrow> 'c \<Rightarrow> 'c \<Rightarrow> bool" where
  "tp_result live b ds new c c' \<longleftrightarrow>
     map pd_device_id new = ds \<and> (\<forall>x \<in> set new. bytes_allocated x = b \<and> pd_k_cache x \<noteq> nullptr) \<and>
     distinct (cache_blocks new) \<and> set (cache_blocks new) \<inter> live c = {} \<and>
     live c' = live c \<union> set (cache_blocks new)"

lemma tp_result_Cons:
  assumes "cuda_heap C live" and "b div 2 \<noteq> 0" and "cuda_alloc_kv C d (b div 2) c = (Inr (k, v), c1)"
    and "tp_result live b ds new c1 c'"
  shows "tp_result live b (d # ds)
    (\<lparr>pd_k_cache = k, pd_v_cache = v, pd_device_id = d, bytes_allocated = b\<rparr> # new) c c'"
  using cuda_alloc_kv_ok [OF assms(1-3)] assms(4) by (auto simp: tp_result_def)

lemma tp_allocate_ok:
  assumes heap: "cuda_heap C live" and b: "b div 2 \<noteq> 0"
    and "distinct ds" and "all_fit tab b ds" and "booked tab cs"
    and "tp_allocate C b ds caches tab c = (Inr caches', tab', c')"
  shows "\<exists>new. caches' = caches @ new \<and> tp_result live b ds new c c' \<and>
    booked tab' (mset (map (\<lambda>d. (d, b)) ds) + cs)"
  using assms(3-)
proof (induction ds arbitrary: caches tab c cs)
  case Nil
  then show ?case by (auto simp: tp_result_def)
next
  case (Cons d ds)
  let ?x = "\<lambda>k v. \<lparr>pd_k_cache = k, pd_v_cache = v, pd_device_id = d, bytes_allocated = b\<rparr>"
  from Cons.prems(4) obtain k v c1 where kv: "cuda_alloc_kv C d (b div 2) c = (Inr (k, v), c1)"
    and rec: "tp_allocate C b ds (caches @ [?x k v]) (charge_device b d tab) c1 = (Inr caches', tab', c')"
    by (auto split: prod.splits sum.splits)
  from Cons.prems(2) obtain st where st: "map_of tab d = Some st" "b \<le> free_bytes st" by auto
  have booked: "booked (charge_device b d tab) (add_mset (d, b) cs)"
    using booked_charge [OF Cons.prems(3) st] by (simp add: charge_device_known [OF st(1)])
  have fit: "all_fit (charge_device b d tab) b ds"
    using Cons.prems(1,2) by (simp add: all_fit_charge_other)
  from Cons.prems(1) have "distinct ds" by simp
  from Cons.IH [OF this fit booked rec] obtain new where
      new: "caches' = (caches @ [?x k v]) @ new" "tp_result live b ds new c1 c'"
      "booked tab' (mset (map (\<lambda>d. (d, b)) ds) + add_mset (d, b) cs)"
    by blast
  with tp_result_Cons [OF heap b kv new(2)] show ?case
    by (intro exI [where x = "?x k v # new"]) simp
qed

text \<open>
  A failed loop releases every block it allocated; the devices before the failing one stay charged.
\<close>

lemma tp_allocate_fail:
  assumes heap: "cuda_heap C live" and b: "b div 2 \<noteq> 0"
    and "tp_allocate C b ds caches tab c = (Inl e, tab', c')"
  shows "live c' = live c - set (cache_blocks caches)"
    and "\<exists>ds1 d ds2. ds = ds1 @ d # ds2 \<and> tab' = fold (charge_device b) ds1 tab"
  using assms(3)
proof (induction ds arbitrary: caches tab c)
  case (Cons d ds)
  {
    case 1
    show ?case
    proof (cases "fst (cuda_alloc_kv C d (b div 2) c)")
      case (Inl f)
      with 1 cuda_alloc_kv_fail [OF heap b] show ?thesis
        by (auto split: prod.splits simp: live_release_caches [OF heap])
    next
      case (Inr p)
      then obtain k v c1 where kv: "cuda_alloc_kv C d (b div 2) c = (Inr (k, v), c1)"
        by (metis prod.collapse)
      with 1 have "live c' = live c1 - set (cache_blocks (caches @
          [\<lparr>pd_k_cache = k, pd_v_cache = v, pd_device_id = d, bytes_allocated = b\<rparr>]))"
        by (intro Cons.IH(1)) simp
      with cuda_alloc_kv_ok [OF heap b kv] show ?thesis by auto
    qed
  next
    case 2
    show ?case
    proof (cases "fst (cuda_alloc_kv C d (b div 2) c)")
      case (Inl f)
      with 2 show ?thesis by (intro exI [where x = "[]"]) (auto split: prod.splits)
    next
      case (Inr p)
      then obtain k v c1 where kv: "cuda_alloc_kv C d (b div 2) c = (Inr (k, v), c1)"
        by (metis prod.collapse)
      with 2 obtain ds1 d' ds2 where "ds = ds1 @ d' # ds2" "tab' = fold (charge_device b) ds1 (charge_device b d tab)"
        using Cons.IH(2) by fastforce
      then show ?thesis by (intro exI [where x = "d # ds1"]) auto
    qed
  }
qed simp_all

lemma ca_allocate_tensor_parallel_Inr:
  assumes "ca_allocate_tensor_parallel C len ds s c = (Inr h, s', c')" and "ds \<noteq> []"
  obtains caches tab where
    "all_fit (device_stats s) (bytes_for_seq_len_per_device (ca_config s) len) ds"
    and "tp_allocate C (bytes_for_seq_len_per_device (ca_config s) len) ds [] (device_stats s) c
           = (Inr caches, tab, c')"
    and "h = \<lparr>k_cache = pd_k_cache (hd caches), v_cache = pd_v_cache (hd caches), max_seq_len = len,
           current_len = 0, h_device_id = hd ds, allocation_id = next_allocation_id s,
           device_caches = caches, is_tensor_parallel = True\<rparr>"
    and "s' = s\<lparr>next_allocation_id := next_allocation_id s + 1, device_stats := tab,
           allocations := (allocations s)(next_allocation_id s \<mapsto>
             bytes_for_seq_len_per_device (ca_config s) len * sz ds)\<rparr>"
  using assms that
  by (auto simp: ca_allocate_tensor_parallel_def Let_def split: sum.splits prod.splits
      simp: tp_check_Inr)

definition ca_ready_tp :: "size_t \<Rightarrow> contiguous \<Rightarrow> bool" where
  "ca_ready_tp len s \<longleftrightarrow>
     bytes_for_seq_len_per_device (ca_config s) len div 2 \<noteq> 0 \<and> next_allocation_id s < uint64_max"

lemma is_valid_tp:
  "is_tensor_parallel h \<Longrightarrow> device_caches h \<noteq> [] \<Longrightarrow> \<forall>x \<in> set (device_caches h). pd_k_cache x \<noteq> nullptr
    \<Longrightarrow> is_valid h"
  by (cases "device_caches h") (auto simp: is_valid_def)

lemma allocate_tensor_parallel_books [inv_pres]:
  assumes books: "ca_books C live (s, c) hs" and ready: "ca_ready_tp len s"
    and ds: "ds \<noteq> []" "distinct ds"
    and run: "ca_allocate_tensor_parallel C len ds s c = (Inr h, s', c')"
  shows "is_valid h" and "is_tensor_parallel h" and "max_seq_len h = len" and "current_len h = 0"
    and "map pd_device_id (device_caches h) = ds" and "ca_books C live (s', c') (h # hs)"
proof -
  let ?b = "bytes_for_seq_len_per_device (ca_config s) len" and ?i = "next_allocation_id s"
  from ready have n: "?b div 2 \<noteq> 0" and i: "?i < uint64_max" by (auto simp: ca_ready_tp_def)
  from run ds(1) obtain caches tab where fit: "all_fit (device_stats s) ?b ds"
    and tp: "tp_allocate C ?b ds [] (device_stats s) c = (Inr caches, tab, c')"
    and h: "h = \<lparr>k_cache = pd_k_cache (hd caches), v_cache = pd_v_cache (hd caches), max_seq_len = len,
           current_len = 0, h_device_id = hd ds, allocation_id = ?i, device_caches = caches,
           is_tensor_parallel = True\<rparr>"
    and s': "s' = s\<lparr>next_allocation_id := ?i + 1, device_stats := tab,
           allocations := (allocations s)(?i \<mapsto> ?b * sz ds)\<rparr>"
    by (rule ca_allocate_tensor_parallel_Inr)
  note B = ca_booksD [OF books] and F = fresh_id [OF books i]
  from tp_allocate_ok [OF B(1) n ds(2) fit B(2) tp] have tpr: "tp_result live ?b ds caches c c'"
    and booked: "booked tab (mset (map (\<lambda>d. (d, ?b)) ds) + all_charges (allocations s) hs)" by auto
  then have caches: "map pd_device_id caches = ds" "caches \<noteq> []"
    using ds(1) by (auto simp: tp_result_def)
  then show "map pd_device_id (device_caches h) = ds" by (simp add: h)
  show valid: "is_valid h" using tpr caches(2) by (intro is_valid_tp) (auto simp: h tp_result_def)
  show "is_tensor_parallel h" "max_seq_len h = len" "current_len h = 0" by (simp_all add: h)
  have "map (\<lambda>x. (pd_device_id x, bytes_allocated x)) caches = map (\<lambda>d. (d, ?b)) (map pd_device_id caches)"
    unfolding map_map using tpr by (intro map_cong) (auto simp: tp_result_def)
  then have "footprint (allocations s') h = mset (map (\<lambda>d. (d, ?b)) ds)"
    using caches(1) by (simp add: footprint_def h)
  then have "booked (device_stats s') (all_charges (allocations s') (h # hs))"
    using booked F(1) by (simp add: s' all_charges_other)
  moreover have "handle_blocks h = cache_blocks caches" by (simp add: h handle_blocks_def)
  ultimately show "ca_books C live (s', c') (h # hs)"
    using B F word_lt_plus1 [OF i] tpr valid
    by (auto simp: ca_books_def tp_result_def s' h)
qed

section \<open>The allocator as an implementation of the interface\<close>

lemma ca_free_invalid: "\<not> is_valid h \<Longrightarrow> ca_free C h s c = (h, s, c)"
  by (simp add: ca_free_def)

lemma ca_books_idle: "ca_books C live sc [] \<Longrightarrow> ca_idle sc"
  by (auto simp: ca_books_def ca_idle_def booked_no_charges split: option.splits)

interpretation ca: kv_allocator "\<lambda>n (s, c). ca_allocate C n s c" "\<lambda>h (s, c). ca_free C h s c"
  "ca_books C live" ca_ready ca_idle for C :: "'c cuda" and live
proof
  fix s hs n h s'
  assume "ca_books C live s hs" "ca_ready n s" "(case s of (s, c) \<Rightarrow> ca_allocate C n s c) = (Inr h, s')"
  then show "is_valid h \<and> max_seq_len h = n \<and> current_len h = 0 \<and> ca_books C live s' (h # hs)"
    by (cases s; cases s') (auto simp: ca_allocate_def dest: allocate_on_device_books)
next
  fix s hs n e s'
  assume "ca_books C live s hs" "ca_ready n s" "(case s of (s, c) \<Rightarrow> ca_allocate C n s c) = (Inl e, s')"
  then show "ca_books C live s' hs"
    by (cases s; cases s') (auto simp: ca_allocate_def dest: allocate_on_device_error(3))
next
  fix s hs h h' s'
  assume "ca_books C live s hs" "h \<in> set hs" "(case s of (s, c) \<Rightarrow> ca_free C h s c) = (h', s')"
  then show "\<not> is_valid h' \<and> ca_books C live s' (remove1 h hs)"
    by (cases s; cases s') (auto dest: ca_free_books)
qed (auto simp: ca_free_invalid ca_books_idle)

section \<open>Initialisation\<close>

lemma booked_init_devices:
  "booked tab {#} \<Longrightarrow> booked (snd (init_devices C c m ds tab)) {#}"
proof (induction ds arbitrary: tab)
  case (Cons d ds)
  have "booked (AList.update d (fresh_stats n) tab) {#}" for n
    using Cons.prems stats_ok_fresh
    by (auto simp: booked_def fresh_stats_def zero_stats_def)
  with Cons show ?case by (auto split: prod.splits)
qed simp

lemma ca_initialize_books:
  assumes "cuda_heap C live" and "ca_initialize C cfg contiguous_init c = (r, s)"
  shows "ca_books C live (s, c) []" and "next_allocation_id s = 1"
proof -
  let ?ids = "if cfg_device_ids cfg = [] then [cfg_device_id cfg] else cfg_device_ids cfg"
  have "booked (snd (init_devices C c (max_total_memory cfg) ?ids [])) {#}"
    by (rule booked_init_devices) (simp add: booked_def)
  with assms show "ca_books C live (s, c) []"
    by (auto simp: ca_initialize_def ca_books_def contiguous_init_def Let_def split: prod.splits)
  show "next_allocation_id s = 1"
    using assms(2) by (auto simp: ca_initialize_def contiguous_init_def Let_def split: prod.splits)
qed

section \<open>Properties\<close>

text \<open>
  C15. From a freshly initialised contiguous allocator, every sequence of \<open>allocate\<close> and \<open>free\<close> calls
  keeps the books: on every device the used and free bytes add up to the total without wrapping, the
  used bytes and the active count are exactly those of the live handles, identifiers are unique, and
  no two live handles own the same device block.
\<close>

theorem contiguous_scripts_keep_books:
  assumes "cuda_heap C live" and "fst (ca_initialize C cfg contiguous_init c) = Inr ()"
    and "s = snd (ca_initialize C cfg contiguous_init c)"
    and "script_ready (\<lambda>n (s, c). ca_allocate C n s c) (\<lambda>h (s, c). ca_free C h s c) ca_ready cmds ((s, c), [])"
    and "run_script (\<lambda>n (s, c). ca_allocate C n s c) (\<lambda>h (s, c). ca_free C h s c) cmds ((s, c), []) = (sc', hs')"
  shows "ca_books C live sc' hs'"
proof -
  have "ca_books C live (s, c) []"
    using assms(1-3) ca_initialize_books(1) by (metis prod.collapse)
  with ca.run_script_books [of C live "((s, c), [])" cmds] assms(4,5) show ?thesis by simp
qed

definition demo_config :: kv_allocator_config where
  "demo_config = default_kv_config\<lparr>max_total_memory := 20000000, cfg_device_ids := [0, 1]\<rparr>"

definition demo_contiguous :: contiguous where
  "demo_contiguous = snd (ca_initialize bump_cuda demo_config contiguous_init (bump_init 8))"

lemmas contiguous_eval =
  demo_contiguous_def demo_config_def ca_initialize_def bump_cuda_def bump_init_def contiguous_init_def
  default_kv_config_def ca_allocate_def allocate_on_device_def ca_free_def release_handle_def
  release_kv_def refund_device_def cuda_alloc_kv_def ca_ready_def bytes_for_seq_len_def bytes_per_token_def
  bytes_for_seq_len_per_device_def bytes_per_token_per_device_def
  fresh_stats_def zero_stats_def charge_def refund_def is_valid_def empty_handle_def Let_def

lemma contiguous_demo_ready:
  "script_ready (\<lambda>n (s, c). ca_allocate bump_cuda n s c) (\<lambda>h (s, c). ca_free bump_cuda h s c)
     ca_ready [Alloc 10, Alloc 20, Free 1, Alloc 5] ((demo_contiguous, bump_init 8), [])"
  by (simp add: contiguous_eval)


theorem contiguous_scripts_keep_books_witness:
  "\<exists>sc hs. run_script (\<lambda>n (s, c). ca_allocate bump_cuda n s c) (\<lambda>h (s, c). ca_free bump_cuda h s c)
       [Alloc 10, Alloc 20, Free 1, Alloc 5] ((demo_contiguous, bump_init 8), []) = (sc, hs) \<and>
     ca_books bump_cuda bump_blocks sc hs \<and> length hs = 2"
proof -
  let ?run = "run_script (\<lambda>n (s, c). ca_allocate bump_cuda n s c) (\<lambda>h (s, c). ca_free bump_cuda h s c)
       [Alloc 10, Alloc 20, Free 1, Alloc 5] ((demo_contiguous, bump_init 8), [])"
  have init: "fst (ca_initialize bump_cuda demo_config contiguous_init (bump_init 8)) = Inr ()"
    by (simp add: contiguous_eval)
  obtain sc hs where run: "?run = (sc, hs)" by fastforce
  have "ca_books bump_cuda bump_blocks sc hs"
    using contiguous_scripts_keep_books [OF bump_cuda_heap init demo_contiguous_def contiguous_demo_ready run] .
  moreover have "length (snd ?run) = 2" by (simp add: contiguous_eval run_script_def)
  ultimately show ?thesis using run by auto
qed


definition demo_tp :: "kv_cache_handle result \<times> contiguous \<times> bump" where
  "demo_tp = ca_allocate_tensor_parallel bump_cuda 10 [0, 1] demo_contiguous (bump_init 8)"

text \<open>
  A successful tensor-parallel allocation returns a valid handle with one cache per device in the
  order of the list, and keeps the books with the new handle among the live ones.
\<close>

theorem contiguous_tp_allocates_on_every_device:
  assumes "ca_books C live (s, c) hs" and "ca_ready_tp len s" and "ds \<noteq> []" and "distinct ds"
    and "ca_allocate_tensor_parallel C len ds s c = (Inr h, s', c')"
  shows "is_valid h \<and> max_seq_len h = len \<and> map pd_device_id (device_caches h) = ds \<and>
    ca_books C live (s', c') (h # hs)"
  using allocate_tensor_parallel_books [OF assms] by blast

lemma ca_books_demo: "ca_books bump_cuda bump_blocks (demo_contiguous, bump_init 8) []"
  using ca_initialize_books(1) [OF bump_cuda_heap] unfolding demo_contiguous_def by (metis prod.collapse)

lemma sdiv_8_2 [simp]: "sdiv_int32 8 2 = 4"
  by (simp add: sdiv_int32_def)

lemma demo_tp_ok: "\<exists>h. fst demo_tp = Inr h" "ca_ready_tp 10 demo_contiguous"
  by (simp_all add: demo_tp_def ca_allocate_tensor_parallel_def ca_ready_tp_def charge_device_def contiguous_eval)

theorem contiguous_tp_allocates_on_every_device_witness:
  "\<exists>h s c. demo_tp = (Inr h, s, c) \<and> map pd_device_id (device_caches h) = [0, 1] \<and>
     ca_books bump_cuda bump_blocks (s, c) [h]"
proof -
  obtain h s c where run: "demo_tp = (Inr h, s, c)" using demo_tp_ok(1) by (metis prod.collapse)
  with contiguous_tp_allocates_on_every_device [OF ca_books_demo demo_tp_ok(2), of "[0, 1]" h s c] show ?thesis
    by (simp add: demo_tp_def)
qed




text \<open>
  C23. \<open>can_allocate\<close> predicts \<open>allocate\<close>: where it says no, \<open>allocate\<close> returns an error without a
  call into the CUDA runtime and without changing anything; where it says yes, \<open>allocate\<close> succeeds
  exactly when the runtime provides both blocks. The same holds of the tensor-parallel check.
\<close>

theorem contiguous_can_allocate_predicts:
  "(\<not> ca_can_allocate len s \<longrightarrow> (\<exists>e. ca_allocate C len s c = (Inl e, s, c))) \<and>
   (ca_can_allocate len s \<longrightarrow>
      (\<exists>h. fst (ca_allocate C len s c) = Inr h) \<longleftrightarrow>
      (\<exists>p. fst (cuda_alloc_kv C (cfg_device_id (ca_config s)) (bytes_for_seq_len (ca_config s) len div 2) c)
         = Inr p)) \<and>
   (ds \<noteq> [] \<longrightarrow> \<not> ca_can_allocate_tensor_parallel len ds s \<longrightarrow>
      (\<exists>e. ca_allocate_tensor_parallel C len ds s c = (Inl e, s, c)))"
proof (intro conjI impI)
  assume "\<not> ca_can_allocate len s"
  then show "\<exists>e. ca_allocate C len s c = (Inl e, s, c)"
    by (auto simp: ca_can_allocate_def ca_allocate_def allocate_on_device_def Let_def split: option.splits)
next
  assume "ca_can_allocate len s"
  then show "(\<exists>h. fst (ca_allocate C len s c) = Inr h) \<longleftrightarrow>
      (\<exists>p. fst (cuda_alloc_kv C (cfg_device_id (ca_config s)) (bytes_for_seq_len (ca_config s) len div 2) c)
         = Inr p)"
    by (auto simp: ca_can_allocate_def ca_allocate_def allocate_on_device_def Let_def
        split: option.splits prod.splits sum.splits kv_alloc_failure.splits)
next
  assume "ds \<noteq> []" and "\<not> ca_can_allocate_tensor_parallel len ds s"
  then have "\<not> all_fit (device_stats s) (bytes_for_seq_len_per_device (ca_config s) len) ds"
    by (simp add: ca_can_allocate_tensor_parallel_def tp_fits_iff)
  then obtain e where "tp_check (device_stats s) (bytes_for_seq_len_per_device (ca_config s) len) ds = Inl e"
    using tp_check_Inr by (metis (full_types) sumE)
  with \<open>ds \<noteq> []\<close> show "\<exists>e. ca_allocate_tensor_parallel C len ds s c = (Inl e, s, c)"
    by (simp add: ca_allocate_tensor_parallel_def Let_def)
qed

theorem contiguous_can_allocate_predicts_witness:
  "ca_can_allocate 10 demo_contiguous \<and> \<not> ca_can_allocate 1000 demo_contiguous \<and>
   (\<exists>e. ca_allocate bump_cuda 1000 demo_contiguous (bump_init 8) = (Inl e, demo_contiguous, bump_init 8))"
proof -
  have "ca_can_allocate 10 demo_contiguous" and no: "\<not> ca_can_allocate 1000 demo_contiguous"
    by (simp_all add: ca_can_allocate_def contiguous_eval)
  with contiguous_can_allocate_predicts [of 1000 demo_contiguous bump_cuda "bump_init 8" "[]"] show ?thesis
    by simp
qed

end
