(* ===== verification/Pooled_Allocator.thy ===== *)
theory Pooled_Allocator
  imports Kv_Books Contiguous_Allocator
begin

text \<open>
  \<open>PooledKVAllocator\<close> of \<^verbatim>\<open>src/kvcache/kv_allocator.cpp\<close>: a pool of equal slots per device, carved
  out of one K block and one V block, with a stack of free slot indices; requests that do not fit a
  slot, and requests that find no free slot, overflow to the CUDA runtime when that is allowed;
  tensor-parallel requests always do.
\<close>

section \<open>State\<close>

record slot =
  slot_k :: ptr
  slot_v :: ptr
  in_use :: bool

record device_pool =
  slots :: "slot list"
  free_slots :: "nat list"
  pool_memory_k :: ptr
  pool_memory_v :: ptr
  pool_stats :: memory_stats

definition empty_pool :: device_pool where
  "empty_pool = \<lparr>slots = [], free_slots = [], pool_memory_k = nullptr, pool_memory_v = nullptr,
     pool_stats = zero_stats\<rparr>"

record pooled_allocator_config =
  slot_size_tokens :: size_t
  num_slots :: size_t
  allow_overflow :: bool

record pooled =
  pool_config :: pooled_allocator_config
  pa_config :: kv_allocator_config
  pa_device_ids :: "int32 list"
  slot_bytes :: size_t
  device_pools :: "(int32 \<times> device_pool) list"
  allocation_slots :: "uint64 \<rightharpoonup> int32 \<times> nat \<times> bool"
  pa_next_id :: uint64

definition pooled_init :: "pooled_allocator_config \<Rightarrow> pooled" where
  "pooled_init pc = \<lparr>pool_config = pc, pa_config = default_kv_config, pa_device_ids = [], slot_bytes = 0,
     device_pools = [], allocation_slots = Map.empty, pa_next_id = 1\<rparr>"

section \<open>Initialisation\<close>

text \<open>Slot \<open>i\<close> of a pool: the \<open>i\<close>-th part of the K block and of the V block.\<close>

definition mk_slot :: "ptr \<Rightarrow> ptr \<Rightarrow> size_t \<Rightarrow> nat \<Rightarrow> slot" where
  "mk_slot pk pv sb i =
     \<lparr>slot_k = pk + of_nat i * (sb div 2), slot_v = pv + of_nat i * (sb div 2), in_use = False\<rparr>"

definition mk_pool :: "ptr \<Rightarrow> ptr \<Rightarrow> size_t \<Rightarrow> size_t \<Rightarrow> device_pool" where
  "mk_pool pk pv sb n = \<lparr>slots = map (mk_slot pk pv sb) [0..<unat n], free_slots = [0..<unat n],
     pool_memory_k = pk, pool_memory_v = pv, pool_stats = fresh_stats (sb * n)\<rparr>"

definition allocate_pool_for_device ::
  "'c cuda \<Rightarrow> int32 \<Rightarrow> pooled \<Rightarrow> 'c \<Rightarrow> unit result \<times> pooled \<times> 'c" where
  "allocate_pool_for_device C d s c =
     (let pool_bytes = slot_bytes s * num_slots (pool_config s)
      in case cuda_alloc_kv C d (pool_bytes div 2) c of
        (Inl (Set_device_failed err), c') \<Rightarrow>
          (Inl (internal (''Failed to set device '' @ int32_to_string d)), s, c')
      | (Inl (K_failed err), c') \<Rightarrow>
          (Inl (internal (''Failed to allocate K pool on device '' @ int32_to_string d @ '': '' @
             cudaGetErrorString C err)), s, c')
      | (Inl (V_failed err), c') \<Rightarrow>
          (Inl (internal (''Failed to allocate V pool on device '' @ int32_to_string d @ '': '' @
             cudaGetErrorString C err)), s, c')
      | (Inr (pk, pv), c') \<Rightarrow>
          (Inr (), s\<lparr>device_pools := AList.update d
             (mk_pool pk pv (slot_bytes s) (num_slots (pool_config s))) (device_pools s)\<rparr>, c'))"

fun free_pools :: "'c cuda \<Rightarrow> (int32 \<times> device_pool) list \<Rightarrow> 'c \<Rightarrow> 'c" where
  "free_pools C [] c = c"
| "free_pools C ((d, p) # ps) c =
     (let c1 = snd (cudaSetDevice C d c);
          c2 = (if pool_memory_k p \<noteq> nullptr then cudaFree C (pool_memory_k p) c1 else c1);
          c3 = (if pool_memory_v p \<noteq> nullptr then cudaFree C (pool_memory_v p) c2 else c2)
      in free_pools C ps c3)"

definition cleanup_pools :: "'c cuda \<Rightarrow> pooled \<Rightarrow> 'c \<Rightarrow> pooled \<times> 'c" where
  "cleanup_pools C s c = (s\<lparr>device_pools := []\<rparr>, free_pools C (device_pools s) c)"

fun allocate_pools ::
  "'c cuda \<Rightarrow> int32 list \<Rightarrow> pooled \<Rightarrow> 'c \<Rightarrow> unit result \<times> pooled \<times> 'c" where
  "allocate_pools C [] s c = (Inr (), s, c)"
| "allocate_pools C (d # ds) s c =
     (case allocate_pool_for_device C d s c of
        (Inl e, s', c') \<Rightarrow> (let (s2, c2) = cleanup_pools C s' c' in (Inl e, s2, c2))
      | (Inr _, s', c') \<Rightarrow> allocate_pools C ds s' c')"

definition pa_initialize ::
  "'c cuda \<Rightarrow> kv_allocator_config \<Rightarrow> pooled \<Rightarrow> 'c \<Rightarrow> unit result \<times> pooled \<times> 'c" where
  "pa_initialize C cfg s c =
     (let ids = (if cfg_device_ids cfg = [] then [cfg_device_id cfg] else cfg_device_ids cfg);
          cfg' = cfg\<lparr>tensor_parallel_size := to_int32 (sz ids)\<rparr>
      in allocate_pools C ids
           (s\<lparr>pa_config := cfg', pa_device_ids := ids,
              slot_bytes := bytes_for_seq_len cfg' (slot_size_tokens (pool_config s))\<rparr>) c)"

section \<open>Allocation\<close>

definition allocate_fallback ::
  "'c cuda \<Rightarrow> size_t \<Rightarrow> int32 \<Rightarrow> pooled \<Rightarrow> 'c \<Rightarrow> kv_cache_handle result \<times> pooled \<times> 'c" where
  "allocate_fallback C len d s c =
     (let bytes_needed = bytes_for_seq_len (pa_config s) len
      in case cuda_alloc_kv C d (bytes_needed div 2) c of
        (Inl (Set_device_failed err), c') \<Rightarrow> (Inl (internal ''Failed to set device''), s, c')
      | (Inl (K_failed err), c') \<Rightarrow>
          (Inl (internal (''Failed to allocate K cache: '' @ cudaGetErrorString C err)), s, c')
      | (Inl (V_failed err), c') \<Rightarrow>
          (Inl (internal (''Failed to allocate V cache: '' @ cudaGetErrorString C err)), s, c')
      | (Inr (k, v), c') \<Rightarrow>
          (Inr (empty_handle\<lparr>k_cache := k, v_cache := v, max_seq_len := len, current_len := 0,
             h_device_id := d, allocation_id := pa_next_id s\<rparr>),
           s\<lparr>pa_next_id := pa_next_id s + 1,
             allocation_slots := (allocation_slots s)(pa_next_id s \<mapsto> (d, 0, True))\<rparr>, c'))"

text \<open>
  The slot path of \<open>allocate\<close>, on the pool of the primary device. \<open>device_pools_[device_id]\<close> inserts
  an empty pool when the device has none.
\<close>

definition pool_of :: "pooled \<Rightarrow> int32 \<Rightarrow> device_pool" where
  "pool_of s d = (case map_of (device_pools s) d of None \<Rightarrow> empty_pool | Some p \<Rightarrow> p)"

definition take_slot :: "size_t \<Rightarrow> device_pool \<Rightarrow> nat \<times> slot \<times> device_pool" where
  "take_slot sb p =
     (let i = last (free_slots p)
      in (i, slots p ! i,
          p\<lparr>free_slots := butlast (free_slots p), slots := (slots p)[i := (slots p ! i)\<lparr>in_use := True\<rparr>],
            pool_stats := charge sb (pool_stats p)\<rparr>))"

definition pa_allocate ::
  "'c cuda \<Rightarrow> size_t \<Rightarrow> pooled \<Rightarrow> 'c \<Rightarrow> kv_cache_handle result \<times> pooled \<times> 'c" where
  "pa_allocate C len s c =
     (let d = cfg_device_id (pa_config s); fits = (len \<le> slot_size_tokens (pool_config s));
          s1 = (if fits then s\<lparr>device_pools := AList.update d (pool_of s d) (device_pools s)\<rparr> else s)
      in if fits \<and> free_slots (pool_of s d) \<noteq> []
         then (case take_slot (slot_bytes s) (pool_of s d) of (i, sl, p') \<Rightarrow>
           (Inr (empty_handle\<lparr>k_cache := slot_k sl, v_cache := slot_v sl, max_seq_len := len,
              current_len := 0, h_device_id := d, allocation_id := pa_next_id s\<rparr>),
            s1\<lparr>device_pools := AList.update d p' (device_pools s1), pa_next_id := pa_next_id s + 1,
              allocation_slots := (allocation_slots s)(pa_next_id s \<mapsto> (d, i, False))\<rparr>, c))
         else if \<not> allow_overflow (pool_config s)
         then (Inl (resource_exhausted ''KV cache pool exhausted''), s1, c)
         else allocate_fallback C len d s1 c)"

text \<open>The device loop of \<open>allocate_tensor_parallel_fallback\<close>: as the contiguous one, no statistics.\<close>

definition fallback_failure_message :: "int32 \<Rightarrow> kv_alloc_failure \<Rightarrow> string" where
  "fallback_failure_message d f = (case f of
     Set_device_failed err \<Rightarrow> ''Failed to set device '' @ int32_to_string d
   | K_failed err \<Rightarrow> ''Failed to allocate K cache on device '' @ int32_to_string d
   | V_failed err \<Rightarrow> ''Failed to allocate V cache on device '' @ int32_to_string d)"

fun fallback_tp ::
  "'c cuda \<Rightarrow> size_t \<Rightarrow> int32 list \<Rightarrow> per_device_kv_cache list \<Rightarrow> 'c \<Rightarrow>
     per_device_kv_cache list result \<times> 'c" where
  "fallback_tp C b [] caches c = (Inr caches, c)"
| "fallback_tp C b (d # ds) caches c =
     (case cuda_alloc_kv C d (b div 2) c of
        (Inl f, c') \<Rightarrow> (Inl (internal (fallback_failure_message d f)), release_caches C caches c')
      | (Inr (k, v), c') \<Rightarrow>
          fallback_tp C b ds
            (caches @ [\<lparr>pd_k_cache = k, pd_v_cache = v, pd_device_id = d, bytes_allocated = b\<rparr>]) c')"

definition allocate_tensor_parallel_fallback ::
  "'c cuda \<Rightarrow> size_t \<Rightarrow> int32 list \<Rightarrow> pooled \<Rightarrow> 'c \<Rightarrow> kv_cache_handle result \<times> pooled \<times> 'c" where
  "allocate_tensor_parallel_fallback C len ds s c =
     (let b = bytes_for_seq_len_per_device (pa_config s) len; id = pa_next_id s;
          s1 = s\<lparr>pa_next_id := id + 1\<rparr>
      in case fallback_tp C b ds [] c of
        (Inl e, c') \<Rightarrow> (Inl e, s1, c')
      | (Inr caches, c') \<Rightarrow>
          (Inr \<lparr>k_cache = pd_k_cache (hd caches), v_cache = pd_v_cache (hd caches), max_seq_len = len,
                current_len = 0, h_device_id = hd ds, allocation_id = id, device_caches = caches,
                is_tensor_parallel = True\<rparr>,
           s1\<lparr>allocation_slots := (allocation_slots s1)(id \<mapsto> (hd ds, 0, True))\<rparr>, c'))"

definition pa_allocate_tensor_parallel ::
  "'c cuda \<Rightarrow> size_t \<Rightarrow> int32 list \<Rightarrow> pooled \<Rightarrow> 'c \<Rightarrow> kv_cache_handle result \<times> pooled \<times> 'c" where
  "pa_allocate_tensor_parallel C len ds s c =
     (if ds = [] then pa_allocate C len s c else allocate_tensor_parallel_fallback C len ds s c)"

section \<open>Freeing, queries, reset\<close>

definition give_slot :: "size_t \<Rightarrow> nat \<Rightarrow> device_pool \<Rightarrow> device_pool" where
  "give_slot sb i p =
     p\<lparr>slots := (slots p)[i := (slots p ! i)\<lparr>in_use := False\<rparr>], free_slots := free_slots p @ [i],
       pool_stats := refund sb (pool_stats p)\<rparr>"

definition pa_free ::
  "'c cuda \<Rightarrow> kv_cache_handle \<Rightarrow> pooled \<Rightarrow> 'c \<Rightarrow> kv_cache_handle \<times> pooled \<times> 'c" where
  "pa_free C h s c =
     (if \<not> is_valid h then (h, s, c)
      else let h' = h\<lparr>k_cache := nullptr, v_cache := nullptr, allocation_id := 0\<rparr>;
               erased = (allocation_slots s)(allocation_id h := None)
      in case allocation_slots s (allocation_id h) of
        None \<Rightarrow> (h', s, c)
      | Some (d, i, is_overflow) \<Rightarrow>
          if is_overflow
          then (h', s\<lparr>allocation_slots := erased\<rparr>, release_kv C d (k_cache h) (v_cache h) c)
          else (h', s\<lparr>device_pools := AList.update d (give_slot (slot_bytes s) i (pool_of s d)) (device_pools s),
                      allocation_slots := erased\<rparr>, c))"

definition pa_can_allocate :: "size_t \<Rightarrow> pooled \<Rightarrow> bool" where
  "pa_can_allocate len s =
     (if len \<le> slot_size_tokens (pool_config s) \<and>
         (case map_of (device_pools s) (cfg_device_id (pa_config s)) of
            None \<Rightarrow> False | Some p \<Rightarrow> free_slots p \<noteq> [])
      then True else allow_overflow (pool_config s))"

definition pa_can_allocate_tensor_parallel :: "size_t \<Rightarrow> int32 list \<Rightarrow> pooled \<Rightarrow> bool" where
  "pa_can_allocate_tensor_parallel len ds s = allow_overflow (pool_config s)"

definition pa_stats :: "pooled \<Rightarrow> memory_stats" where
  "pa_stats s = foldl add_stats zero_stats (map (pool_stats \<circ> snd) (device_pools s))"

definition pa_stats_device :: "int32 \<Rightarrow> pooled \<Rightarrow> memory_stats" where
  "pa_stats_device d s = (case map_of (device_pools s) d of None \<Rightarrow> zero_stats | Some p \<Rightarrow> pool_stats p)"

definition reset_pool :: "device_pool \<Rightarrow> device_pool" where
  "reset_pool p = p\<lparr>free_slots := [0..<length (slots p)],
     slots := map (\<lambda>sl. sl\<lparr>in_use := False\<rparr>) (slots p), pool_stats := stats_reset (pool_stats p)\<rparr>"

definition pa_reset :: "pooled \<Rightarrow> pooled" where
  "pa_reset s = s\<lparr>device_pools := map (\<lambda>(d, p). (d, reset_pool p)) (device_pools s),
                  allocation_slots := Map.empty\<rparr>"

section \<open>The pool invariant\<close>

text \<open>
  The slots of device \<open>d\<close> leased to the live handles, and the invariant: on every device the free
  stack and the leased slots together are exactly the slots of the pool, a slot is marked in use when
  it is leased, a handle holds the pointers of its slot, the statistics count the leased slots, and
  the overflow handles own distinct live device blocks.
\<close>

definition lease :: "(uint64 \<rightharpoonup> int32 \<times> nat \<times> bool) \<Rightarrow> int32 \<Rightarrow> kv_cache_handle \<Rightarrow> nat list" where
  "lease al d h = (case al (allocation_id h) of
     Some (d', i, False) \<Rightarrow> if d' = d then [i] else [] | _ \<Rightarrow> [])"

definition leased :: "(uint64 \<rightharpoonup> int32 \<times> nat \<times> bool) \<Rightarrow> kv_cache_handle list \<Rightarrow> int32 \<Rightarrow> nat list" where
  "leased al hs d = concat (map (lease al d) hs)"

definition overflow_blocks :: "(uint64 \<rightharpoonup> int32 \<times> nat \<times> bool) \<Rightarrow> kv_cache_handle \<Rightarrow> ptr list" where
  "overflow_blocks al h = (case al (allocation_id h) of
     Some (d, i, True) \<Rightarrow> [k_cache h, v_cache h] | _ \<Rightarrow> [])"

definition all_overflow :: "(uint64 \<rightharpoonup> int32 \<times> nat \<times> bool) \<Rightarrow> kv_cache_handle list \<Rightarrow> ptr list" where
  "all_overflow al hs = concat (map (overflow_blocks al) hs)"

definition pool_ok :: "size_t \<Rightarrow> nat list \<Rightarrow> device_pool \<Rightarrow> bool" where
  "pool_ok sb ls p \<longleftrightarrow>
     mset (free_slots p) + mset ls = mset [0..<length (slots p)] \<and>
     (\<forall>i < length (slots p). in_use (slots p ! i) \<longleftrightarrow> i \<in> set ls) \<and>
     (\<forall>sl \<in> set (slots p). slot_k sl \<noteq> nullptr \<and> slot_v sl \<noteq> nullptr) \<and>
     stats_ok (pool_stats p) \<and>
     unat (used_bytes (pool_stats p)) = unat sb * length ls \<and>
     unat (total_bytes (pool_stats p)) = unat sb * length (slots p) \<and>
     active_allocations (pool_stats p) = of_nat (length ls)"

text \<open>A handle's entry of \<open>allocation_slots_\<close>: overflow, or a slot of an existing pool.\<close>

definition holds_slot :: "pooled \<Rightarrow> kv_cache_handle \<Rightarrow> bool" where
  "holds_slot s h = (case allocation_slots s (allocation_id h) of
     None \<Rightarrow> False
   | Some (d, i, is_overflow) \<Rightarrow> is_overflow \<or>
       (case map_of (device_pools s) d of
          None \<Rightarrow> False
        | Some p \<Rightarrow> i < length (slots p) \<and> k_cache h = slot_k (slots p ! i) \<and> v_cache h = slot_v (slots p ! i)))"

definition pa_books ::
  "'c cuda \<Rightarrow> ('c \<Rightarrow> ptr set) \<Rightarrow> pooled \<times> 'c \<Rightarrow> kv_cache_handle list \<Rightarrow> bool" where
  "pa_books C live = (\<lambda>(s, c) hs.
     cuda_heap C live \<and>
     (\<forall>d p. map_of (device_pools s) d = Some p \<longrightarrow>
        pool_ok (slot_bytes s) (leased (allocation_slots s) hs d) p) \<and>
     distinct (map allocation_id hs) \<and>
     (\<forall>h \<in> set hs. is_valid h \<and> \<not> is_tensor_parallel h \<and> allocation_id h < pa_next_id s \<and> holds_slot s h) \<and>
     distinct (all_overflow (allocation_slots s) hs) \<and>
     set (all_overflow (allocation_slots s) hs) \<subseteq> live c)"

definition pa_ready :: "size_t \<Rightarrow> pooled \<times> 'c \<Rightarrow> bool" where
  "pa_ready len = (\<lambda>(s, c).
     bytes_for_seq_len (pa_config s) len div 2 \<noteq> 0 \<and> pa_next_id s < uint64_max \<and>
     map_of (device_pools s) (cfg_device_id (pa_config s)) \<noteq> None)"

definition pa_idle :: "pooled \<times> 'c \<Rightarrow> bool" where
  "pa_idle = (\<lambda>(s, c). \<forall>d \<in> fst ` set (device_pools s).
     case map_of (device_pools s) d of
       None \<Rightarrow> True
     | Some p \<Rightarrow> length (free_slots p) = length (slots p) \<and> list_all (\<lambda>sl. \<not> in_use sl) (slots p) \<and>
         used_bytes (pool_stats p) = 0 \<and> active_allocations (pool_stats p) = 0)"

lemma leased_simps [simp]:
  "leased al [] d = []"
  "leased al (h # hs) d = lease al d h @ leased al hs d"
  by (simp_all add: leased_def)

lemma all_overflow_simps [simp]:
  "all_overflow al [] = []"
  "all_overflow al (h # hs) = overflow_blocks al h @ all_overflow al hs"
  by (simp_all add: all_overflow_def)

lemma leased_other: "i \<notin> allocation_id ` set hs \<Longrightarrow> leased (al(i := x)) hs d = leased al hs d"
  by (induction hs) (auto simp: lease_def)

lemma all_overflow_other: "i \<notin> allocation_id ` set hs \<Longrightarrow> all_overflow (al(i := x)) hs = all_overflow al hs"
  by (induction hs) (auto simp: overflow_blocks_def)

lemma leased_remove1:
  "h \<in> set hs \<Longrightarrow> mset (leased al hs d) = mset (lease al d h) + mset (leased al (remove1 h hs) d)"
  by (induction hs) (auto simp: ac_simps)

lemma all_overflow_remove1:
  "h \<in> set hs \<Longrightarrow> mset (all_overflow al hs) = mset (overflow_blocks al h) + mset (all_overflow al (remove1 h hs))"
  by (induction hs) (auto simp: ac_simps)

text \<open>What the partition of a pool's slots into free and leased ones gives.\<close>

lemma pool_okD:
  assumes "pool_ok sb ls p"
  shows "distinct (free_slots p @ ls)" and "set (free_slots p) \<union> set ls = {..<length (slots p)}"
    and "length (free_slots p) + length ls = length (slots p)"
proof -
  from assms have m: "mset (free_slots p @ ls) = mset [0..<length (slots p)]" by (simp add: pool_ok_def)
  then show "distinct (free_slots p @ ls)" by (metis distinct_upt mset_eq_imp_distinct_iff)
  from m have "set (free_slots p @ ls) = set [0..<length (slots p)]" by (rule mset_eq_setD)
  then show "set (free_slots p) \<union> set ls = {..<length (slots p)}" by auto
  from m have "length (free_slots p @ ls) = length [0..<length (slots p)]" by (rule mset_eq_length)
  then show "length (free_slots p) + length ls = length (slots p)" by simp
qed

lemma pool_ok_cong_mset:
  assumes "mset ls = mset ls'"
  shows "pool_ok sb ls p \<longleftrightarrow> pool_ok sb ls' p"
  using mset_eq_setD [OF assms] mset_eq_length [OF assms] assms by (simp add: pool_ok_def)

text \<open>Taking the top of the free stack leases that slot; giving a leased slot back frees it.\<close>

lemma pool_ok_take [inv_pres]:
  assumes ok: "pool_ok sb ls p" and ne: "free_slots p \<noteq> []" and run: "take_slot sb p = (i, sl, p')"
  shows "pool_ok sb (i # ls) p'" and "i < length (slots p)" and "sl = slots p ! i"
    and "slot_k sl \<noteq> nullptr" and "slot_v sl \<noteq> nullptr" and "i \<notin> set ls"
    and "length (slots p') = length (slots p)"
    and "\<And>j. slot_k (slots p' ! j) = slot_k (slots p ! j) \<and> slot_v (slots p' ! j) = slot_v (slots p ! j)"
proof -
  note D = pool_okD [OF ok]
  from run have i: "i = last (free_slots p)" and sl: "sl = slots p ! i"
    and p': "p' = p\<lparr>free_slots := butlast (free_slots p), slots := (slots p)[i := sl\<lparr>in_use := True\<rparr>],
            pool_stats := charge sb (pool_stats p)\<rparr>"
    by (auto simp: take_slot_def Let_def)
  have "i \<in> set (free_slots p)" using ne i by simp
  with D show lt: "i < length (slots p)" and notin: "i \<notin> set ls" by auto
  show "sl = slots p ! i" by (rule sl)
  then show nn: "slot_k sl \<noteq> nullptr" "slot_v sl \<noteq> nullptr" using ok lt by (auto simp: pool_ok_def)
  show "length (slots p') = length (slots p)" by (simp add: p')
  show fields: "slot_k (slots p' ! j) = slot_k (slots p ! j) \<and> slot_v (slots p' ! j) = slot_v (slots p ! j)" for j
    using lt by (cases "j = i") (simp_all add: p' sl)
  have "length ls < length (slots p)" using D(3) ne by (cases "free_slots p") auto
  then have "unat sb * Suc (length ls) \<le> unat sb * length (slots p)" by (intro mult_le_mono2) simp
  then have fit: "sb \<le> free_bytes (pool_stats p)"
    using ok by (simp add: pool_ok_def stats_ok_def word_le_nat_alt)
  have "mset (free_slots p) = add_mset i (mset (butlast (free_slots p)))"
    using ne i by (metis append_butlast_last_id mset.simps(2) mset_append union_mset_add_mset_right add.right_neutral mset.simps(1))
  with ok have "mset (butlast (free_slots p)) + mset (i # ls) = mset [0..<length (slots p)]"
    by (simp add: pool_ok_def)
  moreover have "stats_ok (pool_stats p)" using ok by (simp add: pool_ok_def)
  ultimately show "pool_ok sb (i # ls) p'"
    using ok unat_charge [OF _ fit] stats_ok_charge [OF _ fit] lt nn sl
    by (auto simp: pool_ok_def p' nth_list_update dest!: set_update_subset_insert [THEN subsetD])
qed

lemma pool_ok_give [inv_pres]:
  assumes ok: "pool_ok sb (i # ls) p"
  shows "pool_ok sb ls (give_slot sb i p)"
proof -
  note D = pool_okD [OF ok]
  have "i \<in> set (i # ls)" by simp
  then have lt: "i < length (slots p)" and notin: "i \<notin> set ls" using D by auto
  then have slot: "slot_k (slots p ! i) \<noteq> nullptr" "slot_v (slots p ! i) \<noteq> nullptr"
    using ok by (auto simp: pool_ok_def)
  have so: "stats_ok (pool_stats p)" and used: "sb \<le> used_bytes (pool_stats p)"
    using ok by (auto simp: pool_ok_def word_le_nat_alt)
  show ?thesis
    using ok unat_refund [OF so used] stats_ok_refund [OF so used] lt notin slot
    by (auto simp: pool_ok_def give_slot_def nth_list_update dest!: set_update_subset_insert [THEN subsetD])
qed

lemma give_slot_fields:
  "i < length (slots p) \<Longrightarrow> length (slots (give_slot sb i p)) = length (slots p) \<and>
     slot_k (slots (give_slot sb i p) ! j) = slot_k (slots p ! j) \<and>
     slot_v (slots (give_slot sb i p) ! j) = slot_v (slots p ! j)"
  by (cases "j = i") (simp_all add: give_slot_def)

section \<open>Allocation keeps the pool invariant\<close>

lemma pa_booksD:
  assumes "pa_books C live (s, c) hs"
  shows "cuda_heap C live"
    and "\<And>d p. map_of (device_pools s) d = Some p \<Longrightarrow>
           pool_ok (slot_bytes s) (leased (allocation_slots s) hs d) p"
    and "distinct (map allocation_id hs)"
    and "\<And>h. h \<in> set hs \<Longrightarrow> is_valid h \<and> \<not> is_tensor_parallel h \<and> allocation_id h < pa_next_id s \<and> holds_slot s h"
    and "distinct (all_overflow (allocation_slots s) hs)"
    and "set (all_overflow (allocation_slots s) hs) \<subseteq> live c"
  using assms by (auto simp: pa_books_def)

lemma pa_fresh_id:
  assumes "pa_books C live (s, c) hs" and "pa_next_id s < uint64_max"
  shows "pa_next_id s \<notin> allocation_id ` set hs"
    and "\<And>h. h \<in> set hs \<Longrightarrow> allocation_id h < pa_next_id s + 1"
  using pa_booksD(4) [OF assms(1)] word_lt_plus1 [OF assms(2)] by fastforce+

text \<open>The three outcomes of \<open>allocate\<close> on a device that has a pool.\<close>

lemma pa_allocate_cases:
  assumes "pa_allocate C len s c = (r, s', c')" and "map_of (device_pools s) (cfg_device_id (pa_config s)) = Some p"
  obtains
    (slot) i sl p' where "free_slots p \<noteq> []" and "take_slot (slot_bytes s) p = (i, sl, p')" and "c' = c"
      and "r = Inr (empty_handle\<lparr>k_cache := slot_k sl, v_cache := slot_v sl, max_seq_len := len,
              current_len := 0, h_device_id := cfg_device_id (pa_config s), allocation_id := pa_next_id s\<rparr>)"
      and "map_of (device_pools s') = (map_of (device_pools s))(cfg_device_id (pa_config s) \<mapsto> p')"
      and "allocation_slots s' = (allocation_slots s)(pa_next_id s \<mapsto> (cfg_device_id (pa_config s), i, False))"
      and "pa_next_id s' = pa_next_id s + 1" and "slot_bytes s' = slot_bytes s"
  | (overflow) k v where "cuda_alloc_kv C (cfg_device_id (pa_config s)) (bytes_for_seq_len (pa_config s) len div 2) c
        = (Inr (k, v), c')"
      and "r = Inr (empty_handle\<lparr>k_cache := k, v_cache := v, max_seq_len := len, current_len := 0,
              h_device_id := cfg_device_id (pa_config s), allocation_id := pa_next_id s\<rparr>)"
      and "map_of (device_pools s') = map_of (device_pools s)"
      and "allocation_slots s' = (allocation_slots s)(pa_next_id s \<mapsto> (cfg_device_id (pa_config s), 0, True))"
      and "pa_next_id s' = pa_next_id s + 1" and "slot_bytes s' = slot_bytes s"
  | (failed) e where "r = Inl e" and "map_of (device_pools s') = map_of (device_pools s)"
      and "allocation_slots s' = allocation_slots s" and "pa_next_id s' = pa_next_id s"
      and "slot_bytes s' = slot_bytes s"
      and "c' = c \<or> (\<exists>f. cuda_alloc_kv C (cfg_device_id (pa_config s))
              (bytes_for_seq_len (pa_config s) len div 2) c = (Inl f, c'))"
proof -
  have [simp]: "pool_of s (cfg_device_id (pa_config s)) = p" using assms(2) by (simp add: pool_of_def)
  have [simp]: "(map_of (device_pools s))(cfg_device_id (pa_config s) \<mapsto> p) = map_of (device_pools s)"
    using assms(2) by (simp add: map_upd_triv)
  obtain i sl p' where t: "take_slot (slot_bytes s) p = (i, sl, p')" by (metis prod_cases3)
  show thesis
  proof (cases "len \<le> slot_size_tokens (pool_config s) \<and> free_slots p \<noteq> []")
    case True
    with assms(1) t show ?thesis by (intro slot) (auto simp: pa_allocate_def Let_def)
  next
    case False
    define s1 where "s1 = (if len \<le> slot_size_tokens (pool_config s)
       then s\<lparr>device_pools := AList.update (cfg_device_id (pa_config s)) p (device_pools s)\<rparr> else s)"
    then have s1: "map_of (device_pools s1) = map_of (device_pools s)" "allocation_slots s1 = allocation_slots s"
      "pa_next_id s1 = pa_next_id s" "slot_bytes s1 = slot_bytes s" "pa_config s1 = pa_config s" by simp_all
    show ?thesis
    proof (cases "allow_overflow (pool_config s)")
      case True
      with False assms(1) have "allocate_fallback C len (cfg_device_id (pa_config s)) s1 c = (r, s', c')"
        unfolding pa_allocate_def Let_def s1_def by (auto split: if_splits)
      with s1 overflow failed show ?thesis
        unfolding allocate_fallback_def Let_def
        by (auto split: prod.splits sum.splits kv_alloc_failure.splits)
    next
      case no: False
      with False assms(1) have "r = Inl (resource_exhausted ''KV cache pool exhausted'')" "s' = s1" "c' = c"
        unfolding pa_allocate_def Let_def s1_def by (auto split: if_splits)
      with s1 failed show ?thesis by simp
    qed
  qed
qed

lemma holds_slot_mono:
  assumes "holds_slot s h" and "allocation_slots s' (allocation_id h) = allocation_slots s (allocation_id h)"
    and "\<And>d p. map_of (device_pools s) d = Some p \<Longrightarrow> \<exists>p'. map_of (device_pools s') d = Some p' \<and>
      length (slots p') = length (slots p) \<and> (\<forall>j. slot_k (slots p' ! j) = slot_k (slots p ! j) \<and>
      slot_v (slots p' ! j) = slot_v (slots p ! j))"
  shows "holds_slot s' h"
  using assms by (fastforce simp: holds_slot_def split: option.splits)

lemma pa_allocate_slot_books:
  assumes books: "pa_books C live (s, c) hs" and id: "pa_next_id s < uint64_max"
    and p: "map_of (device_pools s) d = Some p" "free_slots p \<noteq> []"
    and take: "take_slot (slot_bytes s) p = (i, sl, p')"
    and h: "h = empty_handle\<lparr>k_cache := slot_k sl, v_cache := slot_v sl, max_seq_len := len,
              current_len := 0, h_device_id := d, allocation_id := pa_next_id s\<rparr>"
    and pools': "map_of (device_pools s') = (map_of (device_pools s))(d \<mapsto> p')"
    and slots': "allocation_slots s' = (allocation_slots s)(pa_next_id s \<mapsto> (d, i, False))"
    and s': "pa_next_id s' = pa_next_id s + 1" "slot_bytes s' = slot_bytes s"
  shows "pa_books C live (s', c) (h # hs)"
proof -
  note B = pa_booksD [OF books] and F = pa_fresh_id [OF books id]
  note T = pool_ok_take [OF B(2) [OF p(1)] p(2) take]
  have al: "lease (allocation_slots s') d' h = (if d' = d then [i] else [])"
    "overflow_blocks (allocation_slots s') h = []" for d'
    by (auto simp: lease_def overflow_blocks_def slots' h)
  have ls: "leased (allocation_slots s') (h # hs) d' =
      (if d' = d then [i] else []) @ leased (allocation_slots s) hs d'"
    "all_overflow (allocation_slots s') (h # hs) = all_overflow (allocation_slots s) hs" for d'
    using F(1) al [unfolded slots'] by (simp_all add: slots' leased_other all_overflow_other)
  have pools: "pool_ok (slot_bytes s') (leased (allocation_slots s') (h # hs) d') q"
    if "map_of (device_pools s') d' = Some q" for d' q
    using that B(2) T(1) unfolding ls by (auto simp: pools' s' split: if_splits)
  have "is_valid h" "\<not> is_tensor_parallel h" "holds_slot s' h"
    using T by (auto simp: h is_valid_def empty_handle_def holds_slot_def slots' pools')
  moreover have "holds_slot s' g" if "g \<in> set hs" for g
  proof (rule holds_slot_mono)
    show "holds_slot s g" using B(4) [OF that] by simp
    show "allocation_slots s' (allocation_id g) = allocation_slots s (allocation_id g)"
      using F(1) imageI [OF that, of allocation_id] by (auto simp: slots')
  qed (use p T in \<open>auto simp: pools'\<close>)
  ultimately show ?thesis
    unfolding pa_books_def prod.case ls
    using B F word_lt_plus1 [OF id] pools [unfolded ls] by (auto simp: s' h)
qed

lemma pa_allocate_overflow_books:
  assumes books: "pa_books C live (s, c) hs" and id: "pa_next_id s < uint64_max" and n: "n \<noteq> 0"
    and kv: "cuda_alloc_kv C d n c = (Inr (k, v), c')"
    and h: "h = empty_handle\<lparr>k_cache := k, v_cache := v, max_seq_len := len,
              current_len := 0, h_device_id := d, allocation_id := pa_next_id s\<rparr>"
    and pools': "map_of (device_pools s') = map_of (device_pools s)"
    and slots': "allocation_slots s' = (allocation_slots s)(pa_next_id s \<mapsto> (d, 0, True))"
    and s': "pa_next_id s' = pa_next_id s + 1" "slot_bytes s' = slot_bytes s"
  shows "is_valid h" and "pa_books C live (s', c') (h # hs)"
proof -
  note B = pa_booksD [OF books] and F = pa_fresh_id [OF books id]
  note K = cuda_alloc_kv_ok [OF B(1) n kv]
  have "lease (allocation_slots s') d' h = []" "overflow_blocks (allocation_slots s') h = [k, v]" for d'
    by (auto simp: lease_def overflow_blocks_def slots' h)
  then have ls: "leased (allocation_slots s') (h # hs) d' = leased (allocation_slots s) hs d'"
    "all_overflow (allocation_slots s') (h # hs) = k # v # all_overflow (allocation_slots s) hs" for d'
    using F(1) by (simp_all add: slots' leased_other all_overflow_other)
  show valid: "is_valid h" using K by (simp add: h is_valid_def empty_handle_def)
  have "\<not> is_tensor_parallel h" "holds_slot s' h" by (simp_all add: h empty_handle_def holds_slot_def slots')
  moreover have "holds_slot s' g" if "g \<in> set hs" for g
  proof (rule holds_slot_mono)
    show "holds_slot s g" using B(4) [OF that] by simp
    show "allocation_slots s' (allocation_id g) = allocation_slots s (allocation_id g)"
      using F(1) imageI [OF that, of allocation_id] by (auto simp: slots')
  qed (auto simp: pools')
  moreover have "distinct (k # v # all_overflow (allocation_slots s) hs)"
    and "set (k # v # all_overflow (allocation_slots s) hs) \<subseteq> live c'"
    using K B(5,6) by auto
  ultimately show "pa_books C live (s', c') (h # hs)"
    unfolding pa_books_def prod.case ls
    using B F word_lt_plus1 [OF id] valid by (auto simp: s' h pools')
qed

lemma pa_allocate_books [inv_pres]:
  assumes books: "pa_books C live (s, c) hs" and ready: "pa_ready len (s, c)"
    and run: "pa_allocate C len s c = (Inr h, s', c')"
  shows "is_valid h \<and> max_seq_len h = len \<and> current_len h = 0 \<and> pa_books C live (s', c') (h # hs)"
proof -
  from ready obtain p where p: "map_of (device_pools s) (cfg_device_id (pa_config s)) = Some p"
    and n: "bytes_for_seq_len (pa_config s) len div 2 \<noteq> 0" and id: "pa_next_id s < uint64_max"
    by (auto simp: pa_ready_def)
  from run p show ?thesis
  proof (cases rule: pa_allocate_cases)
    case (slot i sl p')
    have "pa_books C live (s', c') (h # hs)"
      using pa_allocate_slot_books [OF books id p slot(1,2), of h len s'] slot by simp
    moreover have "is_valid h" using calculation by (simp add: pa_books_def)
    ultimately show ?thesis using slot(4) by simp
  next
    case (overflow k v)
    with pa_allocate_overflow_books [OF books id n overflow(1), of h len s'] show ?thesis by simp
  qed simp
qed

lemma pa_allocate_error [inv_pres]:
  assumes books: "pa_books C live (s, c) hs" and ready: "pa_ready len (s, c)"
    and run: "pa_allocate C len s c = (Inl e, s', c')"
  shows "pa_books C live (s', c') hs"
proof -
  from ready obtain p where p: "map_of (device_pools s) (cfg_device_id (pa_config s)) = Some p"
    and n: "bytes_for_seq_len (pa_config s) len div 2 \<noteq> 0" by (auto simp: pa_ready_def)
  from run p show ?thesis
  proof (cases rule: pa_allocate_cases)
    case (failed e)
    have "live c' = live c" using failed(6) cuda_alloc_kv_fail [OF pa_booksD(1) [OF books] n] by auto
    with failed books show ?thesis by (auto simp: pa_books_def elim!: holds_slot_mono)
  qed simp_all
qed

section \<open>Freeing keeps the pool invariant\<close>

lemma pa_free_invalid: "\<not> is_valid h \<Longrightarrow> pa_free C h s c = (h, s, c)"
  by (simp add: pa_free_def)

lemma not_valid_cleared: "\<not> is_tensor_parallel h \<Longrightarrow> \<not> is_valid (h\<lparr>k_cache := nullptr, v_cache := nullptr, allocation_id := 0\<rparr>)"
  by (simp add: is_valid_def)

text \<open>The frame of \<open>free\<close>: what is left of the leases and of the overflow blocks.\<close>

lemma leased_erase:
  assumes "distinct (map allocation_id hs)" and "h \<in> set hs"
  shows "leased (al(allocation_id h := None)) (remove1 h hs) d = leased al (remove1 h hs) d"
    and "all_overflow (al(allocation_id h := None)) (remove1 h hs) = all_overflow al (remove1 h hs)"
  using key_notin_remove1 [OF assms] by (simp_all add: leased_other all_overflow_other)

lemma pa_free_rest:
  assumes books: "pa_books C live (s, c) hs" and mem: "h \<in> set hs"
    and slots': "allocation_slots s' = (allocation_slots s)(allocation_id h := None)"
    and s': "pa_next_id s' = pa_next_id s" "slot_bytes s' = slot_bytes s"
    and live: "live c' = live c - set (overflow_blocks (allocation_slots s) h)"
    and pools': "\<And>d p. map_of (device_pools s) d = Some p \<Longrightarrow> \<exists>p'. map_of (device_pools s') d = Some p' \<and>
      length (slots p') = length (slots p) \<and> (\<forall>j. slot_k (slots p' ! j) = slot_k (slots p ! j) \<and>
      slot_v (slots p' ! j) = slot_v (slots p ! j))"
    and ok': "\<And>d p. map_of (device_pools s') d = Some p \<Longrightarrow>
      pool_ok (slot_bytes s) (leased (allocation_slots s) (remove1 h hs) d) p"
  shows "pa_books C live (s', c') (remove1 h hs)"
proof -
  note B = pa_booksD [OF books]
  have "distinct (overflow_blocks (allocation_slots s) h @ all_overflow (allocation_slots s) (remove1 h hs))"
    using B(5) all_overflow_remove1 [OF mem] by (metis mset_append mset_eq_imp_distinct_iff)
  moreover have "set (all_overflow (allocation_slots s) (remove1 h hs)) \<subseteq> live c"
    using B(6) all_overflow_remove1 [OF mem, of "allocation_slots s"]
    by (metis le_sup_iff set_append set_mset_mset set_mset_union)
  moreover have "is_valid g \<and> \<not> is_tensor_parallel g \<and> allocation_id g < pa_next_id s' \<and> holds_slot s' g"
    if "g \<in> set (remove1 h hs)" for g
  proof -
    have g: "g \<in> set hs" and ne: "allocation_id g \<noteq> allocation_id h"
      using that set_remove1_subset [of h hs] key_notin_remove1 [OF B(3) mem] by (auto simp: image_iff)
    have "holds_slot s' g"
      by (rule holds_slot_mono [of s]) (use B(4) [OF g] ne pools' in \<open>auto simp: slots'\<close>)
    then show ?thesis using B(4) [OF g] by (simp add: s')
  qed
  ultimately show ?thesis
    unfolding pa_books_def prod.case slots' leased_erase [OF B(3) mem]
    using B(1) ok' distinct_keys_remove1 [OF B(3)] live by (auto simp: s')
qed

lemma pa_free_books [inv_pres]:
  assumes books: "pa_books C live (s, c) hs" and mem: "h \<in> set hs"
    and run: "pa_free C h s c = (h', s', c')"
  shows "\<not> is_valid h'" and "pa_books C live (s', c') (remove1 h hs)"
proof -
  note B = pa_booksD [OF books]
  from B(4) [OF mem] have h: "is_valid h" "\<not> is_tensor_parallel h" "holds_slot s h" by simp_all
  then obtain d i ov where al: "allocation_slots s (allocation_id h) = Some (d, i, ov)"
    by (auto simp: holds_slot_def split: option.splits)
  show "\<not> is_valid h'" using run h al not_valid_cleared [OF h(2)] by (auto simp: pa_free_def Let_def split: if_splits)
  have ok: "pool_ok (slot_bytes s) (lease (allocation_slots s) d' h @ leased (allocation_slots s) (remove1 h hs) d') q"
    if "map_of (device_pools s) d' = Some q" for d' q
    using B(2) [OF that] pool_ok_cong_mset [of "leased (allocation_slots s) hs d'"] leased_remove1 [OF mem]
    by (metis mset_append)
  show "pa_books C live (s', c') (remove1 h hs)"
  proof (cases ov)
    case True
    with run h al have eqs: "s' = s\<lparr>allocation_slots := (allocation_slots s)(allocation_id h := None)\<rparr>"
      "c' = release_kv C d (k_cache h) (v_cache h) c" by (auto simp: pa_free_def Let_def)
    have ov: "overflow_blocks (allocation_slots s) h = [k_cache h, v_cache h]"
      and ls: "lease (allocation_slots s) d' h = []" for d'
      using al True by (auto simp: overflow_blocks_def lease_def)
    show ?thesis
      by (rule pa_free_rest [OF books mem])
        (use ok in \<open>auto simp: eqs live_release_kv [OF B(1)] ov ls\<close>)
  next
    case False
    from h(3) al False obtain p where p: "map_of (device_pools s) d = Some p" "i < length (slots p)"
      by (auto simp: holds_slot_def split: option.splits)
    with run h al False have eqs: "c' = c" "s' = s\<lparr>device_pools := AList.update d
        (give_slot (slot_bytes s) i p) (device_pools s),
        allocation_slots := (allocation_slots s)(allocation_id h := None)\<rparr>"
      by (auto simp: pa_free_def Let_def pool_of_def)
    have ov: "overflow_blocks (allocation_slots s) h = []"
      and ls: "lease (allocation_slots s) d' h = (if d' = d then [i] else [])" for d'
      using al False by (auto simp: overflow_blocks_def lease_def)
    have others: "pool_ok (slot_bytes s) (leased (allocation_slots s) (remove1 h hs) d') q"
      if "d' \<noteq> d" "map_of (device_pools s) d' = Some q" for d' q
      using ok [OF that(2)] that(1) by (simp add: ls)
    show ?thesis
      by (rule pa_free_rest [OF books mem])
        (use p ok [OF p(1)] others pool_ok_give give_slot_fields [OF p(2)] in \<open>auto simp: eqs ov ls split: if_splits\<close>)
  qed
qed

section \<open>The pool as an implementation of the interface\<close>

lemma pa_books_idle:
  assumes "pa_books C live sc []"
  shows "pa_idle sc"
proof -
  obtain s c where sc: "sc = (s, c)" by fastforce
  have "length (free_slots p) = length (slots p) \<and> list_all (\<lambda>sl. \<not> in_use sl) (slots p) \<and>
      used_bytes (pool_stats p) = 0 \<and> active_allocations (pool_stats p) = 0"
    if "map_of (device_pools s) d = Some p" for d p
  proof -
    have "pool_ok (slot_bytes s) [] p" using pa_booksD(2) [OF assms [unfolded sc] that] by simp
    with pool_okD(3) [OF this] show ?thesis
      by (auto simp: pool_ok_def list_all_length unat_eq_0)
  qed
  then show ?thesis by (auto simp: pa_idle_def sc split: option.splits)
qed

interpretation pa: kv_allocator "\<lambda>n (s, c). pa_allocate C n s c" "\<lambda>h (s, c). pa_free C h s c"
  "pa_books C live" pa_ready pa_idle for C :: "'c cuda" and live
proof
  fix s hs n h s'
  assume "pa_books C live s hs" "pa_ready n s" "(case s of (s, c) \<Rightarrow> pa_allocate C n s c) = (Inr h, s')"
  then show "is_valid h \<and> max_seq_len h = n \<and> current_len h = 0 \<and> pa_books C live s' (h # hs)"
    by (cases s; cases s') (auto dest: pa_allocate_books)
next
  fix s hs n e s'
  assume "pa_books C live s hs" "pa_ready n s" "(case s of (s, c) \<Rightarrow> pa_allocate C n s c) = (Inl e, s')"
  then show "pa_books C live s' hs"
    by (cases s; cases s') (auto dest: pa_allocate_error)
next
  fix s hs h h' s'
  assume "pa_books C live s hs" "h \<in> set hs" "(case s of (s, c) \<Rightarrow> pa_free C h s c) = (h', s')"
  then show "\<not> is_valid h' \<and> pa_books C live s' (remove1 h hs)"
    by (cases s; cases s') (auto dest: pa_free_books)
qed (auto simp: pa_free_invalid pa_books_idle)

section \<open>Carving a pool into slots\<close>

text \<open>
  The sizes are in range when the product of slot size and slot count does not wrap and half a pool
  is not empty.
\<close>

definition pool_sizes_ok :: "size_t \<Rightarrow> size_t \<Rightarrow> bool" where
  "pool_sizes_ok sb n \<longleftrightarrow> unat sb * unat n < 2 ^ 64 \<and> sb * n div 2 \<noteq> 0"

lemma unat_pool_bytes: "pool_sizes_ok sb n \<Longrightarrow> unat (sb * n) = unat sb * unat n"
  by (simp add: pool_sizes_ok_def unat_mult_nowrap)

lemma half_slots: "i \<le> n \<Longrightarrow> i * (s div 2) \<le> s * n div (2 :: nat)"
  by (metis (no_types, lifting) div_mult2_eq div_times_less_eq_dividend dual_order.trans le_refl
      less_eq_div_iff_mult_less_eq mult.assoc mult.commute mult_le_mono pos2)

lemma unat_slot_offset:
  assumes "pool_sizes_ok sb n" and "i \<le> unat n"
  shows "unat (of_nat i * (sb div 2) :: size_t) = i * (unat sb div 2)"
    and "i * (unat sb div 2) \<le> unat (sb * n div 2)"
proof -
  have half: "unat (sb * n div 2) = unat sb * unat n div 2" "unat (sb div 2) = unat sb div 2"
    using unat_pool_bytes [OF assms(1)] by (simp_all add: unat_div)
  show le: "i * (unat sb div 2) \<le> unat (sb * n div 2)" unfolding half using assms(2) by (rule half_slots)
  have "unat (of_nat i :: size_t) = i" using assms(2) by (rule unat_of_nat_size)
  moreover have "i * (unat sb div 2) < 2 ^ 64" using le unsigned_less [of "sb * n div 2", where ?'a = nat] by simp
  ultimately show "unat (of_nat i * (sb div 2) :: size_t) = i * (unat sb div 2)"
    by (simp add: unat_mult_nowrap half(2))
qed

lemma slot_addresses:
  assumes "pool_sizes_ok sb n" and "i < unat n"
    and "unat pk + unat (sb * n div 2) < 2 ^ 64" and "unat pv + unat (sb * n div 2) < 2 ^ 64"
  shows "unat (slot_k (mk_slot pk pv sb i)) = unat pk + i * (unat sb div 2)"
    and "unat (slot_v (mk_slot pk pv sb i)) = unat pv + i * (unat sb div 2)"
proof -
  have "unat (of_nat i * (sb div 2) :: size_t) = i * (unat sb div 2)"
    and "i * (unat sb div 2) \<le> unat (sb * n div 2)"
    using unat_slot_offset [OF assms(1)] assms(2) by simp_all
  with assms(3,4) show "unat (slot_k (mk_slot pk pv sb i)) = unat pk + i * (unat sb div 2)"
    and "unat (slot_v (mk_slot pk pv sb i)) = unat pv + i * (unat sb div 2)"
    by (simp_all add: mk_slot_def unat_plus_nowrap)
qed

lemma pool_ok_mk_pool:
  assumes sizes: "pool_sizes_ok sb n" and "pk \<noteq> nullptr" and "pv \<noteq> nullptr"
    and "unat pk + unat (sb * n div 2) < 2 ^ 64" and "unat pv + unat (sb * n div 2) < 2 ^ 64"
  shows "pool_ok sb [] (mk_pool pk pv sb n)"
proof -
  have "slot_k (mk_slot pk pv sb i) \<noteq> nullptr \<and> slot_v (mk_slot pk pv sb i) \<noteq> nullptr" if "i < unat n" for i
    using slot_addresses [OF sizes that assms(4,5)] assms(2,3) by (auto simp: unat_eq_0)
  moreover have "\<not> in_use (mk_slot pk pv sb i)" for i by (simp add: mk_slot_def)
  ultimately show ?thesis
    using unat_pool_bytes [OF sizes] stats_ok_fresh
    by (auto simp: pool_ok_def mk_pool_def fresh_stats_def zero_stats_def)
qed

section \<open>Initialisation\<close>

definition pool_blocks :: "(int32 \<times> device_pool) list \<Rightarrow> ptr list" where
  "pool_blocks ps = concat (map (\<lambda>(d, p). filter (\<lambda>q. q \<noteq> nullptr) [pool_memory_k p, pool_memory_v p]) ps)"

lemma pool_blocks_simps [simp]:
  "pool_blocks [] = []"
  "pool_blocks ((d, p) # ps) =
     filter (\<lambda>q. q \<noteq> nullptr) [pool_memory_k p, pool_memory_v p] @ pool_blocks ps"
  "pool_blocks (ps @ qs) = pool_blocks ps @ pool_blocks qs"
  by (simp_all add: pool_blocks_def)

lemma live_free_pools:
  "cuda_heap C live \<Longrightarrow> live (free_pools C ps c) = live c - set (pool_blocks ps)"
  by (induction ps arbitrary: c) (auto simp: Let_def cuda_heap_free cuda_heap_set_device split: if_splits)

lemma allocate_pool_for_device_cases:
  assumes "allocate_pool_for_device C d s c = (r, s', c')"
  obtains
    (ok) pk pv where "cuda_alloc_kv C d (slot_bytes s * num_slots (pool_config s) div 2) c = (Inr (pk, pv), c')"
      and "r = Inr ()" and "s' = s\<lparr>device_pools := AList.update d
             (mk_pool pk pv (slot_bytes s) (num_slots (pool_config s))) (device_pools s)\<rparr>"
  | (failed) e f where "cuda_alloc_kv C d (slot_bytes s * num_slots (pool_config s) div 2) c = (Inl f, c')"
      and "r = Inl e" and "s' = s"
  using assms that
  by (auto simp: allocate_pool_for_device_def Let_def split: prod.splits sum.splits kv_alloc_failure.splits)

text \<open>A pool that initialisation set up: its two blocks are fresh and it is carved from them.\<close>

definition carved :: "size_t \<Rightarrow> size_t \<Rightarrow> device_pool \<Rightarrow> bool" where
  "carved sb n p \<longleftrightarrow> (\<exists>pk pv. p = mk_pool pk pv sb n \<and> pk \<noteq> nullptr \<and> pv \<noteq> nullptr \<and>
     unat pk + unat (sb * n div 2) < 2 ^ 64 \<and> unat pv + unat (sb * n div 2) < 2 ^ 64)"

lemma allocate_pools_fail:
  assumes heap: "cuda_heap C live"
    and "slot_bytes s * num_slots (pool_config s) div 2 \<noteq> 0" and "distinct ds"
    and "set ds \<inter> fst ` set (device_pools s) = {}" and "allocate_pools C ds s c = (Inl e, s', c')"
  shows "device_pools s' = [] \<and> live c' = live c - set (pool_blocks (device_pools s))"
  using assms(2-)
proof (induction ds arbitrary: s c)
  case (Cons d ds)
  obtain r s1 c1 where run: "allocate_pool_for_device C d s c = (r, s1, c1)" by (metis prod_cases3)
  then show ?case
  proof (cases rule: allocate_pool_for_device_cases)
    case (ok pk pv)
    note K = cuda_alloc_kv_ok [OF heap Cons.prems(1) ok(1)]
    have "device_pools s1 = device_pools s @ [(d, mk_pool pk pv (slot_bytes s) (num_slots (pool_config s)))]"
      using Cons.prems(3) by (simp add: ok(3) update_absent)
    moreover have "device_pools s' = [] \<and> live c' = live c1 - set (pool_blocks (device_pools s1))"
      by (rule Cons.IH) (use Cons.prems run ok calculation in auto)
    ultimately show ?thesis using K by (auto simp: mk_pool_def)
  next
    case (failed e f)
    with Cons.prems(4) run have "device_pools s' = []" "c' = free_pools C (device_pools s) c1"
      by (auto simp: cleanup_pools_def)
    then show ?thesis using cuda_alloc_kv_fail [OF heap Cons.prems(1) failed(1)] live_free_pools [OF heap] by simp
  qed
qed simp

lemma allocate_pools_ok:
  assumes heap: "cuda_heap C live" and addr: "cuda_addressable C"
    and "slot_bytes s * num_slots (pool_config s) div 2 \<noteq> 0"
    and "\<forall>(d, p) \<in> set (device_pools s). carved (slot_bytes s) (num_slots (pool_config s)) p"
    and "allocate_pools C ds s c = (Inr u, s', c')"
  shows "(\<exists>ps. s' = s\<lparr>device_pools := ps\<rparr> \<and>
      (\<forall>(d, p) \<in> set ps. carved (slot_bytes s) (num_slots (pool_config s)) p) \<and>
      fst ` set ps = set ds \<union> fst ` set (device_pools s))"
  using assms(3-)
proof (induction ds arbitrary: s c)
  case Nil
  then show ?case by (intro exI [where x = "device_pools s"]) auto
next
  case (Cons d ds)
  obtain r s1 c1 where run: "allocate_pool_for_device C d s c = (r, s1, c1)" by (metis prod_cases3)
  then show ?case
  proof (cases rule: allocate_pool_for_device_cases)
    case (ok pk pv)
    have "carved (slot_bytes s) (num_slots (pool_config s)) (mk_pool pk pv (slot_bytes s) (num_slots (pool_config s)))"
      using cuda_alloc_kv_ok [OF heap Cons.prems(1) ok(1)] cuda_alloc_kv_addressable [OF addr ok(1)]
      unfolding carved_def by blast
    then have "\<forall>(d, p) \<in> set (device_pools s1). carved (slot_bytes s1) (num_slots (pool_config s1)) p"
      using Cons.prems(2) by (auto simp: ok(3) dest!: in_set_update)
    from Cons.IH [OF _ this] Cons.prems(1,3) run ok show ?thesis
      by (auto simp: dom_update)
  next
    case (failed e f)
    with Cons.prems run show ?thesis by (auto simp: cleanup_pools_def)
  qed
qed

lemma bytes_for_seq_len_tp [simp]:
  "bytes_for_seq_len (cfg\<lparr>tensor_parallel_size := t\<rparr>) n = bytes_for_seq_len cfg n"
  by (simp add: bytes_for_seq_len_def bytes_per_token_def)

definition configured_devices :: "kv_allocator_config \<Rightarrow> int32 list" where
  "configured_devices cfg = (if cfg_device_ids cfg = [] then [cfg_device_id cfg] else cfg_device_ids cfg)"

lemma pa_initialize_pools:
  assumes "cuda_heap C live" and "cuda_addressable C"
    and sizes: "pool_sizes_ok (bytes_for_seq_len cfg (slot_size_tokens pc)) (num_slots pc)"
    and run: "pa_initialize C cfg (pooled_init pc) c = (Inr (), s, c')"
  shows "slot_bytes s = bytes_for_seq_len cfg (slot_size_tokens pc)" and "allocation_slots s = Map.empty"
    and "fst ` set (device_pools s) = set (configured_devices cfg)"
    and "\<And>d p. map_of (device_pools s) d = Some p \<Longrightarrow> carved (slot_bytes s) (num_slots pc) p"
proof -
  define s0 where "s0 = (pooled_init pc)\<lparr>pa_config := cfg\<lparr>tensor_parallel_size := to_int32 (sz (configured_devices cfg))\<rparr>,
     pa_device_ids := configured_devices cfg, slot_bytes := bytes_for_seq_len cfg (slot_size_tokens pc)\<rparr>"
  have s0: "device_pools s0 = []" "slot_bytes s0 = bytes_for_seq_len cfg (slot_size_tokens pc)"
    "pool_config s0 = pc" "allocation_slots s0 = Map.empty"
    by (simp_all add: s0_def pooled_init_def)
  have "allocate_pools C (configured_devices cfg) s0 c = (Inr (), s, c')"
    using run by (simp add: pa_initialize_def s0_def configured_devices_def pooled_init_def Let_def)
  with sizes obtain ps where "s = s0\<lparr>device_pools := ps\<rparr>"
    and "\<forall>(d, p) \<in> set ps. carved (slot_bytes s0) (num_slots pc) p" and "fst ` set ps = set (configured_devices cfg)"
    using allocate_pools_ok [OF assms(1,2), of s0] by (fastforce simp: s0 pool_sizes_ok_def)
  then show "slot_bytes s = bytes_for_seq_len cfg (slot_size_tokens pc)" and "allocation_slots s = Map.empty"
    and "fst ` set (device_pools s) = set (configured_devices cfg)"
    and "\<And>d p. map_of (device_pools s) d = Some p \<Longrightarrow> carved (slot_bytes s) (num_slots pc) p"
    by (auto simp: s0 dest: map_of_SomeD)
qed

lemma pa_initialize_books:
  assumes "cuda_heap C live" and "cuda_addressable C"
    and "pool_sizes_ok (bytes_for_seq_len cfg (slot_size_tokens pc)) (num_slots pc)"
    and "pa_initialize C cfg (pooled_init pc) c = (Inr (), s, c')"
  shows "pa_books C live (s, c') []"
proof -
  note P = pa_initialize_pools [OF assms]
  have "pool_ok (slot_bytes s) [] p" if "map_of (device_pools s) d = Some p" for d p
    using P(4) [OF that] assms(3) P(1) pool_ok_mk_pool by (auto simp: carved_def)
  then show ?thesis using assms(1) by (simp add: pa_books_def)
qed

section \<open>Tensor-parallel overflow\<close>

lemma fallback_tp_ok:
  assumes heap: "cuda_heap C live" and b: "b div 2 \<noteq> 0"
    and "fallback_tp C b ds caches c = (Inr caches', c')"
  shows "\<exists>new. caches' = caches @ new \<and> tp_result live b ds new c c'"
  using assms(3-)
proof (induction ds arbitrary: caches c)
  case Nil
  then show ?case by (auto simp: tp_result_def)
next
  case (Cons d ds)
  let ?x = "\<lambda>k v. \<lparr>pd_k_cache = k, pd_v_cache = v, pd_device_id = d, bytes_allocated = b\<rparr>"
  from Cons.prems obtain k v c1 where kv: "cuda_alloc_kv C d (b div 2) c = (Inr (k, v), c1)"
    and rec: "fallback_tp C b ds (caches @ [?x k v]) c1 = (Inr caches', c')"
    by (auto split: prod.splits sum.splits)
  from Cons.IH [OF rec] obtain new where new: "caches' = (caches @ [?x k v]) @ new" "tp_result live b ds new c1 c'"
    by blast
  with tp_result_Cons [OF heap b kv new(2)] show ?case
    by (intro exI [where x = "?x k v # new"]) simp
qed

text \<open>
  Freeing a tensor-parallel handle: the entry is an overflow one, so only the blocks of the first
  device are released.
\<close>

lemma pa_free_tp:
  assumes "is_valid h" and "allocation_slots s (allocation_id h) = Some (d, i, True)"
    and "is_tensor_parallel h" and "pa_free C h s c = (h', s', c')"
  shows "is_valid h'" and "c' = release_kv C d (k_cache h) (v_cache h) c"
    and "allocation_slots s' = (allocation_slots s)(allocation_id h := None)"
  using assms by (auto simp: pa_free_def Let_def is_valid_def)

section \<open>Properties\<close>

text \<open>
  C16. From a freshly initialised pooled allocator, every sequence of \<open>allocate\<close> and \<open>free\<close> calls keeps
  the pools consistent: on every device the free stack and the slots leased to live handles partition
  the slots (so no slot is leased twice), a slot is marked in use exactly when it is leased, the
  statistics count the leased slots, and the overflow handles own distinct live device blocks.
\<close>

theorem pooled_scripts_keep_books:
  assumes "cuda_heap C live" and "cuda_addressable C"
    and "pool_sizes_ok (bytes_for_seq_len cfg (slot_size_tokens pc)) (num_slots pc)"
    and "pa_initialize C cfg (pooled_init pc) c0 = (Inr (), s, c)"
    and "script_ready (\<lambda>n (s, c). pa_allocate C n s c) (\<lambda>h (s, c). pa_free C h s c) pa_ready cmds ((s, c), [])"
    and "run_script (\<lambda>n (s, c). pa_allocate C n s c) (\<lambda>h (s, c). pa_free C h s c) cmds ((s, c), []) = (sc', hs')"
  shows "pa_books C live sc' hs'"
  using pa.run_script_books [of C live "((s, c), [])" cmds] pa_initialize_books [OF assms(1-4)] assms(5,6) by simp

definition demo_pool_config :: pooled_allocator_config where
  "demo_pool_config = \<lparr>slot_size_tokens = 16, num_slots = 2, allow_overflow = True\<rparr>"

definition demo_pooled :: "pooled \<times> bump" where
  "demo_pooled = snd (pa_initialize bump_cuda demo_config (pooled_init demo_pool_config) (bump_init 12))"

lemmas pooled_eval =
  demo_pooled_def demo_pool_config_def demo_config_def pa_initialize_def allocate_pool_for_device_def mk_pool_def mk_slot_def
  pooled_init_def pa_allocate_def pool_of_def take_slot_def allocate_fallback_def pa_free_def give_slot_def
  pa_ready_def pool_sizes_ok_def bump_cuda_def bump_init_def cuda_alloc_kv_def default_kv_config_def
  bytes_for_seq_len_def bytes_per_token_def fresh_stats_def zero_stats_def charge_def refund_def
  is_valid_def empty_handle_def release_kv_def Let_def upt_rec

lemma demo_pooled_init:
  "pa_initialize bump_cuda demo_config (pooled_init demo_pool_config) (bump_init 12) =
     (Inr (), fst demo_pooled, snd demo_pooled)"
  by (simp add: pooled_eval)

lemma demo_pool_sizes: "pool_sizes_ok (bytes_for_seq_len demo_config (slot_size_tokens demo_pool_config)) (num_slots demo_pool_config)"
  by (simp add: pooled_eval)

abbreviation "demo_script \<equiv> [Alloc 10, Alloc 16, Alloc 12, Free 1, Alloc 40, Alloc 3]"

lemma demo_pooled_ready:
  "script_ready (\<lambda>n (s, c). pa_allocate bump_cuda n s c) (\<lambda>h (s, c). pa_free bump_cuda h s c)
     pa_ready demo_script ((fst demo_pooled, snd demo_pooled), [])"
  by (simp add: pooled_eval)

theorem pooled_scripts_keep_books_witness:
  "\<exists>sc hs. run_script (\<lambda>n (s, c). pa_allocate bump_cuda n s c) (\<lambda>h (s, c). pa_free bump_cuda h s c)
       demo_script ((fst demo_pooled, snd demo_pooled), []) = (sc, hs) \<and>
     pa_books bump_cuda bump_blocks sc hs \<and> length hs = 4"
proof -
  let ?run = "run_script (\<lambda>n (s, c). pa_allocate bump_cuda n s c) (\<lambda>h (s, c). pa_free bump_cuda h s c)
       demo_script ((fst demo_pooled, snd demo_pooled), [])"
  obtain sc hs where run: "?run = (sc, hs)" by fastforce
  have "pa_books bump_cuda bump_blocks sc hs"
    using pooled_scripts_keep_books [OF bump_cuda_heap bump_cuda_addressable demo_pool_sizes
        demo_pooled_init demo_pooled_ready run] .
  moreover have "length (snd ?run) = 4" by (simp add: pooled_eval run_script_def)
  ultimately show ?thesis using run by auto
qed

text \<open>
  Freeing all live handles returns every slot: all slots of every pool are free and unmarked, and
  no byte is in use.
\<close>

theorem pooled_free_all_idle:
  assumes "pa_books C live sc hs"
  shows "pa_idle (free_all (\<lambda>h (s, c). pa_free C h s c) hs sc)"
  using assms by (rule pa.free_all_idle)

lemma demo_pooled_books: "pa_books bump_cuda bump_blocks (fst demo_pooled, snd demo_pooled) []"
  by (rule pa_initialize_books [OF bump_cuda_heap bump_cuda_addressable demo_pool_sizes demo_pooled_init])

theorem pooled_free_all_idle_witness:
  "pa_idle (free_all (\<lambda>h (s, c). pa_free bump_cuda h s c)
     (snd (run_script (\<lambda>n (s, c). pa_allocate bump_cuda n s c) (\<lambda>h (s, c). pa_free bump_cuda h s c)
        demo_script ((fst demo_pooled, snd demo_pooled), [])))
     (fst (run_script (\<lambda>n (s, c). pa_allocate bump_cuda n s c) (\<lambda>h (s, c). pa_free bump_cuda h s c)
        demo_script ((fst demo_pooled, snd demo_pooled), []))))"
  using pa.run_script_books [of bump_cuda bump_blocks "((fst demo_pooled, snd demo_pooled), [])" demo_script]
    demo_pooled_books demo_pooled_ready by (intro pooled_free_all_idle [where live = bump_blocks]) simp

text \<open>
  C19. After a successful initialisation every configured device has a pool, the slots of a pool lie
  one after another inside its K block and its V block without overlapping, and every slot is free.
\<close>

theorem pooled_slots_disjoint:
  assumes "cuda_heap C live" and "cuda_addressable C"
    and "pool_sizes_ok (bytes_for_seq_len cfg (slot_size_tokens pc)) (num_slots pc)"
    and "pa_initialize C cfg (pooled_init pc) c = (Inr (), s, c')"
    and "d \<in> set (configured_devices cfg)"
  shows "\<exists>p. map_of (device_pools s) d = Some p \<and> length (slots p) = unat (num_slots pc) \<and>
    free_slots p = [0..<unat (num_slots pc)] \<and>
    (\<forall>j < length (slots p). \<forall>i < j.
      unat (slot_k (slots p ! i)) + unat (slot_bytes s) div 2 \<le> unat (slot_k (slots p ! j)) \<and>
      unat (slot_v (slots p ! i)) + unat (slot_bytes s) div 2 \<le> unat (slot_v (slots p ! j))) \<and>
    (\<forall>i < length (slots p). pool_memory_k p \<le> slot_k (slots p ! i) \<and> pool_memory_v p \<le> slot_v (slots p ! i) \<and>
      unat (slot_k (slots p ! i)) + unat (slot_bytes s) div 2
        \<le> unat (pool_memory_k p) + unat (slot_bytes s * num_slots pc) div 2 \<and>
      unat (slot_v (slots p ! i)) + unat (slot_bytes s) div 2
        \<le> unat (pool_memory_v p) + unat (slot_bytes s * num_slots pc) div 2)"
proof -
  note P = pa_initialize_pools [OF assms(1-4)]
  from assms(5) P(3) obtain p where p: "map_of (device_pools s) d = Some p"
    by (metis map_of_eq_None_iff not_None_eq)
  then obtain pk pv where mk: "p = mk_pool pk pv (slot_bytes s) (num_slots pc)"
    and addr: "unat pk + unat (slot_bytes s * num_slots pc div 2) < 2 ^ 64"
      "unat pv + unat (slot_bytes s * num_slots pc div 2) < 2 ^ 64"
    using P(4) [OF p] by (auto simp: carved_def)
  have sizes: "pool_sizes_ok (slot_bytes s) (num_slots pc)" using assms(3) P(1) by simp
  note A = slot_addresses [OF sizes _ addr]
  have step: "a + i * n + n \<le> a + j * n" if "i < j" for a i j n :: nat
    using that mult_le_mono1 [of "Suc i" j n] by simp
  have inside: "i * (unat (slot_bytes s) div 2) + unat (slot_bytes s) div 2
      \<le> unat (slot_bytes s * num_slots pc) div 2" if "i < unat (num_slots pc)" for i
    using unat_slot_offset(2) [OF sizes, of "Suc i"] that by (simp add: unat_div)
  have "map_of (device_pools s) d = Some p \<and> length (slots p) = unat (num_slots pc) \<and>
      free_slots p = [0..<unat (num_slots pc)]"
    using p by (simp add: mk mk_pool_def)
  moreover have "\<forall>j < length (slots p). \<forall>i < j.
      unat (slot_k (slots p ! i)) + unat (slot_bytes s) div 2 \<le> unat (slot_k (slots p ! j)) \<and>
      unat (slot_v (slots p ! i)) + unat (slot_bytes s) div 2 \<le> unat (slot_v (slots p ! j))"
    using step by (simp add: mk mk_pool_def A)
  moreover have "\<forall>i < length (slots p). pool_memory_k p \<le> slot_k (slots p ! i) \<and>
      pool_memory_v p \<le> slot_v (slots p ! i) \<and>
      unat (slot_k (slots p ! i)) + unat (slot_bytes s) div 2
        \<le> unat (pool_memory_k p) + unat (slot_bytes s * num_slots pc) div 2 \<and>
      unat (slot_v (slots p ! i)) + unat (slot_bytes s) div 2
        \<le> unat (pool_memory_v p) + unat (slot_bytes s * num_slots pc) div 2"
    using inside A by (simp add: mk mk_pool_def word_le_nat_alt)
  ultimately show ?thesis by blast
qed

theorem pooled_slots_disjoint_witness:
  "\<exists>p. map_of (device_pools (fst demo_pooled)) 1 = Some p \<and> length (slots p) = 2 \<and>
     unat (slot_k (slots p ! 0)) + 2097152 \<le> unat (slot_k (slots p ! 1))"
proof -
  have "1 \<in> set (configured_devices demo_config)" by (simp add: configured_devices_def demo_config_def)
  from pooled_slots_disjoint [OF bump_cuda_heap bump_cuda_addressable demo_pool_sizes demo_pooled_init this]
  obtain p where p: "map_of (device_pools (fst demo_pooled)) 1 = Some p"
      "length (slots p) = unat (num_slots demo_pool_config)"
    and dis: "\<forall>j < length (slots p). \<forall>i < j.
      unat (slot_k (slots p ! i)) + unat (slot_bytes (fst demo_pooled)) div 2 \<le> unat (slot_k (slots p ! j))"
    by blast
  have "unat (slot_bytes (fst demo_pooled)) = 4194304" by (simp add: pooled_eval)
  then show ?thesis using p dis by (simp add: demo_pool_config_def)
qed

text \<open>
  Initialisation is all or nothing: when it fails on some device, every block it had allocated for
  the devices before is released and no pool is left behind.
\<close>

theorem pooled_initialize_all_or_nothing:
  assumes "cuda_heap C live" and "distinct (configured_devices cfg)"
    and "bytes_for_seq_len cfg (slot_size_tokens pc) * num_slots pc div 2 \<noteq> 0"
    and "pa_initialize C cfg (pooled_init pc) c = (Inl e, s, c')"
  shows "device_pools s = [] \<and> live c' = live c"
proof -
  define s0 where "s0 = (pooled_init pc)\<lparr>pa_config := cfg\<lparr>tensor_parallel_size := to_int32 (sz (configured_devices cfg))\<rparr>,
     pa_device_ids := configured_devices cfg, slot_bytes := bytes_for_seq_len cfg (slot_size_tokens pc)\<rparr>"
  have s0: "device_pools s0 = []" "slot_bytes s0 * num_slots (pool_config s0) div 2 \<noteq> 0"
    using assms(3) by (simp_all add: s0_def pooled_init_def)
  have "allocate_pools C (configured_devices cfg) s0 c = (Inl e, s, c')"
    using assms(4) by (simp add: pa_initialize_def s0_def configured_devices_def pooled_init_def Let_def)
  from allocate_pools_fail [OF assms(1) s0(2) assms(2) _ this] s0(1) show ?thesis by simp
qed

theorem pooled_initialize_all_or_nothing_witness:
  "\<exists>e s c. pa_initialize bump_cuda demo_config (pooled_init demo_pool_config) (bump_init 3) = (Inl e, s, c) \<and>
     device_pools s = [] \<and> bump_blocks c = {}"
proof -
  let ?run = "pa_initialize bump_cuda demo_config (pooled_init demo_pool_config) (bump_init 3)"
  have "\<exists>e. fst ?run = Inl e" by (simp add: pooled_eval cleanup_pools_def)
  then obtain e s c where run: "?run = (Inl e, s, c)" by (metis prod.collapse)
  have "distinct (configured_devices demo_config)" by (simp add: configured_devices_def demo_config_def)
  moreover have "bytes_for_seq_len demo_config (slot_size_tokens demo_pool_config) * num_slots demo_pool_config div 2 \<noteq> 0"
    by (simp add: pooled_eval)
  ultimately show ?thesis
    using pooled_initialize_all_or_nothing [OF bump_cuda_heap _ _ run] run by (simp add: bump_init_def)
qed

text \<open>
  C21. Freeing a tensor-parallel handle of the pooled allocator releases the blocks of its first device
  only: the blocks of every other device stay allocated, the bookkeeping entry is gone, and the handle
  still counts as valid.
\<close>

theorem pooled_tp_free_leaks:
  assumes "cuda_heap C live" and "ds \<noteq> []"
    and "bytes_for_seq_len_per_device (pa_config s) len div 2 \<noteq> 0"
    and "pa_allocate_tensor_parallel C len ds s c = (Inr h, s1, c1)"
    and "pa_free C h s1 c1 = (h', s2, c2)"
  shows "is_valid h' \<and> allocation_slots s2 (allocation_id h) = None \<and>
    length (device_caches h) = length ds \<and>
    live c2 = live c \<union> set (cache_blocks (tl (device_caches h)))"
proof -
  let ?b = "bytes_for_seq_len_per_device (pa_config s) len"
  from assms(2,4) obtain caches where tp: "fallback_tp C ?b ds [] c = (Inr caches, c1)"
    and h: "h = \<lparr>k_cache = pd_k_cache (hd caches), v_cache = pd_v_cache (hd caches), max_seq_len = len,
          current_len = 0, h_device_id = hd ds, allocation_id = pa_next_id s, device_caches = caches,
          is_tensor_parallel = True\<rparr>"
    and al: "allocation_slots s1 (pa_next_id s) = Some (hd ds, 0, True)"
    by (auto simp: pa_allocate_tensor_parallel_def allocate_tensor_parallel_fallback_def Let_def
        split: prod.splits sum.splits)
  from fallback_tp_ok [OF assms(1,3) tp] have tpr: "tp_result live ?b ds caches c c1" by simp
  then obtain x xs where caches: "caches = x # xs" using assms(2) by (cases caches) (auto simp: tp_result_def)
  have "is_valid h" using tpr by (intro is_valid_tp) (auto simp: h caches tp_result_def)
  note F = pa_free_tp [OF this _ _ assms(5), of "hd ds" 0]
  have "live c2 = live c1 - {pd_k_cache x, pd_v_cache x}"
    using F(2) al live_release_kv [OF assms(1)] by (simp add: h caches)
  with F al tpr show ?thesis by (auto simp: h caches tp_result_def)
qed

theorem pooled_tp_free_leaks_witness:
  "\<exists>h s1 c1 h' s2 c2. pa_allocate_tensor_parallel bump_cuda 10 [0, 1] (fst demo_pooled) (snd demo_pooled) = (Inr h, s1, c1) \<and>
     pa_free bump_cuda h s1 c1 = (h', s2, c2) \<and> is_valid h' \<and>
     bump_blocks c2 = bump_blocks (snd demo_pooled) \<union> set (cache_blocks (tl (device_caches h))) \<and>
     length (device_caches h) = 2"
proof -
  let ?run = "pa_allocate_tensor_parallel bump_cuda 10 [0, 1] (fst demo_pooled) (snd demo_pooled)"
  have "\<exists>h. fst ?run = Inr h"
    and b: "bytes_for_seq_len_per_device (pa_config (fst demo_pooled)) 10 div 2 \<noteq> 0"
    by (simp_all add: pa_allocate_tensor_parallel_def allocate_tensor_parallel_fallback_def
        bytes_for_seq_len_per_device_def bytes_per_token_per_device_def pooled_eval)
  then obtain h s1 c1 where run: "?run = (Inr h, s1, c1)" by (metis prod.collapse)
  obtain h' s2 c2 where free: "pa_free bump_cuda h s1 c1 = (h', s2, c2)" by (metis prod_cases3)
  show ?thesis using pooled_tp_free_leaks [OF bump_cuda_heap _ b run free] run free by auto
qed

end
