(* ===== verification/Memory_Budget.thy ===== *)
theory Memory_Budget
  imports Kv_Types
begin

text \<open>
  \<open>MemoryBudget\<close> of \<^verbatim>\<open>src/kvcache/memory_budget.cpp\<close>, the admission calculator. A division by a GPU
  count of zero has no result (\<^const>\<open>None\<close>).
\<close>

record budget_config =
  total_gpu_memory :: size_t
  model_weights_bytes :: size_t
  workspace_bytes :: size_t
  safety_margin_bytes :: size_t
  tensor_parallel :: bool
  num_gpus :: int32

definition default_budget_config :: budget_config where
  "default_budget_config = \<lparr>total_gpu_memory = 48 * 1024 * 1024 * 1024,
     model_weights_bytes = 32 * 1024 * 1024 * 1024, workspace_bytes = 2 * 1024 * 1024 * 1024,
     safety_margin_bytes = 1 * 1024 * 1024 * 1024, tensor_parallel = True, num_gpus = 2\<rparr>"

record memory_budget =
  mb_config :: budget_config
  kv_budget_per_gpu :: size_t
  kv_budget_total :: size_t

text \<open>With tensor parallelism a quantity is split over the GPUs.\<close>

definition per_gpu :: "budget_config \<Rightarrow> size_t \<Rightarrow> size_t option" where
  "per_gpu cfg n = (if tensor_parallel cfg then size_div n (to_size (num_gpus cfg)) else Some n)"

definition calculate_budget :: "budget_config \<Rightarrow> memory_budget option" where
  "calculate_budget cfg =
     (case per_gpu cfg (model_weights_bytes cfg) of
        None \<Rightarrow> None
      | Some per_gpu_weights \<Rightarrow>
          (let overhead = per_gpu_weights + workspace_bytes cfg + safety_margin_bytes cfg;
               budget = (if overhead \<ge> total_gpu_memory cfg then 0 else total_gpu_memory cfg - overhead)
           in Some \<lparr>mb_config = cfg, kv_budget_per_gpu = budget,
                    kv_budget_total = budget * to_size (num_gpus cfg)\<rparr>))"

definition max_concurrent_requests :: "memory_budget \<Rightarrow> size_t \<Rightarrow> size_t option" where
  "max_concurrent_requests b context_length =
     (case per_gpu (mb_config b) (context_length * BYTES_PER_TOKEN) of
        None \<Rightarrow> None
      | Some bytes_per_request \<Rightarrow>
          if bytes_per_request = 0 then Some 0 else Some (kv_budget_per_gpu b div bytes_per_request))"

definition can_admit :: "memory_budget \<Rightarrow> size_t \<Rightarrow> size_t \<Rightarrow> bool option" where
  "can_admit b context_length current_used_bytes =
     (case per_gpu (mb_config b) (context_length * BYTES_PER_TOKEN) of
        None \<Rightarrow> None
      | Some bytes_needed \<Rightarrow> Some (current_used_bytes + bytes_needed \<le> kv_budget_per_gpu b))"

text \<open>The figures that \<open>print_memory_analysis\<close> logs as concurrency limits.\<close>

definition concurrency_limits :: "size_t option list" where
  "concurrency_limits = (case calculate_budget default_budget_config of
     None \<Rightarrow> []
   | Some b \<Rightarrow> map (max_concurrent_requests b) [70000, 50000, 20000, 10000])"

section \<open>Properties\<close>

text \<open>
  Admission agrees with the capacity figure: when requests of one context length are admitted one
  after another, exactly the first \<open>max_concurrent_requests\<close> of them pass \<open>can_admit\<close>, provided the
  budget and one more request do not exceed the 64-bit range.
\<close>

theorem admission_matches_capacity:
  assumes "max_concurrent_requests b len = Some n"
    and "per_gpu (mb_config b) (len * BYTES_PER_TOKEN) = Some bytes" and "bytes \<noteq> 0"
    and "unat (kv_budget_per_gpu b) + unat bytes < 2 ^ 64" and "k \<le> unat n"
  shows "can_admit b len (of_nat k * bytes) = Some (k < unat n)"
proof -
  let ?B = "unat (kv_budget_per_gpu b)" and ?x = "unat bytes"
  have pos: "?x > 0" using assms(3) by (simp add: unat_gt_0)
  have n: "unat n = ?B div ?x"
    using assms(1-3) by (auto simp: max_concurrent_requests_def unat_div split: if_splits)
  have k: "unat (of_nat k :: size_t) = k" using assms(5) by (rule unat_of_nat_size)
  have "k * ?x \<le> ?B div ?x * ?x" using assms(5) n by simp
  then have kx: "k * ?x \<le> ?B" using div_times_less_eq_dividend le_trans by blast
  then have "unat (of_nat k * bytes) = k * ?x"
    using assms(4) k by (simp add: unat_mult_nowrap)
  then have "unat (of_nat k * bytes + bytes) = k * ?x + ?x"
    using assms(4) kx by (simp add: unat_plus_nowrap)
  then have "of_nat k * bytes + bytes \<le> kv_budget_per_gpu b \<longleftrightarrow> Suc k * ?x \<le> ?B"
    by (simp add: word_le_nat_alt add.commute)
  also have "\<dots> \<longleftrightarrow> Suc k \<le> ?B div ?x" using pos by (simp add: less_eq_div_iff_mult_less_eq)
  finally show ?thesis using assms(2) n by (simp add: can_admit_def Suc_le_eq)
qed

theorem admission_matches_capacity_witness:
  "\<exists>b. calculate_budget default_budget_config = Some b \<and>
     can_admit b 70000 (of_nat 2 * 9175040000) = Some True \<and>
     can_admit b 70000 (of_nat 3 * 9175040000) = Some False"
proof -
  obtain b where b: "calculate_budget default_budget_config = Some b"
    and m: "max_concurrent_requests b 70000 = Some 3"
    and p: "per_gpu (mb_config b) (70000 * BYTES_PER_TOKEN) = Some 9175040000"
    and s: "unat (kv_budget_per_gpu b) + unat (9175040000 :: size_t) < 2 ^ 64"
    by (simp add: calculate_budget_def default_budget_config_def per_gpu_def size_div_def Let_def
        max_concurrent_requests_def)
  show ?thesis
    using b admission_matches_capacity [OF m p _ s, of 2] admission_matches_capacity [OF m p _ s, of 3] by simp
qed

text \<open>
  The capacity figures for Qwen2.5-32B on two L40S cards: a token takes 256 KiB; 70k tokens take
  18,350,080,000 bytes; the planning formula of the header with its 14 GiB budget gives 1 request at
  70k and 11 at 10k, the budget calculator gives 3, 4, 11 and 23 at 70k, 50k, 20k and 10k.
\<close>

theorem capacity_figures:
  "BYTES_PER_TOKEN = 256 * 1024 \<and> BYTES_FOR_70K = 18350080000 \<and>
   max_concurrent_requests_tp 70000 L40S_KV_BUDGET_PER_GPU = 1 \<and>
   max_concurrent_requests_tp 10000 L40S_KV_BUDGET_PER_GPU = 11 \<and>
   concurrency_limits = [Some 3, Some 4, Some 11, Some 23]"
  by (simp add: BYTES_FOR_70K_def max_concurrent_requests_tp_def L40S_KV_BUDGET_PER_GPU_def
      concurrency_limits_def calculate_budget_def default_budget_config_def per_gpu_def size_div_def Let_def
      max_concurrent_requests_def)

end
