(* ===== verification/Json_Interface.thy ===== *)
theory Json_Interface
  imports Result_Type
begin

text \<open>
  The part of the nlohmann JSON library that \<^verbatim>\<open>src/api/types.cpp\<close> calls. The library is not part of the
  repository: a JSON value is a value of the type variable \<open>'j\<close> and the calls are the fields of the
  record \<open>json_api\<close>, an argument of the definitions that make them. A call that throws returns the
  exception text in \<^const>\<open>Inl\<close>. \<open>json_laws\<close> states the documented behaviour that the round trips rely on.
\<close>

section \<open>The library as a parameter\<close>

type_synonym 'a json_result = "string + 'a"

record 'j json_api =
  j_null :: 'j
  j_bool :: "bool \<Rightarrow> 'j"
  j_int :: "int \<Rightarrow> 'j"
  j_double :: "real \<Rightarrow> 'j"
  j_string :: "string \<Rightarrow> 'j"
  j_array :: "'j list \<Rightarrow> 'j"
  j_object :: "(string \<times> 'j) list \<Rightarrow> 'j"
  j_set :: "string \<Rightarrow> 'j \<Rightarrow> 'j \<Rightarrow> 'j"
  j_contains :: "'j \<Rightarrow> string \<Rightarrow> bool"
  j_at :: "'j \<Rightarrow> string \<Rightarrow> 'j json_result"
  j_is_string :: "'j \<Rightarrow> bool"
  j_is_array :: "'j \<Rightarrow> bool"
  j_items :: "'j \<Rightarrow> 'j list"
  j_get_string :: "'j \<Rightarrow> string json_result"
  j_get_double :: "'j \<Rightarrow> real json_result"
  j_get_int32 :: "'j \<Rightarrow> int32 json_result"
  j_get_int64 :: "'j \<Rightarrow> int64 json_result"
  j_get_strings :: "'j \<Rightarrow> string list json_result"
  j_value_string :: "'j \<Rightarrow> string \<Rightarrow> string \<Rightarrow> string json_result"
  j_value_bool :: "'j \<Rightarrow> string \<Rightarrow> bool \<Rightarrow> bool json_result"

text \<open>
  Reading back what was stored, over a ghost function \<open>mem\<close> that gives the members of an object: an
  object built from pairs with distinct keys has exactly these members, \<open>operator[]\<close> sets one member
  and keeps the others, \<open>at\<close> and \<open>value\<close> find a member, \<open>get\<close> returns the stored scalar, a range loop
  visits the elements of an array in order.
\<close>

definition json_laws :: "'j json_api \<Rightarrow> ('j \<Rightarrow> (string \<rightharpoonup> 'j) option) \<Rightarrow> bool" where
  "json_laws J mem \<longleftrightarrow>
     (\<forall>ps. distinct (map fst ps) \<longrightarrow> mem (j_object J ps) = Some (map_of ps)) \<and>
     (\<forall>j m k v. mem j = Some m \<longrightarrow> mem (j_set J k v j) = Some (m(k \<mapsto> v))) \<and>
     (\<forall>j m k. mem j = Some m \<longrightarrow> j_contains J j k = (m k \<noteq> None)) \<and>
     (\<forall>j m k v. mem j = Some m \<longrightarrow> m k = Some v \<longrightarrow> j_at J j k = Inr v) \<and>
     (\<forall>j m k v d. mem j = Some m \<longrightarrow> m k = Some v \<longrightarrow> j_value_string J j k d = j_get_string J v) \<and>
     (\<forall>j m k v b. mem j = Some m \<longrightarrow> m k = Some (j_bool J b) \<longrightarrow> j_value_bool J j k v = Inr b) \<and>
     (\<forall>s. j_get_string J (j_string J s) = Inr s) \<and>
     (\<forall>x. j_get_double J (j_double J x) = Inr x) \<and>
     (\<forall>i. j_get_int32 J (j_int J (sint i)) = Inr i) \<and>
     (\<forall>i. j_get_int64 J (j_int J (sint i)) = Inr i) \<and>
     (\<forall>ss. j_get_strings J (j_array J (map (j_string J) ss)) = Inr ss) \<and>
     (\<forall>js. j_items J (j_array J js) = js \<and> j_is_array J (j_array J js) \<and> \<not> j_is_string J (j_array J js))"

lemma json_lawsD:
  assumes "json_laws J mem"
  shows "\<And>ps. distinct (map fst ps) \<Longrightarrow> mem (j_object J ps) = Some (map_of ps)"
    and "\<And>j m k v. mem j = Some m \<Longrightarrow> mem (j_set J k v j) = Some (m(k \<mapsto> v))"
    and "\<And>j m k. mem j = Some m \<Longrightarrow> j_contains J j k = (m k \<noteq> None)"
    and "\<And>j m k v. mem j = Some m \<Longrightarrow> m k = Some v \<Longrightarrow> j_at J j k = Inr v"
    and "\<And>j m k v d. mem j = Some m \<Longrightarrow> m k = Some v \<Longrightarrow> j_value_string J j k d = j_get_string J v"
    and "\<And>j m k d b. mem j = Some m \<Longrightarrow> m k = Some (j_bool J b) \<Longrightarrow> j_value_bool J j k d = Inr b"
    and "\<And>s. j_get_string J (j_string J s) = Inr s"
    and "\<And>x. j_get_double J (j_double J x) = Inr x"
    and "\<And>i. j_get_int32 J (j_int J (sint i)) = Inr i"
    and "\<And>i. j_get_int64 J (j_int J (sint i)) = Inr i"
    and "\<And>ss. j_get_strings J (j_array J (map (j_string J) ss)) = Inr ss"
    and "\<And>js. j_items J (j_array J js) = js" and "\<And>js. j_is_array J (j_array J js)"
    and "\<And>js. \<not> j_is_string J (j_array J js)"
  using assms unfolding json_laws_def by simp_all

section \<open>Sequencing calls that may throw\<close>

definition try_then :: "'a json_result \<Rightarrow> ('a \<Rightarrow> 'b json_result) \<Rightarrow> 'b json_result" where
  "try_then r f = (case r of Inl e \<Rightarrow> Inl e | Inr v \<Rightarrow> f v)"

lemma try_then_simps [simp]: "try_then (Inl e) f = Inl e" "try_then (Inr v) f = f v"
  by (simp_all add: try_then_def)

fun try_map :: "('a \<Rightarrow> 'b json_result) \<Rightarrow> 'a list \<Rightarrow> 'b list json_result" where
  "try_map f [] = Inr []"
| "try_map f (x # xs) = try_then (f x) (\<lambda>y. try_then (try_map f xs) (\<lambda>ys. Inr (y # ys)))"

lemma try_map_inverse: "(\<And>x. x \<in> set xs \<Longrightarrow> f (g x) = Inr x) \<Longrightarrow> try_map f (map g xs) = Inr xs"
  by (induction xs) auto

text \<open>\<open>j.contains(k) ? std::optional(j[k].get<T>()) : std::nullopt\<close>\<close>

definition opt_field :: "'j json_api \<Rightarrow> ('j \<Rightarrow> 'a json_result) \<Rightarrow> 'j \<Rightarrow> string \<Rightarrow> 'a option json_result" where
  "opt_field J get j k =
     (if j_contains J j k then try_then (j_at J j k) (\<lambda>v. try_then (get v) (\<lambda>x. Inr (Some x))) else Inr None)"

text \<open>\<open>if (x) j[k] = *x;\<close>\<close>

definition set_opt :: "'j json_api \<Rightarrow> string \<Rightarrow> 'j option \<Rightarrow> 'j \<Rightarrow> 'j" where
  "set_opt J k x j = (case x of None \<Rightarrow> j | Some v \<Rightarrow> j_set J k v j)"

definition upd_opt :: "string \<Rightarrow> 'j option \<Rightarrow> (string \<rightharpoonup> 'j) \<Rightarrow> string \<rightharpoonup> 'j" where
  "upd_opt k x m = (case x of None \<Rightarrow> m | Some v \<Rightarrow> m(k \<mapsto> v))"

lemma upd_opt_apply [simp]: "upd_opt k x m k' = (if k' = k \<and> x \<noteq> None then x else m k')"
  by (auto simp: upd_opt_def split: option.splits)

lemma mem_set_opt:
  assumes "json_laws J mem" and "mem j = Some m"
  shows "mem (set_opt J k x j) = Some (upd_opt k x m)"
  using assms json_lawsD(2) by (auto simp: set_opt_def upd_opt_def split: option.splits)

lemma opt_field_mem:
  assumes "json_laws J mem" and "mem j = Some m"
  shows "opt_field J get j k = (case m k of None \<Rightarrow> Inr None | Some v \<Rightarrow> try_then (get v) (\<lambda>x. Inr (Some x)))"
  using json_lawsD(3,4) [OF assms(1) assms(2)] by (auto simp: opt_field_def split: option.splits)

text \<open>An optional field that was written with \<open>set_opt\<close> is read back.\<close>

lemma opt_field_back:
  assumes "json_laws J mem" and "mem j = Some m" and "m k = map_option f x" and "\<And>v. get (f v) = Inr v"
  shows "opt_field J get j k = Inr x"
  using opt_field_mem [OF assms(1,2), of get k] assms(3,4) by (cases x) simp_all

section \<open>A reference library\<close>

text \<open>JSON values as a datatype: the instance at which theorems with a \<^const>\<open>json_laws\<close> hypothesis are applied.\<close>

datatype json = JNull | JBool bool | JInt int | JDouble real | JString string
  | JArray "json list" | JObject "(string \<times> json) list"

definition json_members :: "json \<Rightarrow> (string \<rightharpoonup> json) option" where
  "json_members j = (case j of JObject ps \<Rightarrow> Some (map_of ps) | _ \<Rightarrow> None)"

definition json_at :: "json \<Rightarrow> string \<Rightarrow> json json_result" where
  "json_at j k = (case json_members j of
     None \<Rightarrow> Inl ''cannot use at() with this type''
   | Some m \<Rightarrow> (case m k of None \<Rightarrow> Inl (''key '' @ k @ '' not found'') | Some v \<Rightarrow> Inr v))"

definition json_string_of :: "json \<Rightarrow> string json_result" where
  "json_string_of j = (case j of JString s \<Rightarrow> Inr s | _ \<Rightarrow> Inl ''type must be string'')"

definition json_value :: "(json \<Rightarrow> 'a json_result) \<Rightarrow> json \<Rightarrow> string \<Rightarrow> 'a \<Rightarrow> 'a json_result" where
  "json_value get j k d = (case json_members j of
     None \<Rightarrow> Inl ''cannot use value() with this type''
   | Some m \<Rightarrow> (case m k of None \<Rightarrow> Inr d | Some v \<Rightarrow> get v))"

definition json_bool_of :: "json \<Rightarrow> bool json_result" where
  "json_bool_of j = (case j of JBool b \<Rightarrow> Inr b | _ \<Rightarrow> Inl ''type must be boolean'')"

definition json_int_of :: "json \<Rightarrow> 'a::len word json_result" where
  "json_int_of j = (case j of JInt i \<Rightarrow> Inr (word_of_int i) | _ \<Rightarrow> Inl ''type must be number'')"

definition json_ref :: "json json_api" where
  "json_ref = \<lparr>j_null = JNull, j_bool = JBool, j_int = JInt, j_double = JDouble, j_string = JString,
     j_array = JArray, j_object = JObject,
     j_set = (\<lambda>k v j. case j of JObject ps \<Rightarrow> JObject (AList.update k v ps) | JNull \<Rightarrow> JObject [(k, v)] | _ \<Rightarrow> j),
     j_contains = (\<lambda>j k. case json_members j of None \<Rightarrow> False | Some m \<Rightarrow> m k \<noteq> None),
     j_at = json_at,
     j_is_string = (\<lambda>j. case j of JString s \<Rightarrow> True | _ \<Rightarrow> False),
     j_is_array = (\<lambda>j. case j of JArray s \<Rightarrow> True | _ \<Rightarrow> False),
     j_items = (\<lambda>j. case j of JArray js \<Rightarrow> js | JObject ps \<Rightarrow> map snd ps | JNull \<Rightarrow> [] | _ \<Rightarrow> [j]),
     j_get_string = json_string_of,
     j_get_double = (\<lambda>j. case j of JDouble x \<Rightarrow> Inr x | JInt i \<Rightarrow> Inr (of_int i) | _ \<Rightarrow> Inl ''type must be number''),
     j_get_int32 = json_int_of, j_get_int64 = json_int_of,
     j_get_strings = (\<lambda>j. case j of JArray js \<Rightarrow> try_map json_string_of js | _ \<Rightarrow> Inl ''type must be array''),
     j_value_string = json_value json_string_of,
     j_value_bool = json_value json_bool_of\<rparr>"

lemma json_ref_laws: "json_laws json_ref json_members"
proof -
  have "try_map json_string_of (map JString ss) = Inr ss" for ss
    by (rule try_map_inverse) (simp add: json_string_of_def)
  then show ?thesis
    by (auto simp: json_laws_def json_ref_def json_members_def json_at_def json_value_def json_string_of_def
        json_bool_of_def json_int_of_def split: json.splits option.splits)
qed

end
