(* ===== verification/Api_Types.thy ===== *)
theory Api_Types
  imports Json_Interface
begin

text \<open>
  \<^verbatim>\<open>include/api/types.hpp\<close> and \<^verbatim>\<open>src/api/types.cpp\<close>: the OpenAI-style request and response types and
  their JSON conversions. The JSON library is the parameter \<open>J\<close>; a conversion that throws returns
  \<^const>\<open>Inl\<close>.
\<close>

section \<open>Types\<close>

datatype role = System | User | Assistant | Tool_role

definition role_to_string :: "role \<Rightarrow> string" where
  "role_to_string r = (case r of System \<Rightarrow> ''system'' | User \<Rightarrow> ''user'' | Assistant \<Rightarrow> ''assistant''
     | Tool_role \<Rightarrow> ''tool'')"

definition string_to_role :: "string \<Rightarrow> role" where
  "string_to_role s = (if s = ''system'' then System else if s = ''assistant'' then Assistant
     else if s = ''tool'' then Tool_role else User)"

record 'j chat_message =
  msg_role :: role
  content :: string
  msg_name :: "string option"
  tool_calls :: "'j option"
  tool_call_id :: "string option"

record 'j tool =
  tool_type :: string
  tool_function :: 'j

record 'j chat_completion_request =
  req_model :: string
  messages :: "'j chat_message list"
  req_temperature :: "real option"
  req_top_p :: "real option"
  req_max_tokens :: "int32 option"
  req_stop :: "string list option"
  stream :: bool
  req_seed :: "int64 option"
  tools :: "'j tool list option"
  presence_penalty :: "real option"
  frequency_penalty :: "real option"
  user :: "string option"

datatype finish_reason = Stop | Length | ToolCalls | ContentFilter | NoReason

definition finish_reason_to_string :: "finish_reason \<Rightarrow> string" where
  "finish_reason_to_string r = (case r of Stop \<Rightarrow> ''stop'' | Length \<Rightarrow> ''length'' | ToolCalls \<Rightarrow> ''tool_calls''
     | ContentFilter \<Rightarrow> ''content_filter'' | NoReason \<Rightarrow> '''')"

record usage =
  prompt_tokens :: int32
  completion_tokens :: int32
  total_tokens :: int32

record 'j choice =
  choice_index :: int32
  choice_message :: "'j chat_message"
  choice_finish :: finish_reason

record 'j chat_completion_response =
  resp_id :: string
  resp_object :: string
  resp_created :: int64
  resp_model :: string
  choices :: "'j choice list"
  resp_usage :: usage

record 'j delta =
  delta_role :: "role option"
  delta_content :: "string option"
  delta_tool_calls :: "'j option"

record 'j stream_choice =
  sc_index :: int32
  sc_delta :: "'j delta"
  sc_finish :: "finish_reason option"

record 'j chat_completion_chunk =
  chunk_id :: string
  chunk_object :: string
  chunk_created :: int64
  chunk_model :: string
  chunk_choices :: "'j stream_choice list"

record error_response =
  err_type :: string
  err_code :: string
  err_message :: string
  err_param :: "string option"

record model_info =
  model_id :: string
  model_object :: string
  model_created :: int64
  owned_by :: string

section \<open>JSON conversions\<close>

definition message_to_json :: "'j json_api \<Rightarrow> 'j chat_message \<Rightarrow> 'j" where
  "message_to_json J m =
     set_opt J ''tool_call_id'' (map_option (j_string J) (tool_call_id m))
      (set_opt J ''tool_calls'' (tool_calls m)
       (set_opt J ''name'' (map_option (j_string J) (msg_name m))
        (j_object J [(''role'', j_string J (role_to_string (msg_role m))), (''content'', j_string J (content m))])))"

definition message_from_json :: "'j json_api \<Rightarrow> 'j \<Rightarrow> 'j chat_message json_result" where
  "message_from_json J j =
     try_then (j_at J j ''role'') (\<lambda>rj. try_then (j_get_string J rj) (\<lambda>r.
     try_then (j_value_string J j ''content'' '''') (\<lambda>c.
     try_then (opt_field J (j_get_string J) j ''name'') (\<lambda>n.
     try_then (opt_field J Inr j ''tool_calls'') (\<lambda>tc.
     try_then (opt_field J (j_get_string J) j ''tool_call_id'') (\<lambda>tid.
     Inr \<lparr>msg_role = string_to_role r, content = c, msg_name = n, tool_calls = tc, tool_call_id = tid\<rparr>))))))"

definition tool_from_json :: "'j json_api \<Rightarrow> 'j \<Rightarrow> 'j tool json_result" where
  "tool_from_json J j =
     try_then (j_at J j ''type'') (\<lambda>tj. try_then (j_get_string J tj) (\<lambda>t.
     try_then (j_at J j ''function'') (\<lambda>f. Inr \<lparr>tool_type = t, tool_function = f\<rparr>)))"

definition request_to_json :: "'j json_api \<Rightarrow> 'j chat_completion_request \<Rightarrow> 'j" where
  "request_to_json J r =
     set_opt J ''seed'' (map_option (\<lambda>s. j_int J (sint s)) (req_seed r))
      (set_opt J ''stop'' (map_option (\<lambda>ss. j_array J (map (j_string J) ss)) (req_stop r))
       (set_opt J ''max_tokens'' (map_option (\<lambda>n. j_int J (sint n)) (req_max_tokens r))
        (set_opt J ''top_p'' (map_option (j_double J) (req_top_p r))
         (set_opt J ''temperature'' (map_option (j_double J) (req_temperature r))
          (j_set J ''messages'' (j_array J (map (message_to_json J) (messages r)))
           (j_object J [(''model'', j_string J (req_model r)), (''messages'', j_array J []),
              (''stream'', j_bool J (stream r))]))))))"

definition stop_from_json :: "'j json_api \<Rightarrow> 'j \<Rightarrow> string list option json_result" where
  "stop_from_json J j =
     (if j_contains J j ''stop''
      then try_then (j_at J j ''stop'') (\<lambda>sj.
        if j_is_string J sj then try_then (j_get_string J sj) (\<lambda>s. Inr (Some [s]))
        else if j_is_array J sj then try_then (j_get_strings J sj) (\<lambda>ss. Inr (Some ss))
        else Inr None)
      else Inr None)"

definition tools_from_json :: "'j json_api \<Rightarrow> 'j \<Rightarrow> 'j tool list option json_result" where
  "tools_from_json J j =
     (if j_contains J j ''tools''
      then try_then (j_at J j ''tools'') (\<lambda>tj.
        try_then (try_map (tool_from_json J) (j_items J tj)) (\<lambda>ts. Inr (Some ts)))
      else Inr None)"

definition request_from_json :: "'j json_api \<Rightarrow> 'j \<Rightarrow> 'j chat_completion_request json_result" where
  "request_from_json J j =
     try_then (j_at J j ''model'') (\<lambda>mj. try_then (j_get_string J mj) (\<lambda>md.
     try_then (j_at J j ''messages'') (\<lambda>msj. try_then (try_map (message_from_json J) (j_items J msj)) (\<lambda>ms.
     try_then (opt_field J (j_get_double J) j ''temperature'') (\<lambda>temp.
     try_then (opt_field J (j_get_double J) j ''top_p'') (\<lambda>p.
     try_then (opt_field J (j_get_int32 J) j ''max_tokens'') (\<lambda>mt.
     try_then (stop_from_json J j) (\<lambda>st.
     try_then (j_value_bool J j ''stream'' False) (\<lambda>str.
     try_then (opt_field J (j_get_int64 J) j ''seed'') (\<lambda>sd.
     try_then (tools_from_json J j) (\<lambda>ts.
     try_then (opt_field J (j_get_double J) j ''presence_penalty'') (\<lambda>pp.
     try_then (opt_field J (j_get_double J) j ''frequency_penalty'') (\<lambda>fp.
     try_then (opt_field J (j_get_string J) j ''user'') (\<lambda>u.
     Inr \<lparr>req_model = md, messages = ms, req_temperature = temp, req_top_p = p, req_max_tokens = mt,
          req_stop = st, stream = str, req_seed = sd, tools = ts, presence_penalty = pp,
          frequency_penalty = fp, user = u\<rparr>))))))))))))))"

definition usage_to_json :: "'j json_api \<Rightarrow> usage \<Rightarrow> 'j" where
  "usage_to_json J u = j_object J [(''prompt_tokens'', j_int J (sint (prompt_tokens u))),
     (''completion_tokens'', j_int J (sint (completion_tokens u))), (''total_tokens'', j_int J (sint (total_tokens u)))]"

definition choice_to_json :: "'j json_api \<Rightarrow> 'j choice \<Rightarrow> 'j" where
  "choice_to_json J c =
     j_set J ''finish_reason''
       (if choice_finish c \<noteq> NoReason then j_string J (finish_reason_to_string (choice_finish c)) else j_null J)
      (j_set J ''message'' (message_to_json J (choice_message c))
       (j_object J [(''index'', j_int J (sint (choice_index c))), (''message'', j_null J)]))"

definition response_to_json :: "'j json_api \<Rightarrow> 'j chat_completion_response \<Rightarrow> 'j" where
  "response_to_json J r =
     j_set J ''usage'' (usage_to_json J (resp_usage r))
      (j_set J ''choices'' (j_array J (map (choice_to_json J) (choices r)))
       (j_object J [(''id'', j_string J (resp_id r)), (''object'', j_string J (resp_object r)),
          (''created'', j_int J (sint (resp_created r))), (''model'', j_string J (resp_model r)),
          (''choices'', j_array J [])]))"

definition delta_to_json :: "'j json_api \<Rightarrow> 'j delta \<Rightarrow> 'j" where
  "delta_to_json J d =
     set_opt J ''tool_calls'' (delta_tool_calls d)
      (set_opt J ''content'' (map_option (j_string J) (delta_content d))
       (set_opt J ''role'' (map_option (\<lambda>r. j_string J (role_to_string r)) (delta_role d)) (j_object J [])))"

definition stream_choice_to_json :: "'j json_api \<Rightarrow> 'j stream_choice \<Rightarrow> 'j" where
  "stream_choice_to_json J c =
     j_set J ''finish_reason''
       (case sc_finish c of Some r \<Rightarrow> j_string J (finish_reason_to_string r) | None \<Rightarrow> j_null J)
      (j_set J ''delta'' (delta_to_json J (sc_delta c)) (j_object J [(''index'', j_int J (sint (sc_index c)))]))"

definition chunk_to_json :: "'j json_api \<Rightarrow> 'j chat_completion_chunk \<Rightarrow> 'j" where
  "chunk_to_json J c =
     j_set J ''choices'' (j_array J (map (stream_choice_to_json J) (chunk_choices c)))
      (j_object J [(''id'', j_string J (chunk_id c)), (''object'', j_string J (chunk_object c)),
         (''created'', j_int J (sint (chunk_created c))), (''model'', j_string J (chunk_model c)),
         (''choices'', j_array J [])])"

definition error_response_to_json :: "'j json_api \<Rightarrow> error_response \<Rightarrow> 'j" where
  "error_response_to_json J e =
     j_object J [(''error'', set_opt J ''param'' (map_option (j_string J) (err_param e))
       (j_object J [(''type'', j_string J (err_type e)), (''code'', j_string J (err_code e)),
          (''message'', j_string J (err_message e))]))]"

definition model_info_to_json :: "'j json_api \<Rightarrow> model_info \<Rightarrow> 'j" where
  "model_info_to_json J m = j_object J [(''id'', j_string J (model_id m)), (''object'', j_string J (model_object m)),
     (''created'', j_int J (sint (model_created m))), (''owned_by'', j_string J (owned_by m))]"

section \<open>Round trips\<close>

lemma string_to_role_inverse [simp]: "string_to_role (role_to_string r) = r"
  by (cases r) (simp_all add: role_to_string_def string_to_role_def)

lemma mem_message_to_json:
  assumes "json_laws J mem"
  shows "mem (message_to_json J m) =
    Some (upd_opt ''tool_call_id'' (map_option (j_string J) (tool_call_id m))
      (upd_opt ''tool_calls'' (tool_calls m)
       (upd_opt ''name'' (map_option (j_string J) (msg_name m))
        [''role'' \<mapsto> j_string J (role_to_string (msg_role m)), ''content'' \<mapsto> j_string J (content m)])))"
  unfolding message_to_json_def
  by (intro mem_set_opt [OF assms], subst json_lawsD(1) [OF assms]) auto

lemma message_from_to_json:
  assumes "json_laws J mem"
  shows "message_from_json J (message_to_json J m) = Inr m"
proof -
  note M = mem_message_to_json [OF assms, of m]
  have "j_at J (message_to_json J m) ''role'' = Inr (j_string J (role_to_string (msg_role m)))"
    by (rule json_lawsD(4) [OF assms M]) simp
  moreover have "j_value_string J (message_to_json J m) ''content'' '''' = j_get_string J (j_string J (content m))"
    by (rule json_lawsD(5) [OF assms M]) simp
  moreover have "opt_field J (j_get_string J) (message_to_json J m) ''name'' = Inr (msg_name m)"
    by (rule opt_field_back [OF assms M, where f = "j_string J"]) (simp_all add: json_lawsD(7) [OF assms])
  moreover have "opt_field J Inr (message_to_json J m) ''tool_calls'' = Inr (tool_calls m)"
    by (rule opt_field_back [OF assms M, where f = id]) (simp_all add: option.map_id0)
  moreover have "opt_field J (j_get_string J) (message_to_json J m) ''tool_call_id'' = Inr (tool_call_id m)"
    by (rule opt_field_back [OF assms M, where f = "j_string J"]) (simp_all add: json_lawsD(7) [OF assms])
  ultimately show ?thesis by (simp add: message_from_json_def json_lawsD(7) [OF assms])
qed

lemma mem_request_to_json:
  assumes "json_laws J mem"
  shows "mem (request_to_json J r) =
    Some (upd_opt ''seed'' (map_option (\<lambda>s. j_int J (sint s)) (req_seed r))
      (upd_opt ''stop'' (map_option (\<lambda>ss. j_array J (map (j_string J) ss)) (req_stop r))
       (upd_opt ''max_tokens'' (map_option (\<lambda>n. j_int J (sint n)) (req_max_tokens r))
        (upd_opt ''top_p'' (map_option (j_double J) (req_top_p r))
         (upd_opt ''temperature'' (map_option (j_double J) (req_temperature r))
          [''model'' \<mapsto> j_string J (req_model r), ''stream'' \<mapsto> j_bool J (stream r),
           ''messages'' \<mapsto> j_array J (map (message_to_json J) (messages r))])))))"
proof -
  have "mem (j_object J [(''model'', j_string J (req_model r)), (''messages'', j_array J []), (''stream'', j_bool J (stream r))])
      = Some [''model'' \<mapsto> j_string J (req_model r), ''messages'' \<mapsto> j_array J [], ''stream'' \<mapsto> j_bool J (stream r)]"
    by (subst json_lawsD(1) [OF assms]) auto
  from json_lawsD(2) [OF assms this, of "''messages''"] show ?thesis
    unfolding request_to_json_def
    by (intro mem_set_opt [OF assms]) (auto simp: fun_upd_twist)
qed

section \<open>Properties\<close>

text \<open>
  C29. Reading back a serialised request gives the request, for every setting of the optional fields
  that the serialiser writes: model, messages with names and tool calls, temperature, top_p,
  max_tokens, stop, stream and seed. Tools, the two penalties and the user are not written, so they
  come back unset.
\<close>

theorem request_json_roundtrip:
  assumes "json_laws J mem"
  shows "request_from_json J (request_to_json J r) =
    Inr (r\<lparr>tools := None, presence_penalty := None, frequency_penalty := None, user := None\<rparr>)"
proof -
  let ?j = "request_to_json J r"
  note M = mem_request_to_json [OF assms, of r]
  note at = json_lawsD(4) [OF assms M] and contains = json_lawsD(3) [OF assms M]
    and opt = opt_field_back [OF assms M] and get = json_lawsD(7-14) [OF assms]
  have "j_at J ?j ''model'' = Inr (j_string J (req_model r))"
    and "j_at J ?j ''messages'' = Inr (j_array J (map (message_to_json J) (messages r)))"
    by (rule at, simp)+
  moreover have "j_value_bool J ?j ''stream'' False = Inr (stream r)"
    by (rule json_lawsD(6) [OF assms M]) simp
  moreover have "try_map (message_from_json J) (map (message_to_json J) (messages r)) = Inr (messages r)"
    by (rule try_map_inverse) (rule message_from_to_json [OF assms])
  moreover have "stop_from_json J ?j = Inr (req_stop r)"
    using at [of "''stop''"] contains [of "''stop''"] get
    by (cases "req_stop r") (simp_all add: stop_from_json_def)
  moreover have "tools_from_json J ?j = Inr None"
    using contains [of "''tools''"] by (simp add: tools_from_json_def)
  moreover have "opt_field J (j_get_double J) ?j ''temperature'' = Inr (req_temperature r)"
    by (rule opt [where f = "j_double J"]) (simp_all add: get)
  moreover have "opt_field J (j_get_double J) ?j ''top_p'' = Inr (req_top_p r)"
    by (rule opt [where f = "j_double J"]) (simp_all add: get)
  moreover have "opt_field J (j_get_int32 J) ?j ''max_tokens'' = Inr (req_max_tokens r)"
    by (rule opt [where f = "\<lambda>n. j_int J (sint n)"]) (simp_all add: get)
  moreover have "opt_field J (j_get_int64 J) ?j ''seed'' = Inr (req_seed r)"
    by (rule opt [where f = "\<lambda>s. j_int J (sint s)"]) (simp_all add: get)
  moreover have "opt_field J (j_get_double J) ?j ''presence_penalty'' = Inr None"
    by (rule opt [where f = "j_double J"]) (simp_all add: get)
  moreover have "opt_field J (j_get_double J) ?j ''frequency_penalty'' = Inr None"
    by (rule opt [where f = "j_double J"]) (simp_all add: get)
  moreover have "opt_field J (j_get_string J) ?j ''user'' = Inr None"
    by (rule opt [where f = "j_string J"]) (simp_all add: get)
  ultimately show ?thesis
    by (simp add: request_from_json_def get)
qed

definition demo_api_request :: "json chat_completion_request" where
  "demo_api_request = \<lparr>req_model = ''qwen2.5-32b-instruct'',
     messages = [\<lparr>msg_role = User, content = ''hi'', msg_name = None, tool_calls = None, tool_call_id = None\<rparr>],
     req_temperature = Some (1/2), req_top_p = None, req_max_tokens = Some 16, req_stop = Some [''END''],
     stream = True, req_seed = Some 7, tools = None, presence_penalty = None, frequency_penalty = Some 1,
     user = None\<rparr>"

theorem request_json_roundtrip_witness:
  "request_from_json json_ref (request_to_json json_ref demo_api_request) =
     Inr (demo_api_request\<lparr>frequency_penalty := None\<rparr>)"
  using request_json_roundtrip [OF json_ref_laws, of demo_api_request] by (simp add: demo_api_request_def)

end
