(* ===== verification/Request_Validator.thy ===== *)
theory Request_Validator
  imports Api_Types
begin

text \<open>
  \<^verbatim>\<open>src/api/request_validator.cpp\<close>: the checks on an incoming request, in the order of the code, and the
  defaults filled in afterwards. A \<open>double\<close> is a real number.
\<close>

record validation_config =
  supported_models :: "string list"
  max_context_length :: int32
  max_completion_tokens :: int32
  default_max_tokens :: int32
  min_temperature :: real
  max_temperature :: real
  default_temperature :: real
  min_top_p :: real
  max_top_p :: real
  default_top_p :: real
  max_stop_sequences :: size_t
  max_stop_sequence_length :: size_t

definition default_validation_config :: validation_config where
  "default_validation_config = \<lparr>supported_models = [''qwen2.5-32b-instruct''], max_context_length = 70000,
     max_completion_tokens = 8192, default_max_tokens = 2048, min_temperature = 0, max_temperature = 2,
     default_temperature = 1, min_top_p = 0, max_top_p = 1, default_top_p = 1, max_stop_sequences = 4,
     max_stop_sequence_length = 64\<rparr>"

text \<open>\<open>::tolower\<close> in the C locale.\<close>

definition tolower :: "char \<Rightarrow> char" where
  "tolower c = (let n = of_char c :: nat in if 65 \<le> n \<and> n \<le> 90 then char_of (n + 32) else c)"

definition lower :: "string \<Rightarrow> string" where
  "lower s = map tolower s"

definition quoted :: "string \<Rightarrow> string" where
  "quoted s = [CHR 0x27] @ s @ [CHR 0x27]"

definition validate_model :: "validation_config \<Rightarrow> string \<Rightarrow> unit result" where
  "validate_model cfg m =
     (if m = '''' then Inl (invalid_request (quoted ''model'' @ '' is required''))
      else if \<not> list_ex (\<lambda>supported. lower m = lower supported) (supported_models cfg)
      then Inl (invalid_request (''Model '' @ quoted m @ '' not supported''))
      else Inr ())"

text \<open>The loop over the messages, with the flag \<open>has_user_message\<close>.\<close>

fun check_messages :: "bool \<Rightarrow> 'j chat_message list \<Rightarrow> bool result" where
  "check_messages has_user [] = Inr has_user"
| "check_messages has_user (m # ms) =
     (if msg_role m = Tool_role \<and> tool_call_id m = None
      then Inl (invalid_request (''Tool message requires '' @ quoted ''tool_call_id''))
      else check_messages (has_user \<or> msg_role m = User) ms)"

definition validate_messages :: "'j chat_message list \<Rightarrow> unit result" where
  "validate_messages ms =
     (if ms = [] then Inl (invalid_request (quoted ''messages'' @ '' must contain at least one message''))
      else (case check_messages False ms of
        Inl e \<Rightarrow> Inl e
      | Inr has_user \<Rightarrow>
          if \<not> has_user
          then Inl (invalid_request (quoted ''messages'' @ '' must contain at least one user message''))
          else Inr ()))"

definition validate_temperature :: "validation_config \<Rightarrow> real \<Rightarrow> unit result" where
  "validate_temperature cfg t =
     (if t < min_temperature cfg \<or> t > max_temperature cfg
      then Inl (invalid_request (''temperature must be between '' @ fixed 6 (min_temperature cfg) @ '' and '' @
             fixed 6 (max_temperature cfg)))
      else Inr ())"

definition validate_top_p :: "validation_config \<Rightarrow> real \<Rightarrow> unit result" where
  "validate_top_p cfg p =
     (if p < min_top_p cfg \<or> p > max_top_p cfg
      then Inl (invalid_request (''top_p must be between '' @ fixed 6 (min_top_p cfg) @ '' and '' @ fixed 6 (max_top_p cfg)))
      else Inr ())"

definition validate_max_tokens :: "validation_config \<Rightarrow> int32 \<Rightarrow> unit result" where
  "validate_max_tokens cfg n =
     (if sint n < 1 then Inl (invalid_request ''max_tokens must be at least 1'')
      else if sint n > sint (max_completion_tokens cfg)
      then Inl (invalid_request (''max_tokens cannot exceed '' @ int32_to_string (max_completion_tokens cfg)))
      else Inr ())"

fun check_stop_sequences :: "validation_config \<Rightarrow> string list \<Rightarrow> unit result" where
  "check_stop_sequences cfg [] = Inr ()"
| "check_stop_sequences cfg (s # ss) =
     (if s = '''' then Inl (invalid_request ''Stop sequence cannot be empty'')
      else if sz s > max_stop_sequence_length cfg
      then Inl (invalid_request (''Stop sequence exceeds maximum length of '' @
             size_to_string (max_stop_sequence_length cfg)))
      else check_stop_sequences cfg ss)"

definition validate_stop :: "validation_config \<Rightarrow> string list \<Rightarrow> unit result" where
  "validate_stop cfg ss =
     (if sz ss > max_stop_sequences cfg
      then Inl (invalid_request (''Maximum '' @ size_to_string (max_stop_sequences cfg) @ '' stop sequences allowed''))
      else check_stop_sequences cfg ss)"

definition validate_opt :: "('a \<Rightarrow> unit result) \<Rightarrow> 'a option \<Rightarrow> unit result" where
  "validate_opt f x = (case x of None \<Rightarrow> Inr () | Some v \<Rightarrow> f v)"

definition validate :: "validation_config \<Rightarrow> 'j chat_completion_request \<Rightarrow> unit result" where
  "validate cfg r =
     and_then (validate_model cfg (req_model r)) (\<lambda>_.
     and_then (validate_messages (messages r)) (\<lambda>_.
     and_then (validate_opt (validate_temperature cfg) (req_temperature r)) (\<lambda>_.
     and_then (validate_opt (validate_top_p cfg) (req_top_p r)) (\<lambda>_.
     and_then (validate_opt (validate_max_tokens cfg) (req_max_tokens r)) (\<lambda>_.
     validate_opt (validate_stop cfg) (req_stop r))))))"

definition apply_defaults :: "validation_config \<Rightarrow> 'j chat_completion_request \<Rightarrow> 'j chat_completion_request" where
  "apply_defaults cfg r =
     (let r1 = (if req_temperature r = None then r\<lparr>req_temperature := Some (default_temperature cfg)\<rparr> else r);
          r2 = (if req_top_p r1 = None then r1\<lparr>req_top_p := Some (default_top_p cfg)\<rparr> else r1)
      in if req_max_tokens r2 = None then r2\<lparr>req_max_tokens := Some (default_max_tokens cfg)\<rparr> else r2)"

section \<open>When each check passes\<close>

lemma check_messages_Inr [result_iff]:
  "check_messages b ms = Inr u \<longleftrightarrow>
     (\<forall>m \<in> set ms. msg_role m = Tool_role \<longrightarrow> tool_call_id m \<noteq> None) \<and>
     u = (b \<or> (\<exists>m \<in> set ms. msg_role m = User))"
  by (induction ms arbitrary: b) auto

lemma check_messages_Inl:
  "check_messages b ms = Inl e \<Longrightarrow> \<exists>m \<in> set ms. msg_role m = Tool_role \<and> tool_call_id m = None"
  by (induction ms arbitrary: b) (auto split: if_splits)

lemma check_stop_sequences_Inr [result_iff]:
  "check_stop_sequences cfg ss = Inr u \<longleftrightarrow> (\<forall>s \<in> set ss. s \<noteq> '''' \<and> sz s \<le> max_stop_sequence_length cfg)"
  by (induction ss) (auto simp: not_less)

lemma validate_opt_Inr [result_iff]: "validate_opt f x = Inr u \<longleftrightarrow> (\<forall>v. x = Some v \<longrightarrow> f v = Inr u)"
  by (cases x) (auto simp: validate_opt_def)

lemma validate_parts_Inr [result_iff]:
  "validate_model cfg m = Inr u \<longleftrightarrow> m \<noteq> '''' \<and> (\<exists>s \<in> set (supported_models cfg). lower m = lower s)"
  "validate_messages ms = Inr u \<longleftrightarrow> (\<exists>m \<in> set ms. msg_role m = User) \<and>
     (\<forall>m \<in> set ms. msg_role m = Tool_role \<longrightarrow> tool_call_id m \<noteq> None)"
  "validate_temperature cfg t = Inr u \<longleftrightarrow> min_temperature cfg \<le> t \<and> t \<le> max_temperature cfg"
  "validate_top_p cfg p = Inr u \<longleftrightarrow> min_top_p cfg \<le> p \<and> p \<le> max_top_p cfg"
  "validate_max_tokens cfg n = Inr u \<longleftrightarrow> 1 \<le> sint n \<and> sint n \<le> sint (max_completion_tokens cfg)"
  "validate_stop cfg ss = Inr u \<longleftrightarrow> sz ss \<le> max_stop_sequences cfg \<and>
     (\<forall>s \<in> set ss. s \<noteq> '''' \<and> sz s \<le> max_stop_sequence_length cfg)"
  by (auto simp: validate_model_def validate_messages_def validate_temperature_def validate_top_p_def
      validate_max_tokens_def validate_stop_def result_iff list_ex_iff not_less split: sum.splits
      dest: check_messages_Inl)

section \<open>Properties\<close>

text \<open>
  C30. A request passes validation exactly when its model is a supported one up to letter case, it has
  a user message, every tool message has a call id, and every sampling parameter that is given is in
  its range: temperature and top_p between their bounds, max_tokens between 1 and the completion
  limit, at most the allowed number of stop sequences, none of them empty or too long.
\<close>

theorem validate_iff:
  "validate cfg r = Inr () \<longleftrightarrow>
     req_model r \<noteq> '''' \<and> (\<exists>s \<in> set (supported_models cfg). lower (req_model r) = lower s) \<and>
     (\<exists>m \<in> set (messages r). msg_role m = User) \<and>
     (\<forall>m \<in> set (messages r). msg_role m = Tool_role \<longrightarrow> tool_call_id m \<noteq> None) \<and>
     (\<forall>t. req_temperature r = Some t \<longrightarrow> min_temperature cfg \<le> t \<and> t \<le> max_temperature cfg) \<and>
     (\<forall>p. req_top_p r = Some p \<longrightarrow> min_top_p cfg \<le> p \<and> p \<le> max_top_p cfg) \<and>
     (\<forall>n. req_max_tokens r = Some n \<longrightarrow> 1 \<le> sint n \<and> sint n \<le> sint (max_completion_tokens cfg)) \<and>
     (\<forall>ss. req_stop r = Some ss \<longrightarrow> sz ss \<le> max_stop_sequences cfg \<and>
        (\<forall>s \<in> set ss. s \<noteq> '''' \<and> sz s \<le> max_stop_sequence_length cfg))"
  by (auto simp: validate_def result_iff)

theorem validate_iff_witness:
  "validate default_validation_config demo_api_request = Inr () \<and>
   validate default_validation_config (demo_api_request\<lparr>req_max_tokens := Some 0\<rparr>) \<noteq> Inr ()"
  using validate_iff [of default_validation_config demo_api_request]
    validate_iff [of default_validation_config "demo_api_request\<lparr>req_max_tokens := Some 0\<rparr>"]
  by (simp add: demo_api_request_def default_validation_config_def)

text \<open>
  Filling in the defaults of a valid request gives a request with temperature, top_p and max_tokens
  set, which is still valid when the configured defaults are in their own ranges; nothing else changes.
\<close>

theorem apply_defaults_valid:
  assumes "validate cfg r = Inr ()"
    and "min_temperature cfg \<le> default_temperature cfg" "default_temperature cfg \<le> max_temperature cfg"
    and "min_top_p cfg \<le> default_top_p cfg" "default_top_p cfg \<le> max_top_p cfg"
    and "1 \<le> sint (default_max_tokens cfg)" "sint (default_max_tokens cfg) \<le> sint (max_completion_tokens cfg)"
  shows "validate cfg (apply_defaults cfg r) = Inr () \<and>
    (\<exists>t p n. req_temperature (apply_defaults cfg r) = Some t \<and> req_top_p (apply_defaults cfg r) = Some p \<and>
       req_max_tokens (apply_defaults cfg r) = Some n \<and> 1 \<le> sint n \<and>
       apply_defaults cfg r = r\<lparr>req_temperature := Some t, req_top_p := Some p, req_max_tokens := Some n\<rparr>) \<and>
    apply_defaults cfg (apply_defaults cfg r) = apply_defaults cfg r"
proof -
  define t p n where "t = (case req_temperature r of None \<Rightarrow> default_temperature cfg | Some t \<Rightarrow> t)"
    and "p = (case req_top_p r of None \<Rightarrow> default_top_p cfg | Some p \<Rightarrow> p)"
    and "n = (case req_max_tokens r of None \<Rightarrow> default_max_tokens cfg | Some n \<Rightarrow> n)"
  then have eq: "apply_defaults cfg r = r\<lparr>req_temperature := Some t, req_top_p := Some p, req_max_tokens := Some n\<rparr>"
    by (cases r) (auto simp: apply_defaults_def Let_def split: option.splits)
  have ranges: "min_temperature cfg \<le> t \<and> t \<le> max_temperature cfg" "min_top_p cfg \<le> p \<and> p \<le> max_top_p cfg"
    "1 \<le> sint n \<and> sint n \<le> sint (max_completion_tokens cfg)"
    using assms by (auto simp: t_def p_def n_def validate_def result_iff split: option.splits)
  have "validate cfg (apply_defaults cfg r) = Inr ()"
    using assms(1) ranges by (auto simp: eq validate_def result_iff)
  moreover have "apply_defaults cfg (apply_defaults cfg r) = apply_defaults cfg r"
    by (simp add: eq apply_defaults_def Let_def)
  ultimately show ?thesis using eq ranges(3) by auto
qed

theorem apply_defaults_valid_witness:
  "validate default_validation_config (apply_defaults default_validation_config demo_api_request) = Inr ()"
proof -
  have "validate default_validation_config demo_api_request = Inr ()"
    by (simp add: validate_def result_iff demo_api_request_def default_validation_config_def)
  from apply_defaults_valid [OF this] show ?thesis by (simp add: default_validation_config_def)
qed

end
