(* ===== verification/Bpe.thy ===== *)
theory Bpe
  imports Prelude
begin

text \<open>
  \<^verbatim>\<open>src/tokenizer/bpe.cpp\<close>: byte-pair merging and whitespace pre-tokenisation. The merge table
  (\<open>std::map\<close> from pairs to ranks) is a partial function. The outer merge loop is a function with a
  termination proof: every round that finds a pair shortens the word.
\<close>

section \<open>Definitions\<close>

type_synonym symbol_pair = "string \<times> string"
type_synonym merge_table = "symbol_pair \<rightharpoonup> int"

definition INT_MAX :: int where
  "INT_MAX = 2147483647"

definition get_pairs :: "string list \<Rightarrow> symbol_pair list" where
  "get_pairs word = (if length word < 2 then [] else zip word (tl word))"

text \<open>The search for the pair with the lowest rank; \<open>best_rank\<close> starts at \<open>INT_MAX\<close>.\<close>

fun best_pair :: "merge_table \<Rightarrow> symbol_pair list \<Rightarrow> symbol_pair \<times> int \<Rightarrow> symbol_pair \<times> int" where
  "best_pair merges [] best = best"
| "best_pair merges (p # ps) best =
     best_pair merges ps
       (case merges p of None \<Rightarrow> best | Some r \<Rightarrow> if r < snd best then (p, r) else best)"

text \<open>One pass that replaces every occurrence of the pair from left to right.\<close>

fun merge_pass :: "symbol_pair \<Rightarrow> string list \<Rightarrow> string list" where
  "merge_pass p [] = []"
| "merge_pass p [w] = [w]"
| "merge_pass p (w # v # ws) =
     (if w = fst p \<and> v = snd p then (w @ v) # merge_pass p ws else w # merge_pass p (v # ws))"

lemma concat_merge_pass [simp]: "concat (merge_pass p ws) = concat ws"
  by (induction p ws rule: merge_pass.induct) auto

lemma length_merge_pass_le: "length (merge_pass p ws) \<le> length ws"
  by (induction p ws rule: merge_pass.induct) auto

lemma get_pairs_Cons [simp]: "get_pairs (w # v # ws) = (w, v) # get_pairs (v # ws)" "get_pairs [w] = []" "get_pairs [] = []"
  by (auto simp: get_pairs_def Suc_le_eq less_Suc_eq_le)

lemma length_merge_pass_less: "p \<in> set (get_pairs ws) \<Longrightarrow> length (merge_pass p ws) < length ws"
proof (induction p ws rule: merge_pass.induct)
  case (3 p w v ws)
  then show ?case using length_merge_pass_le [of p ws] by auto
qed simp_all

text \<open>The search returns its start value, or a pair of the list with its rank.\<close>

lemma best_pair_cases:
  "best_pair merges ps best = best \<or>
   (fst (best_pair merges ps best) \<in> set ps \<and>
    merges (fst (best_pair merges ps best)) = Some (snd (best_pair merges ps best)) \<and>
    snd (best_pair merges ps best) < snd best)"
proof (induction ps arbitrary: best)
  case (Cons p ps)
  define b where "b = (case merges p of None \<Rightarrow> best | Some r \<Rightarrow> if r < snd best then (p, r) else best)"
  have "b = best \<or> b = (p, snd b) \<and> merges p = Some (snd b) \<and> snd b < snd best"
    by (auto simp: b_def split: option.splits)
  moreover have "best_pair merges (p # ps) best = best_pair merges ps b" by (simp add: b_def)
  ultimately show ?case using Cons.IH [of b] by (cases b) auto
qed simp

lemma best_pair_least:
  assumes "p \<in> set ps" and "merges p = Some r"
  shows "snd (best_pair merges ps best) \<le> r"
proof -
  have mono: "snd (best_pair merges qs b) \<le> snd b" for qs b
    using best_pair_cases [of merges qs b] by auto
  show ?thesis
    using assms
  proof (induction ps arbitrary: best)
    case (Cons q ps)
    show ?case
    proof (cases "p = q")
      case True
      with Cons.prems(2) mono [of ps "if r < snd best then (p, r) else best"] show ?thesis by auto
    next
      case False
      with Cons.prems show ?thesis by (simp add: Cons.IH)
    qed
  qed simp
qed

lemma best_pair_found: "(p, r) = best_pair merges ps (q, n) \<Longrightarrow> r \<noteq> n \<Longrightarrow> p \<in> set ps"
  using best_pair_cases [of merges ps "(q, n)"] by (metis fst_conv snd_conv)

function bpe_loop :: "merge_table \<Rightarrow> string list \<Rightarrow> string list" where
  "bpe_loop merges word =
     (if get_pairs word = [] then word
      else case best_pair merges (get_pairs word) (('''', ''''), INT_MAX) of (p, r) \<Rightarrow>
        if r = INT_MAX then word
        else (let word' = merge_pass p word
              in if length word' = 1 then word' else bpe_loop merges word'))"
  by pat_completeness auto
termination
  by (relation "measure (\<lambda>(merges, word). length word)")
    (auto intro: length_merge_pass_less best_pair_found)

declare bpe_loop.simps [simp del]

definition apply_bpe :: "string \<Rightarrow> merge_table \<Rightarrow> string list" where
  "apply_bpe token merges =
     (let word = map (\<lambda>c. [c]) token in if length word = 1 then word else bpe_loop merges word)"

text \<open>The byte pair of the marker character U+0120 in UTF-8.\<close>

definition marker :: string where
  "marker = [CHR 0xC4, CHR 0xA0]"

definition is_ws :: "char \<Rightarrow> bool" where
  "is_ws c \<longleftrightarrow> c = CHR '' '' \<or> c = CHR 0x0A \<or> c = CHR 0x09"

fun pre_tokenize_loop :: "string \<Rightarrow> string list \<Rightarrow> string \<Rightarrow> string list" where
  "pre_tokenize_loop current tokens [] = (if current \<noteq> '''' then tokens @ [current] else tokens)"
| "pre_tokenize_loop current tokens (c # cs) =
     (if is_ws c
      then pre_tokenize_loop '''' ((if current \<noteq> '''' then tokens @ [current] else tokens) @ [marker @ '' '']) cs
      else pre_tokenize_loop (current @ [c]) tokens cs)"

definition pre_tokenize :: "string \<Rightarrow> string list" where
  "pre_tokenize text = pre_tokenize_loop '''' [] text"

section \<open>Merging\<close>

text \<open>A word is final when no adjacent pair has a rank.\<close>

definition no_merge_left :: "merge_table \<Rightarrow> string list \<Rightarrow> bool" where
  "no_merge_left merges word \<longleftrightarrow> (\<forall>p \<in> set (get_pairs word). \<forall>r. merges p = Some r \<longrightarrow> r \<ge> INT_MAX)"

lemma no_merge_left_one: "length word = 1 \<Longrightarrow> no_merge_left merges word"
  by (auto simp: no_merge_left_def get_pairs_def)

text \<open>One round of the loop, by what the search finds.\<close>

lemma bpe_loop_cases:
  obtains (stop) "bpe_loop merges word = word" and "no_merge_left merges word"
  | (merge) p where "p \<in> set (get_pairs word)" and "merge_pass p word \<noteq> word"
      and "bpe_loop merges word =
        (if length (merge_pass p word) = 1 then merge_pass p word else bpe_loop merges (merge_pass p word))"
proof -
  obtain p r where best: "best_pair merges (get_pairs word) (('''', ''''), INT_MAX) = (p, r)" by fastforce
  show thesis
  proof (cases "get_pairs word = [] \<or> r = INT_MAX")
    case True
    then have "bpe_loop merges word = word" by (subst bpe_loop.simps) (auto simp: best)
    moreover have "no_merge_left merges word"
      using True best_pair_least [of _ "get_pairs word" merges _ "(('''', ''''), INT_MAX)"] best
      by (fastforce simp: no_merge_left_def)
    ultimately show thesis by (rule stop)
  next
    case False
    then have "p \<in> set (get_pairs word)" using best_pair_found [OF best [symmetric]] by simp
    moreover from length_merge_pass_less [OF this] have "merge_pass p word \<noteq> word" by auto
    moreover have "bpe_loop merges word =
        (if length (merge_pass p word) = 1 then merge_pass p word else bpe_loop merges (merge_pass p word))"
      using False by (subst bpe_loop.simps) (simp add: best Let_def)
    ultimately show thesis by (rule merge)
  qed
qed

lemma bpe_loop_correct: "concat (bpe_loop merges word) = concat word \<and> no_merge_left merges (bpe_loop merges word)"
proof (induction "length word" arbitrary: word rule: less_induct)
  case less
  show ?case
  proof (cases rule: bpe_loop_cases [of merges word])
    case stop
    then show ?thesis by simp
  next
    case (merge p)
    then show ?thesis
      using less [OF length_merge_pass_less [OF merge(1)]] no_merge_left_one by simp
  qed
qed

section \<open>Pre-tokenisation\<close>

lemma concat_map_snoc: "concat (map f (xs @ [x])) = concat (map f xs) @ f x"
  by simp

text \<open>What a pre-token stands for: the marker token is one blank, any other token is itself.\<close>

definition untoken :: "string \<Rightarrow> string" where
  "untoken t = (if t = marker @ '' '' then '' '' else t)"

definition blank_ws :: "string \<Rightarrow> string" where
  "blank_ws s = map (\<lambda>c. if is_ws c then CHR '' '' else c) s"

lemma is_ws_blank [simp]: "is_ws (CHR '' '')"
  by (simp add: is_ws_def)

lemma untoken_word:
  assumes "\<forall>c \<in> set w. \<not> is_ws c"
  shows "untoken w = w"
proof -
  have "CHR '' '' \<in> set (marker @ '' '')" by simp
  with assms have "w \<noteq> marker @ '' ''" by (metis is_ws_blank)
  then show ?thesis by (simp add: untoken_def)
qed

lemma untoken_marker [simp]: "untoken (marker @ '' '') = '' ''"
  by (simp add: untoken_def)

lemma blank_ws_word: "\<forall>c \<in> set w. \<not> is_ws c \<Longrightarrow> blank_ws w = w"
  by (induction w) (auto simp: blank_ws_def)

lemma pre_tokenize_loop_concat:
  "\<forall>c \<in> set current. \<not> is_ws c \<Longrightarrow>
   concat (map untoken (pre_tokenize_loop current tokens str)) =
   concat (map untoken tokens) @ current @ blank_ws str"
proof (induction current tokens str rule: pre_tokenize_loop.induct)
  case (1 current tokens)
  then show ?case by (simp add: untoken_word blank_ws_def)
next
  case (2 current tokens c cs)
  then show ?case
    by (cases "is_ws c") (simp_all add: untoken_word blank_ws_def)
qed

text \<open>A pre-token: the marker token, or a non-empty run without whitespace.\<close>

definition pre_token :: "string \<Rightarrow> bool" where
  "pre_token t \<longleftrightarrow> t = marker @ '' '' \<or> t \<noteq> '''' \<and> (\<forall>c \<in> set t. \<not> is_ws c)"

lemma pre_tokenI: "w \<noteq> '''' \<Longrightarrow> \<forall>c \<in> set w. \<not> is_ws c \<Longrightarrow> pre_token w" "pre_token (marker @ '' '')"
  by (simp_all add: pre_token_def)

lemma pre_tokenize_loop_tokens:
  "\<lbrakk>\<forall>c \<in> set current. \<not> is_ws c; list_all pre_token tokens\<rbrakk> \<Longrightarrow>
   list_all pre_token (pre_tokenize_loop current tokens str)"
proof (induction current tokens str rule: pre_tokenize_loop.induct)
  case (1 current tokens)
  then show ?case by (simp add: pre_tokenI)
next
  case (2 current tokens c cs)
  then show ?case by (cases "is_ws c") (simp_all add: pre_tokenI)
qed

section \<open>Properties\<close>

text \<open>
  C20. Byte-pair merging always ends, loses and invents no character, and stops only when no adjacent
  pair of the result has a rank in the merge table.
\<close>

theorem apply_bpe_correct:
  "concat (apply_bpe token merges) = token \<and> no_merge_left merges (apply_bpe token merges)"
  using bpe_loop_correct [of merges "map (\<lambda>c. [c]) token"] no_merge_left_one
  by (simp add: apply_bpe_def Let_def)

text \<open>
  Pre-tokenisation splits at every blank, tab and newline and nowhere else: each token is the
  marker token for one whitespace character or a non-empty run without whitespace, and putting the
  tokens back together gives the text with every whitespace character replaced by a blank.
\<close>

theorem pre_tokenize_correct:
  "concat (map untoken (pre_tokenize str)) = blank_ws str \<and>
   list_all pre_token (pre_tokenize str)"
  using pre_tokenize_loop_concat [of "''''" "[]" str] pre_tokenize_loop_tokens [of "''''" "[]" str]
  by (simp add: pre_tokenize_def)

theorem pre_tokenize_correct_witness:
  "pre_tokenize ''ab c'' = [''ab'', marker @ '' '', ''c''] \<and>
   concat (map untoken (pre_tokenize ''ab c'')) = ''ab c''"
  using pre_tokenize_correct [of "''ab c''"] by (simp add: pre_tokenize_def is_ws_def blank_ws_def)

end
