(* ===== verification/Tokenizer.thy ===== *)
theory Tokenizer
  imports Result_Type Bpe "HOL-Library.Monad_Syntax"
begin

text \<open>
  \<open>QwenBPETokenizer\<close> of \<^verbatim>\<open>src/tokenizer/tokenizer.cpp\<close>. A \<open>std::string\<close> is a list of bytes; an
  \<open>unordered_map\<close> that is iterated is an association list in iteration order. Reading the vocabulary
  file (JSON) and the merges file is a parameter: what the two reads deliver. The scanning loop of
  \<open>tokenize\<close> need not end when a special string is empty, so it is a partial function: \<^const>\<open>None\<close>
  means it does not return.
\<close>

section \<open>State\<close>

type_synonym token_id = int32

record special_tokens =
  pad_token_id :: token_id
  eos_token_id :: token_id
  bos_token_id :: token_id
  im_start_id :: token_id
  im_end_id :: token_id
  pad_token :: string
  eos_token :: string
  bos_token :: string
  im_start :: string
  im_end :: string

definition default_special_tokens :: special_tokens where
  "default_special_tokens = \<lparr>pad_token_id = 151643, eos_token_id = 151645, bos_token_id = 151643,
     im_start_id = 151644, im_end_id = 151645, pad_token = ''<|endoftext|>'', eos_token = ''<|im_end|>'',
     bos_token = ''<|endoftext|>'', im_start = ''<|im_start|>'', im_end = ''<|im_end|>''\<rparr>"

record tokenizer_config =
  vocab_file :: string
  merges_file :: string
  tk_special :: special_tokens
  add_bos :: bool
  add_eos :: bool

definition default_tokenizer_config :: tokenizer_config where
  "default_tokenizer_config = \<lparr>vocab_file = '''', merges_file = '''', tk_special = default_special_tokens,
     add_bos = False, add_eos = False\<rparr>"

record tokenizer =
  tk_config :: tokenizer_config
  vocab :: "(string \<times> token_id) list"
  id_to_token :: "(token_id \<times> string) list"
  merges :: merge_table
  special_token_ids :: "token_id list"
  special_token_map :: "(string \<times> token_id) list"
  initialized :: bool

definition new_tokenizer :: tokenizer where
  "new_tokenizer = \<lparr>tk_config = default_tokenizer_config, vocab = [], id_to_token = [], merges = Map.empty,
     special_token_ids = [], special_token_map = [], initialized = False\<rparr>"

section \<open>Initialisation\<close>

text \<open>
  What the files deliver: \<^const>\<open>None\<close> when a file cannot be opened; for the vocabulary, the exception
  text or the items of the JSON object; for the merges, the lines.
\<close>

record token_files =
  read_vocab :: "string \<Rightarrow> (string + (string \<times> token_id) list) option"
  read_lines :: "string \<Rightarrow> string list option"

definition byte :: "nat \<Rightarrow> char" where
  "byte i = char_of i"

definition setup_minimal_vocab :: "(string \<times> token_id) list \<Rightarrow> (string \<times> token_id) list" where
  "setup_minimal_vocab v =
     foldl (\<lambda>v i. AList.update (marker @ [byte i]) (of_nat i) v)
       (AList.update ''<|im_end|>'' 151645 (AList.update ''<|im_start|>'' 151644
         (AList.update ''<|endoftext|>'' 151643 v))) [0..<256]"

definition load_vocab :: "token_files \<Rightarrow> string \<Rightarrow> tokenizer \<Rightarrow> unit result \<times> tokenizer" where
  "load_vocab F path t =
     (if path = '''' then (Inr (), t\<lparr>vocab := setup_minimal_vocab (vocab t)\<rparr>)
      else (case read_vocab F path of
        None \<Rightarrow> (Inl (internal (''Failed to open vocab file: '' @ path)), t)
      | Some (Inl e) \<Rightarrow> (Inl (internal (''Failed to parse vocab: '' @ e)), t)
      | Some (Inr items) \<Rightarrow> (Inr (), t\<lparr>vocab := foldl (\<lambda>v (k, i). AList.update k i v) (vocab t) items\<rparr>)))"

fun split_at_blank :: "string \<Rightarrow> (string \<times> string) option" where
  "split_at_blank [] = None"
| "split_at_blank (c # cs) =
     (if c = CHR '' '' then Some ([], cs)
      else map_option (\<lambda>(a, b). (c # a, b)) (split_at_blank cs))"

fun read_merges :: "string list \<Rightarrow> int \<Rightarrow> merge_table \<Rightarrow> merge_table" where
  "read_merges [] rank m = m"
| "read_merges (l # ls) rank m =
     (if l = '''' \<or> hd l = CHR ''#'' then read_merges ls rank m
      else (case split_at_blank l of
        None \<Rightarrow> read_merges ls rank m
      | Some p \<Rightarrow> read_merges ls (rank + 1) (m(p \<mapsto> rank))))"

definition load_merges :: "token_files \<Rightarrow> string \<Rightarrow> tokenizer \<Rightarrow> unit result \<times> tokenizer" where
  "load_merges F path t =
     (if path = '''' then (Inr (), t)
      else (case read_lines F path of
        None \<Rightarrow> (Inl (internal (''Failed to open merges file: '' @ path)), t)
      | Some ls \<Rightarrow> (Inr (), t\<lparr>merges := read_merges ls 0 (merges t)\<rparr>)))"

definition register_special_tokens :: "tokenizer \<Rightarrow> tokenizer" where
  "register_special_tokens t =
     (let sp = tk_special (tk_config t)
      in t\<lparr>special_token_ids := special_token_ids t @
             [pad_token_id sp, eos_token_id sp, bos_token_id sp, im_start_id sp, im_end_id sp],
           special_token_map := AList.update (pad_token sp) (pad_token_id sp)
             (AList.update (im_end sp) (im_end_id sp)
               (AList.update (im_start sp) (im_start_id sp) (special_token_map t)))\<rparr>)"

definition tk_initialize :: "token_files \<Rightarrow> tokenizer_config \<Rightarrow> tokenizer \<Rightarrow> unit result \<times> tokenizer" where
  "tk_initialize F cfg t =
     (case load_vocab F (vocab_file cfg) (t\<lparr>tk_config := cfg\<rparr>) of
        (Inl e, t1) \<Rightarrow> (Inl e, t1)
      | (Inr _, t1) \<Rightarrow>
          (case load_merges F (merges_file cfg) t1 of
             (Inl e, t2) \<Rightarrow> (Inl e, t2)
           | (Inr _, t2) \<Rightarrow>
               (Inr (), (register_special_tokens (t2\<lparr>id_to_token :=
                  foldl (\<lambda>m (tok, i). AList.update i tok m) (id_to_token t2) (vocab t2)\<rparr>))\<lparr>initialized := True\<rparr>)))"

section \<open>Encoding\<close>

definition tokenize_chunk :: "tokenizer \<Rightarrow> string \<Rightarrow> token_id list" where
  "tokenize_chunk t s =
     map (\<lambda>c. case map_of (vocab t) [c] of Some i \<Rightarrow> i | None \<Rightarrow> of_nat (of_char c)) s"

text \<open>\<open>std::string::find\<close>: the position of the first occurrence.\<close>

fun find_pos :: "string \<Rightarrow> string \<Rightarrow> nat option" where
  "find_pos pat [] = (if pat = [] then Some 0 else None)"
| "find_pos pat (c # cs) = (if prefix pat (c # cs) then Some 0 else map_option Suc (find_pos pat cs))"

text \<open>The first special string, in iteration order, that starts the rest of the text.\<close>

fun special_at :: "(string \<times> token_id) list \<Rightarrow> string \<Rightarrow> (string \<times> token_id) option" where
  "special_at [] rest = None"
| "special_at ((sp, i) # sps) rest = (if prefix sp rest then Some (sp, i) else special_at sps rest)"

text \<open>The length of the chunk before the next special string.\<close>

fun chunk_end :: "(string \<times> token_id) list \<Rightarrow> string \<Rightarrow> nat \<Rightarrow> nat" where
  "chunk_end [] rest n = n"
| "chunk_end ((sp, i) # sps) rest n =
     chunk_end sps rest (case find_pos sp rest of Some p \<Rightarrow> if p < n then p else n | None \<Rightarrow> n)"

partial_function (option) tokenize :: "tokenizer \<Rightarrow> string \<Rightarrow> token_id list option" where
  "tokenize t rest =
     (if rest = '''' then Some []
      else case special_at (special_token_map t) rest of
        Some (sp, i) \<Rightarrow> do { ids \<leftarrow> tokenize t (drop (length sp) rest); Some (i # ids) }
      | None \<Rightarrow>
          (let n = chunk_end (special_token_map t) rest (length rest)
           in do { ids \<leftarrow> tokenize t (drop n rest); Some (tokenize_chunk t (take n rest) @ ids) }))"

definition encode :: "tokenizer \<Rightarrow> string \<Rightarrow> bool \<Rightarrow> token_id list result option" where
  "encode t s add_special =
     (if \<not> initialized t then Some (Inl (internal ''Tokenizer not initialized''))
      else do {
        ids \<leftarrow> tokenize t s;
        Some (Inr ((if add_special \<and> add_bos (tk_config t) then [bos_token_id (tk_special (tk_config t))] else []) @ ids @
              (if add_special \<and> add_eos (tk_config t) then [eos_token_id (tk_special (tk_config t))] else []))) })"

section \<open>Decoding\<close>

definition decode_token :: "tokenizer \<Rightarrow> token_id \<Rightarrow> string result" where
  "decode_token t i = (case map_of (id_to_token t) i of
     None \<Rightarrow> Inl (invalid_request (''Unknown token ID: '' @ int32_to_string i))
   | Some s \<Rightarrow> Inr s)"

text \<open>
  \<open>text[i]\<close> is a signed \<open>char\<close>; the literal it is compared with has two bytes, so it is the \<open>int\<close>
  \<open>0xC4A0\<close>.
\<close>

definition char_value :: "char \<Rightarrow> int" where
  "char_value c = (let n = int (of_char c) in if n < 128 then n else n - 256)"

definition marker_literal :: int where
  "marker_literal = 0xC4A0"

fun decode_bytes :: "string \<Rightarrow> string" where
  "decode_bytes [] = []"
| "decode_bytes (c # cs) =
     (if char_value c = marker_literal \<and> cs \<noteq> [] then CHR '' '' # decode_bytes cs
      else if char_value c \<noteq> marker_literal then c # decode_bytes cs
      else decode_bytes cs)"

definition decode :: "tokenizer \<Rightarrow> token_id list \<Rightarrow> string result" where
  "decode t ids =
     (if \<not> initialized t then Inl (internal ''Tokenizer not initialized'')
      else Inr (decode_bytes (concat (map (\<lambda>i. case decode_token t i of Inl e \<Rightarrow> [] | Inr s \<Rightarrow> s) ids))))"

definition tk_vocab_size :: "tokenizer \<Rightarrow> size_t" where
  "tk_vocab_size t = sz (vocab t)"

definition is_special_token :: "tokenizer \<Rightarrow> token_id \<Rightarrow> bool" where
  "is_special_token t i \<longleftrightarrow> i \<in> set (special_token_ids t)"

definition token_to_string :: "tokenizer \<Rightarrow> token_id \<Rightarrow> string" where
  "token_to_string t i = (case map_of (id_to_token t) i of
     None \<Rightarrow> ''<unk:'' @ int32_to_string i @ ''>'' | Some s \<Rightarrow> s)"

section \<open>The scanning loop\<close>

definition specials_ok :: "tokenizer \<Rightarrow> bool" where
  "specials_ok t \<longleftrightarrow> (\<forall>(sp, i) \<in> set (special_token_map t). sp \<noteq> '''')"

lemma special_at_Some:
  "special_at sps rest = Some (sp, i) \<Longrightarrow> (sp, i) \<in> set sps \<and> prefix sp rest"
  by (induction sps rest rule: special_at.induct) (auto split: if_splits)

lemma special_at_None: "special_at sps rest = None \<longleftrightarrow> (\<forall>(sp, i) \<in> set sps. \<not> prefix sp rest)"
  by (induction sps rest rule: special_at.induct) auto

lemma find_pos_prefix: "find_pos pat s = Some p \<Longrightarrow> p \<le> length s \<and> prefix pat (drop p s)"
  by (induction pat s arbitrary: p rule: find_pos.induct) (auto split: if_splits)

lemma find_pos_None: "find_pos pat s = None \<longleftrightarrow> \<not> sublist pat s"
  by (induction pat s rule: find_pos.induct) (auto simp: sublist_Cons_right)

lemma find_pos_least: "find_pos pat s = Some p \<Longrightarrow> q < p \<Longrightarrow> \<not> prefix pat (drop q s)"
proof (induction pat s arbitrary: p q rule: find_pos.induct)
  case (2 pat c cs)
  then show ?case by (cases q) (auto split: if_splits)
qed (auto split: if_splits)

lemma chunk_end_le: "chunk_end sps rest n \<le> n"
  by (induction sps rest n rule: chunk_end.induct) (auto split: option.splits intro: le_trans)

lemma chunk_end_pos:
  assumes "n > 0" and "\<forall>(sp, i) \<in> set sps. \<not> prefix sp rest"
  shows "chunk_end sps rest n > 0"
  using assms
proof (induction sps arbitrary: n)
  case (Cons x sps)
  obtain sp i where x: "x = (sp, i)" by fastforce
  have "find_pos sp rest \<noteq> Some 0"
    using find_pos_prefix [of sp rest 0] Cons.prems(2) by (auto simp: x)
  then have "(case find_pos sp rest of Some p \<Rightarrow> if p < n then p else n | None \<Rightarrow> n) > 0"
    using Cons.prems(1) by (auto split: option.splits)
  then show ?case using Cons by (simp add: x)
qed simp

lemma chunk_end_none:
  "\<forall>(sp, i) \<in> set sps. \<not> sublist sp rest \<Longrightarrow> chunk_end sps rest n = n"
  by (induction sps rest n rule: chunk_end.induct) (auto simp: find_pos_None [symmetric])

lemma tokenize_Nil [simp]: "tokenize t '''' = Some []"
  by (subst tokenize.simps) simp

lemma tokenize_special:
  assumes "rest \<noteq> ''''" and "special_at (special_token_map t) rest = Some (sp, i)"
  shows "tokenize t rest = map_option (\<lambda>ids. i # ids) (tokenize t (drop (length sp) rest))"
  using assms by (subst tokenize.simps) (simp add: map_conv_bind_option comp_def)

lemma tokenize_plain:
  assumes "rest \<noteq> ''''" and "special_at (special_token_map t) rest = None"
    and "n = chunk_end (special_token_map t) rest (length rest)"
  shows "tokenize t rest = map_option (\<lambda>ids. tokenize_chunk t (take n rest) @ ids) (tokenize t (drop n rest))"
  using assms by (subst tokenize.simps) (simp add: map_conv_bind_option Let_def comp_def)

lemma tokenize_total:
  assumes "specials_ok t"
  shows "\<exists>ids. tokenize t rest = Some ids"
proof (induction "length rest" arbitrary: rest rule: less_induct)
  case less
  show ?case
  proof (cases "rest = ''''")
    case False
    show ?thesis
    proof (cases "special_at (special_token_map t) rest")
      case None
      have "chunk_end (special_token_map t) rest (length rest) > 0"
        using None False by (intro chunk_end_pos) (simp_all add: special_at_None)
      then show ?thesis
        using less False tokenize_plain [OF False None refl] by fastforce
    next
      case (Some a)
      then obtain sp i where sp: "special_at (special_token_map t) rest = Some (sp, i)" by (cases a) auto
      then have "sp \<noteq> ''''" using assms special_at_Some by (fastforce simp: specials_ok_def)
      then show ?thesis
        using less False tokenize_special [OF False sp] by fastforce
    qed
  qed simp
qed

text \<open>Text in which no special string occurs is one chunk.\<close>

lemma tokenize_no_special:
  assumes "\<forall>(sp, i) \<in> set (special_token_map t). \<not> sublist sp s"
  shows "tokenize t s = Some (tokenize_chunk t s)"
proof (cases "s = ''''")
  case True
  then show ?thesis by (simp add: tokenize_chunk_def)
next
  case False
  have none: "special_at (special_token_map t) s = None"
    using assms prefix_imp_sublist by (fastforce simp: special_at_None)
  show ?thesis
    using tokenize_plain [OF False none refl] chunk_end_none [OF assms] by simp
qed

lemma char_value_ne_marker: "char_value c \<noteq> marker_literal"
proof -
  obtain n where "(of_char c :: nat) = n" and "n < 256" using nat_of_char_less_256 by blast
  then show ?thesis by (auto simp: char_value_def marker_literal_def Let_def)
qed

lemma decode_bytes_id [simp]: "decode_bytes s = s"
  by (induction s) (simp_all add: char_value_ne_marker)

section \<open>Special strings inside text\<close>

text \<open>
  The special strings of Qwen start with \<open><\<close> and have no other \<open><\<close>, so one of them cannot begin inside a
  chunk and reach into the special string that ends the chunk.
\<close>

definition bracketed :: "tokenizer \<Rightarrow> bool" where
  "bracketed t \<longleftrightarrow> (\<forall>(sp, i) \<in> set (special_token_map t). sp \<noteq> '''' \<and> hd sp = CHR ''<'' \<and> CHR ''<'' \<notin> set (tl sp))"

definition plain :: "tokenizer \<Rightarrow> string \<Rightarrow> bool" where
  "plain t s \<longleftrightarrow> (\<forall>(sp, i) \<in> set (special_token_map t). \<not> sublist sp s)"

lemma bracketed_specials_ok: "bracketed t \<Longrightarrow> specials_ok t"
  by (auto simp: bracketed_def specials_ok_def)

lemma no_special_before:
  assumes sp: "sp \<noteq> ''''" "hd sp = CHR ''<''" "CHR ''<'' \<notin> set (tl sp)" and "\<not> sublist sp c"
    and "q < length c" and x: "x \<noteq> ''''" "hd x = CHR ''<''"
  shows "\<not> prefix sp (drop q c @ x)"
proof
  assume "prefix sp (drop q c @ x)"
  then consider "prefix sp (drop q c)" | v where "sp = drop q c @ v" "v \<noteq> ''''" "prefix v x"
    by (cases "prefix sp (drop q c)") (auto simp: prefix_append)
  then show False
  proof cases
    case 1
    then have "sublist sp c" using suffix_drop [of q c] by (auto simp: sublist_altdef')
    with assms(4) show False by simp
  next
    case (2 v)
    then have "hd v = CHR ''<''" using x by (cases v; cases x) (auto simp: prefix_Cons)
    moreover have "hd v \<in> set (tl sp)" using 2 assms(5) by (cases "drop q c") (auto simp: drop_eq_Nil)
    ultimately show False using sp(3) by simp
  qed
qed

lemma find_pos_at_chunk:
  assumes "\<forall>q < length c. \<not> prefix sp (drop q c @ x)"
  shows "find_pos sp (c @ x) = map_option (\<lambda>p. length c + p) (find_pos sp x)"
  using assms
proof (induction c)
  case (Cons a c)
  have "\<not> prefix sp (a # c @ x)" using Cons.prems by force
  moreover have "find_pos sp (c @ x) = map_option (\<lambda>p. length c + p) (find_pos sp x)"
    using Cons.prems by (intro Cons.IH) force
  ultimately show ?case by (simp add: option.map_comp comp_def)
next
  case Nil
  then show ?case by (cases "find_pos sp x") simp_all
qed

lemma find_pos_prefix_0: "prefix sp x \<Longrightarrow> find_pos sp x = Some 0"
  by (cases x) auto

lemma chunk_end_ge:
  "\<lbrakk>m \<le> k; \<forall>x \<in> set qs. \<forall>p. find_pos (fst x) rest = Some p \<longrightarrow> m \<le> p\<rbrakk> \<Longrightarrow> m \<le> chunk_end qs rest k"
proof (induction qs arbitrary: k)
  case (Cons x qs)
  then show ?case by (cases x) (auto split: option.splits)
qed simp

lemma chunk_end_reached:
  assumes "\<And>sp i p. (sp, i) \<in> set sps \<Longrightarrow> find_pos sp rest = Some p \<Longrightarrow> m \<le> p"
    and "(sp0, j) \<in> set sps" and "find_pos sp0 rest = Some m" and "m \<le> n"
  shows "chunk_end sps rest n = m"
proof -
  have "chunk_end qs rest k \<le> m" if "(sp0, j) \<in> set qs" for qs k
    using that
  proof (induction qs arbitrary: k)
    case (Cons x qs)
    show ?case
    proof (cases "x = (sp0, j)")
      case True
      then show ?thesis using assms(3) chunk_end_le [of qs rest "if m < k then m else k"] by (auto split: if_splits)
    next
      case False
      with Cons.prems have "(sp0, j) \<in> set qs" by simp
      then show ?thesis using Cons.IH by (cases x) simp
    qed
  qed simp
  then have "chunk_end sps rest n \<le> m" using assms(2) .
  moreover have "m \<le> chunk_end sps rest n"
    by (rule chunk_end_ge [OF assms(4)]) (metis assms(1) prod.collapse)
  ultimately show ?thesis by simp
qed

text \<open>A plain chunk, then a special string, then the rest: the chunk's bytes, the special id, the rest.\<close>

lemma tokenize_chunk_special:
  assumes br: "bracketed t" and c: "plain t c" and sp0: "(sp0, j) \<in> set (special_token_map t)"
    and first: "special_at (special_token_map t) (sp0 @ rest) = Some (sp0, j)"
  shows "tokenize t (c @ sp0 @ rest) = map_option (\<lambda>ids. tokenize_chunk t c @ j # ids) (tokenize t rest)"
proof -
  have sp0_br: "sp0 \<noteq> ''''" "hd sp0 = CHR ''<''" using br sp0 by (auto simp: bracketed_def)
  have special: "tokenize t (sp0 @ rest) = map_option (\<lambda>ids. j # ids) (tokenize t rest)"
    using tokenize_special [OF _ first] sp0_br(1) by simp
  show ?thesis
  proof (cases "c = ''''")
    case True
    then show ?thesis using special by (simp add: tokenize_chunk_def)
  next
    case False
    have before: "\<forall>q < length c. \<not> prefix sp (drop q c @ sp0 @ rest)" if "(sp, i) \<in> set (special_token_map t)" for sp i
      using that br c sp0_br by (intro allI impI no_special_before) (auto simp: bracketed_def plain_def)
    have none: "special_at (special_token_map t) (c @ sp0 @ rest) = None"
      using before False by (fastforce simp: special_at_None)
    have "chunk_end (special_token_map t) (c @ sp0 @ rest) (length (c @ sp0 @ rest)) = length c"
    proof (rule chunk_end_reached [OF _ sp0])
      show "find_pos sp0 (c @ sp0 @ rest) = Some (length c)"
        using find_pos_at_chunk [OF before [OF sp0]] by (simp add: find_pos_prefix_0)
      show "length c \<le> p" if "(sp, i) \<in> set (special_token_map t)" "find_pos sp (c @ sp0 @ rest) = Some p" for sp i p
        using find_pos_at_chunk [OF before [OF that(1)]] that(2) by (cases "find_pos sp (sp0 @ rest)") auto
    qed simp
    with tokenize_plain [OF _ none refl] False special show ?thesis
      by (simp add: option.map_comp comp_def)
  qed
qed

text \<open>The special map that initialisation registers for the Qwen tokens.\<close>

definition qwen_specials :: "tokenizer \<Rightarrow> bool" where
  "qwen_specials t \<longleftrightarrow> special_token_map t =
     [(''<|im_start|>'', 151644), (''<|im_end|>'', 151645), (''<|endoftext|>'', 151643)]"

lemma qwen_specialsD:
  assumes "qwen_specials t"
  shows "bracketed t"
    and "special_at (special_token_map t) (''<|im_start|>'' @ r) = Some (''<|im_start|>'', 151644)"
    and "special_at (special_token_map t) (''<|im_end|>'' @ r) = Some (''<|im_end|>'', 151645)"
  using assms by (auto simp: qwen_specials_def bracketed_def)

lemma tokenize_im:
  assumes "qwen_specials t" and "plain t c"
  shows "tokenize t (c @ ''<|im_start|>'' @ r) = map_option (\<lambda>ids. tokenize_chunk t c @ 151644 # ids) (tokenize t r)"
    and "tokenize t (c @ ''<|im_end|>'' @ r) = map_option (\<lambda>ids. tokenize_chunk t c @ 151645 # ids) (tokenize t r)"
proof -
  note Q = qwen_specialsD [OF assms(1)]
  have mem: "(''<|im_start|>'', 151644) \<in> set (special_token_map t)" "(''<|im_end|>'', 151645) \<in> set (special_token_map t)"
    using assms(1) by (simp_all add: qwen_specials_def)
  show "tokenize t (c @ ''<|im_start|>'' @ r) = map_option (\<lambda>ids. tokenize_chunk t c @ 151644 # ids) (tokenize t r)"
    by (rule tokenize_chunk_special [OF Q(1) assms(2) mem(1) Q(2)])
  show "tokenize t (c @ ''<|im_end|>'' @ r) = map_option (\<lambda>ids. tokenize_chunk t c @ 151645 # ids) (tokenize t r)"
    by (rule tokenize_chunk_special [OF Q(1) assms(2) mem(2) Q(3)])
qed

lemma plain_tokenize: "plain t c \<Longrightarrow> tokenize t c = Some (tokenize_chunk t c)"
  by (rule tokenize_no_special) (simp add: plain_def)

section \<open>The built-in vocabulary\<close>

lemma map_of_byte_entries:
  "map_of (foldl (\<lambda>v i. AList.update (marker @ [byte i]) (of_nat i) v) v0 is) k =
   (case find (\<lambda>i. marker @ [byte i] = k) (rev is) of None \<Rightarrow> map_of v0 k | Some i \<Rightarrow> Some (of_nat i))"
  by (induction "is" rule: rev_induct) auto

lemma byte_inj: "i < 256 \<Longrightarrow> j < 256 \<Longrightarrow> byte i = byte j \<longleftrightarrow> i = j"
  by (simp add: byte_def)

lemma minimal_vocab_single: "map_of (setup_minimal_vocab []) [c] = None"
proof -
  have "find (\<lambda>i. marker @ [byte i] = [c]) (rev [0..<256]) = None"
    by (simp add: find_None_iff marker_def)
  then show ?thesis by (simp add: setup_minimal_vocab_def map_of_byte_entries)
qed

lemma minimal_vocab_byte:
  assumes "i < 256"
  shows "map_of (setup_minimal_vocab []) (marker @ [byte i]) = Some (of_nat i)"
proof -
  have "find (\<lambda>j. marker @ [byte j] = marker @ [byte i]) (rev [0..<256]) = Some i"
  proof (rule find_Some_iff [THEN iffD2], intro exI conjI allI impI)
    show "255 - i < length (rev [0..<256])" by simp
    show "marker @ [byte (rev [0..<256] ! (255 - i))] = marker @ [byte i]" "i = rev [0..<256] ! (255 - i)"
      using assms by (simp_all add: rev_nth)
    show "marker @ [byte (rev [0..<256] ! j)] \<noteq> marker @ [byte i]" if "j < 255 - i" for j
      using that assms by (simp add: rev_nth byte_inj)
  qed
  then show ?thesis by (simp add: setup_minimal_vocab_def map_of_byte_entries)
qed

lemma minimal_vocab_entries:
  "(tok, i) \<in> set (setup_minimal_vocab []) \<Longrightarrow>
   (tok, i) \<in> {(''<|endoftext|>'', 151643), (''<|im_start|>'', 151644), (''<|im_end|>'', 151645)} \<or>
   (\<exists>n < 256. tok = marker @ [byte n] \<and> i = of_nat n)"
proof -
  have "(tok, i) \<in> set (foldl (\<lambda>v i. AList.update (marker @ [byte i]) (of_nat i) v) v0 is) \<Longrightarrow>
      (tok, i) \<in> set v0 \<or> (\<exists>n \<in> set is. tok = marker @ [byte n] \<and> i = of_nat n)" for v0 "is"
    by (induction "is" rule: rev_induct) (auto dest!: in_set_update)
  from this [of _ "[0..<256]"] show "(tok, i) \<in> set (setup_minimal_vocab []) \<Longrightarrow> ?thesis"
    unfolding setup_minimal_vocab_def by fastforce
qed

lemma reverse_vocab:
  assumes "(tok, i) \<in> set vs" and "\<And>tok'. (tok', i) \<in> set vs \<Longrightarrow> tok' = tok"
  shows "map_of (foldl (\<lambda>m (tok, i). AList.update i tok m) m0 vs) i = Some tok"
  using assms
proof (induction vs rule: rev_induct)
  case (snoc x vs)
  obtain tok' i' where x: "x = (tok', i')" by fastforce
  show ?case
  proof (cases "i' = i")
    case True
    then show ?thesis using snoc.prems(2) by (simp add: x)
  next
    case False
    have "map_of (foldl (\<lambda>m (tok, i). AList.update i tok m) m0 vs) i = Some tok"
    proof (rule snoc.IH)
      show "(tok, i) \<in> set vs" using snoc.prems(1) False by (simp add: x)
      show "tok' = tok" if "(tok', i) \<in> set vs" for tok' by (rule snoc.prems(2)) (simp add: that)
    qed
    with False show ?thesis by (simp add: x)
  qed
qed simp

lemma minimal_reverse:
  assumes "n < 256"
  shows "map_of (foldl (\<lambda>m (tok, i). AList.update i tok m) [] (setup_minimal_vocab [])) (of_nat n) = Some (marker @ [byte n])"
proof (rule reverse_vocab)
  show "(marker @ [byte n], of_nat n) \<in> set (setup_minimal_vocab [])"
    using minimal_vocab_byte [OF assms] by (rule map_of_SomeD)
  have small: "(of_nat m :: token_id) = of_nat n \<longleftrightarrow> m = n" if "m < 256" for m
    using assms that by (simp add: of_nat_inverse unat_of_nat word_unat_eq_iff)
  have "(of_nat n :: token_id) \<noteq> 151643" "(of_nat n :: token_id) \<noteq> 151644" "(of_nat n :: token_id) \<noteq> 151645"
    using assms by (simp_all add: word_unat_eq_iff unat_of_nat)
  then show "tok' = marker @ [byte n]" if "(tok', of_nat n) \<in> set (setup_minimal_vocab [])" for tok'
    using minimal_vocab_entries [OF that] small by (metis (no_types, lifting) insertE prod.inject singletonD)
qed

definition minimal_tokenizer :: "token_files \<Rightarrow> tokenizer" where
  "minimal_tokenizer F = snd (tk_initialize F default_tokenizer_config new_tokenizer)"

lemma minimal_tokenizer_fields:
  "initialized (minimal_tokenizer F)" "qwen_specials (minimal_tokenizer F)"
  "vocab (minimal_tokenizer F) = setup_minimal_vocab []"
  "id_to_token (minimal_tokenizer F) = foldl (\<lambda>m (tok, i). AList.update i tok m) [] (setup_minimal_vocab [])"
  "tk_config (minimal_tokenizer F) = default_tokenizer_config"
  by (simp_all add: minimal_tokenizer_def tk_initialize_def load_vocab_def load_merges_def new_tokenizer_def
      default_tokenizer_config_def register_special_tokens_def default_special_tokens_def qwen_specials_def Let_def)

lemma minimal_chunk: "tokenize_chunk (minimal_tokenizer F) s = map (\<lambda>c. of_nat (of_char c)) s"
  by (simp add: tokenize_chunk_def minimal_tokenizer_fields minimal_vocab_single)

section \<open>Properties\<close>

text \<open>
  C14. Encoding ends on every text for every tokenizer whose special strings are not empty, in
  particular for the default special tokens.
\<close>

theorem encode_total:
  assumes "initialized t" and "specials_ok t"
  shows "\<exists>ids. encode t s add_special = Some (Inr ids)"
  using tokenize_total [OF assms(2), of s] assms(1) by (auto simp: encode_def)

definition no_files :: token_files where
  "no_files = \<lparr>read_vocab = (\<lambda>p. None), read_lines = (\<lambda>p. None)\<rparr>"

theorem encode_total_witness:
  "\<exists>ids. encode (minimal_tokenizer no_files) ''<|im_start|>user'' True = Some (Inr ids)"
  by (rule encode_total) (simp_all add: minimal_tokenizer_fields bracketed_specials_ok qwen_specialsD)

text \<open>
  C18. Decoding the encoding of a text gives the text back, when the text contains no special string and
  every byte of it is a single-byte token of the vocabulary whose id decodes to that byte.
\<close>

theorem encode_decode_roundtrip:
  assumes "initialized t" and "plain t s"
    and "\<forall>c \<in> set s. \<exists>i. map_of (vocab t) [c] = Some i \<and> map_of (id_to_token t) i = Some [c]"
  shows "\<exists>ids. encode t s False = Some (Inr ids) \<and> length ids = length s \<and> decode t ids = Inr s"
proof -
  have "concat (map (\<lambda>i. case decode_token t i of Inl e \<Rightarrow> [] | Inr s \<Rightarrow> s) (tokenize_chunk t s)) = s"
    using assms(3) by (induction s) (auto simp: tokenize_chunk_def decode_token_def)
  moreover have "encode t s False = Some (Inr (tokenize_chunk t s))"
    using assms(1) plain_tokenize [OF assms(2)] by (simp add: encode_def)
  moreover have "length (tokenize_chunk t s) = length s" by (simp add: tokenize_chunk_def)
  ultimately show ?thesis using assms(1) by (auto simp: decode_def)
qed

definition two_byte_files :: token_files where
  "two_byte_files = \<lparr>read_vocab = (\<lambda>p. Some (Inr [(''a'', 5), (''b'', 9)])), read_lines = (\<lambda>p. None)\<rparr>"

theorem encode_decode_roundtrip_witness:
  "let t = snd (tk_initialize two_byte_files (default_tokenizer_config\<lparr>vocab_file := ''v''\<rparr>) new_tokenizer)
   in \<exists>ids. encode t ''ab'' False = Some (Inr ids) \<and> decode t ids = Inr ''ab''"
proof -
  let ?t = "snd (tk_initialize two_byte_files (default_tokenizer_config\<lparr>vocab_file := ''v''\<rparr>) new_tokenizer)"
  have "initialized ?t" "plain ?t ''ab''"
    "\<forall>c \<in> set ''ab''. \<exists>i. map_of (vocab ?t) [c] = Some i \<and> map_of (id_to_token ?t) i = Some [c]"
    by (simp_all add: tk_initialize_def load_vocab_def load_merges_def new_tokenizer_def two_byte_files_def plain_def
        default_tokenizer_config_def register_special_tokens_def default_special_tokens_def Let_def sublist_Cons_right)
  from encode_decode_roundtrip [OF this] show ?thesis by (auto simp: Let_def)
qed

text \<open>
  With the built-in vocabulary a text without special strings is encoded byte by byte, and decoding
  does not give it back: every byte comes out preceded by the two marker bytes, because the vocabulary
  holds marked bytes only and the comparison that should remove the marker never holds.
\<close>

theorem minimal_vocab_roundtrip_fails:
  assumes "plain (minimal_tokenizer F) s"
  shows "encode (minimal_tokenizer F) s False = Some (Inr (map (\<lambda>c. of_nat (of_char c)) s)) \<and>
    decode (minimal_tokenizer F) (map (\<lambda>c. of_nat (of_char c)) s) = Inr (concat (map (\<lambda>c. marker @ [c]) s))"
proof -
  let ?t = "minimal_tokenizer F"
  have "decode_token ?t (of_nat (of_char c)) = Inr (marker @ [c])" for c
    using minimal_reverse [of "of_char c"] by (simp add: decode_token_def minimal_tokenizer_fields byte_def)
  then have "decode ?t (map (\<lambda>c. of_nat (of_char c)) s) = Inr (concat (map (\<lambda>c. marker @ [c]) s))"
    by (simp add: decode_def minimal_tokenizer_fields comp_def)
  moreover have "encode ?t s False = Some (Inr (map (\<lambda>c. of_nat (of_char c)) s))"
    using plain_tokenize [OF assms] by (simp add: encode_def minimal_tokenizer_fields minimal_chunk)
  ultimately show ?thesis by simp
qed

theorem minimal_vocab_roundtrip_fails_witness:
  "decode (minimal_tokenizer no_files) [104] = Inr (marker @ ''h'')"
proof -
  have "plain (minimal_tokenizer no_files) ''h''"
    using minimal_tokenizer_fields(2) by (simp add: plain_def qwen_specials_def sublist_Cons_right)
  from minimal_vocab_roundtrip_fails [OF this] show ?thesis by simp
qed

end
