(* ===== verification/Stop_Checker.thy ===== *)
theory Stop_Checker
  imports Tokenizer Api_Types
begin

text \<open>
  \<^verbatim>\<open>src/core/stop_checker.cpp\<close>: when generation stops. The tokenizer contributes its special tokens; a
  null tokenizer is \<^const>\<open>None\<close>.
\<close>

record stop_config =
  stop_sequences :: "string list"
  stop_token_ids :: "token_id list"
  stop_max_tokens :: int32
  include_stop_str_in_output :: bool

record stop_check_result =
  should_stop :: bool
  stop_reason :: finish_reason
  matched_stop_sequence :: string
  matched_stop_token :: int32

definition no_stop :: stop_check_result where
  "no_stop = \<lparr>should_stop = False, stop_reason = NoReason, matched_stop_sequence = '''', matched_stop_token = -1\<rparr>"

definition ends_with :: "string \<Rightarrow> string \<Rightarrow> bool" where
  "ends_with s seq \<longleftrightarrow> length s \<ge> length seq \<and> drop (length s - length seq) s = seq"

fun find_stop_sequence :: "string \<Rightarrow> string list \<Rightarrow> string option" where
  "find_stop_sequence s [] = None"
| "find_stop_sequence s (seq # seqs) =
     (if seq = '''' then find_stop_sequence s seqs
      else if ends_with s seq then Some seq
      else find_stop_sequence s seqs)"

definition is_eos :: "special_tokens option \<Rightarrow> token_id \<Rightarrow> bool" where
  "is_eos sp i = (case sp of None \<Rightarrow> False | Some sp \<Rightarrow> i = eos_token_id sp)"

definition is_im_end :: "special_tokens option \<Rightarrow> token_id \<Rightarrow> bool" where
  "is_im_end sp i = (case sp of None \<Rightarrow> False | Some sp \<Rightarrow> i = im_end_id sp)"

definition check_stop :: "special_tokens option \<Rightarrow> token_id list \<Rightarrow> string \<Rightarrow> stop_config \<Rightarrow> stop_check_result" where
  "check_stop sp toks out cfg =
     (if sint (stop_max_tokens cfg) > 0 \<and> sint (to_int32 (sz toks)) \<ge> sint (stop_max_tokens cfg)
      then no_stop\<lparr>should_stop := True, stop_reason := Length\<rparr>
      else if toks \<noteq> [] \<and> (is_eos sp (last toks) \<or> is_im_end sp (last toks) \<or> last toks \<in> set (stop_token_ids cfg))
      then no_stop\<lparr>should_stop := True, stop_reason := Stop, matched_stop_token := last toks\<rparr>
      else if stop_sequences cfg \<noteq> [] \<and> out \<noteq> ''''
      then (case find_stop_sequence out (stop_sequences cfg) of
              Some seq \<Rightarrow> no_stop\<lparr>should_stop := True, stop_reason := Stop, matched_stop_sequence := seq\<rparr>
            | None \<Rightarrow> no_stop)
      else no_stop)"

definition is_stop_token :: "special_tokens option \<Rightarrow> token_id \<Rightarrow> stop_config \<Rightarrow> bool" where
  "is_stop_token sp i cfg \<longleftrightarrow> is_eos sp i \<or> is_im_end sp i \<or> i \<in> set (stop_token_ids cfg)"

definition trim_stop_sequence :: "string \<Rightarrow> string \<Rightarrow> string" where
  "trim_stop_sequence s seq =
     (if seq = '''' then s else if ends_with s seq then take (length s - length seq) s else s)"

section \<open>Lemmas\<close>

lemma ends_with_append: "ends_with s seq \<longleftrightarrow> (\<exists>u. s = u @ seq)"
  unfolding ends_with_def
proof
  assume "length seq \<le> length s \<and> drop (length s - length seq) s = seq"
  then show "\<exists>u. s = u @ seq" by (metis append_take_drop_id)
qed auto

lemma find_stop_sequence_Some:
  "find_stop_sequence s seqs = Some seq \<Longrightarrow> seq \<in> set seqs \<and> seq \<noteq> '''' \<and> ends_with s seq"
  by (induction s seqs rule: find_stop_sequence.induct) (auto split: if_splits)

lemma find_stop_sequence_None:
  "find_stop_sequence s seqs = None \<longleftrightarrow> (\<forall>seq \<in> set seqs. seq \<noteq> '''' \<longrightarrow> \<not> ends_with s seq)"
  by (induction s seqs rule: find_stop_sequence.induct) auto

lemma trim_stop_sequence_append: "seq \<noteq> '''' \<Longrightarrow> trim_stop_sequence (u @ seq) seq = u"
  by (simp add: trim_stop_sequence_def ends_with_append)

lemma sint_int32_size:
  assumes "length xs < 2 ^ 31"
  shows "sint (to_int32 (sz xs)) = int (length xs)"
proof -
  have "take_bit 64 (length xs) = length xs" using assms by (simp add: take_bit_nat_eq_self)
  then have "to_int32 (sz xs) = of_nat (length xs)" by (simp add: unsigned_of_nat)
  moreover have "signed_take_bit 31 (int (length xs)) = int (length xs)"
    using assms by (intro signed_take_bit_int_eq_self) auto
  ultimately show ?thesis by (simp add: signed_of_nat)
qed

section \<open>Properties\<close>

text \<open>
  C36. The stop check, on fewer than \<open>2^31\<close> tokens: it reports \<open>length\<close> exactly when a positive token
  limit is reached (before any other reason), and \<open>stop\<close> exactly when the limit is not reached and the
  last token is the end token, the turn end token or a configured stop token, or the text ends with a
  non-empty stop sequence; otherwise generation continues.
\<close>

theorem check_stop_iff:
  assumes "length toks < 2 ^ 31"
    and "limit \<longleftrightarrow> 0 < sint (stop_max_tokens cfg) \<and> sint (stop_max_tokens cfg) \<le> int (length toks)"
    and "stop \<longleftrightarrow> (toks \<noteq> [] \<and> is_stop_token sp (last toks) cfg) \<or>
           (\<exists>seq \<in> set (stop_sequences cfg). seq \<noteq> '''' \<and> ends_with out seq)"
  shows "should_stop (check_stop sp toks out cfg) = (limit \<or> stop) \<and>
    stop_reason (check_stop sp toks out cfg) = (if limit then Length else if stop then Stop else NoReason)"
proof -
  have "out \<noteq> ''''" if "\<exists>seq \<in> set (stop_sequences cfg). seq \<noteq> '''' \<and> ends_with out seq"
    using that by (auto simp: ends_with_append)
  then show ?thesis
    using assms(2,3) sint_int32_size [OF assms(1)] find_stop_sequence_None [of out "stop_sequences cfg"]
      find_stop_sequence_Some [of out "stop_sequences cfg"]
    by (auto simp: check_stop_def is_stop_token_def no_stop_def split: option.splits)
qed

theorem check_stop_iff_witness:
  "stop_reason (check_stop (Some default_special_tokens) [5, 151645] ''ab''
     \<lparr>stop_sequences = [''x''], stop_token_ids = [], stop_max_tokens = 2, include_stop_str_in_output = False\<rparr>) = Length"
  using check_stop_iff [of "[5, 151645]" True
      "\<lparr>stop_sequences = [''x''], stop_token_ids = [], stop_max_tokens = 2, include_stop_str_in_output = False\<rparr>"
      True "Some default_special_tokens" "''ab''"]
  by (simp add: is_stop_token_def is_eos_def default_special_tokens_def)

text \<open>
  When a stop sequence matches, trimming removes exactly it: the text is the trimmed text followed
  by the matched sequence, which is the first configured one that the text ends with. Trimming a
  sequence the text does not end with changes nothing.
\<close>

theorem trim_removes_match:
  "(find_stop_sequence out seqs = Some seq \<longrightarrow>
      out = trim_stop_sequence out seq @ seq \<and> seq \<noteq> '''' \<and>
      (\<exists>before after. seqs = before @ seq # after \<and> (\<forall>s \<in> set before. s \<noteq> '''' \<longrightarrow> \<not> ends_with out s))) \<and>
   (\<not> ends_with out seq \<longrightarrow> trim_stop_sequence out seq = out)"
proof (intro conjI impI)
  assume found: "find_stop_sequence out seqs = Some seq"
  then have s: "seq \<noteq> ''''" "ends_with out seq" using find_stop_sequence_Some by blast+
  then show "out = trim_stop_sequence out seq @ seq" "seq \<noteq> ''''"
    using trim_stop_sequence_append by (auto simp: ends_with_append)
  show "\<exists>before after. seqs = before @ seq # after \<and> (\<forall>s \<in> set before. s \<noteq> '''' \<longrightarrow> \<not> ends_with out s)"
    using found
  proof (induction seqs)
    case (Cons x seqs)
    show ?case
    proof (cases "x \<noteq> '''' \<and> ends_with out x")
      case True
      then show ?thesis using Cons.prems by (intro exI [of _ "[]"] exI [of _ seqs]) auto
    next
      case False
      then have "find_stop_sequence out seqs = Some seq" using Cons.prems by (auto split: if_splits)
      from Cons.IH [OF this] obtain before after where
        "seqs = before @ seq # after" "\<forall>s \<in> set before. s \<noteq> '''' \<longrightarrow> \<not> ends_with out s" by blast
      then show ?thesis using False by (intro exI [of _ "x # before"] exI [of _ after]) auto
    qed
  qed simp
qed (auto simp: trim_stop_sequence_def)

theorem trim_removes_match_witness:
  "trim_stop_sequence ''the END'' '' END'' = ''the''"
  using trim_removes_match [of "''the END''" "[''x'', '' END'']" "'' END''"]
  by (simp add: ends_with_def)

end
