(* ===== verification/Runtime_Interface.thy ===== *)
theory Runtime_Interface
  imports Kv_Types
begin

text \<open>
  \<^verbatim>\<open>include/backend/runtime_interface.hpp\<close>: the data passed to a model runtime, and the runtime
  \<open>IModelRuntime\<close> as a record of functions over its state \<open>'r\<close>. Logits are reals. The runtime receives
  the KV handle and the cancellation flag of the request (\<^const>\<open>None\<close> for a null token).

  Random numbers: the draws of \<open>std::discrete_distribution\<close> and its companions are left to the
  implementation by the C++ standard, so a generator is a state of type \<open>'g\<close> with the functions of the
  record \<open>std_random\<close>; \<open>random_laws\<close> states the ranges the standard guarantees.
\<close>

section \<open>Model and tensors\<close>

record model_config =
  model_path :: string
  max_batch_size :: int32
  mc_max_seq_len :: int32
  mc_vocab_size :: int32
  mc_num_layers :: int32
  hidden_size :: int32
  num_heads :: int32
  mc_num_kv_heads :: int32
  mc_head_dim :: int32
  use_fp16 :: bool
  mc_device_ids :: "int32 list"
  mc_tensor_parallel :: bool

definition default_model_config :: model_config where
  "default_model_config = \<lparr>model_path = '''', max_batch_size = 1, mc_max_seq_len = 70000, mc_vocab_size = 152064,
     mc_num_layers = 64, hidden_size = 5120, num_heads = 40, mc_num_kv_heads = 8, mc_head_dim = 128,
     use_fp16 = True, mc_device_ids = [0, 1], mc_tensor_parallel = True\<rparr>"

record logits =
  logit_data :: "real list"
  logits_vocab_size :: int32

definition empty_logits :: logits where
  "empty_logits = \<lparr>logit_data = [], logits_vocab_size = 0\<rparr>"

record prefill_input =
  input_ids :: "int32 list"
  pf_kv_cache :: kv_cache_handle
  pf_seq_len :: int32

record prefill_output =
  pf_logits :: logits
  processed_tokens :: int32

record decode_input =
  dec_token :: int32
  dec_kv_cache :: kv_cache_handle
  current_pos :: int32

record decode_output =
  dec_logits :: logits

record 'r model_runtime =
  rt_prefill :: "prefill_input \<Rightarrow> bool option \<Rightarrow> 'r \<Rightarrow> prefill_output result \<times> 'r"
  rt_decode_step :: "decode_input \<Rightarrow> bool option \<Rightarrow> 'r \<Rightarrow> decode_output result \<times> 'r"

section \<open>Random numbers\<close>

record 'g std_random =
  seed_rng :: "uint32 \<Rightarrow> 'g"
  next_uint32 :: "'g \<Rightarrow> uint32 \<times> 'g"
  draw_discrete :: "real list \<Rightarrow> 'g \<Rightarrow> nat \<times> 'g"
  draw_int :: "int \<Rightarrow> int \<Rightarrow> 'g \<Rightarrow> int \<times> 'g"
  draw_unit :: "'g \<Rightarrow> real \<times> 'g"

definition random_laws :: "'g std_random \<Rightarrow> bool" where
  "random_laws R \<longleftrightarrow>
     (\<forall>ws g. ws \<noteq> [] \<longrightarrow> fst (draw_discrete R ws g) < length ws) \<and>
     (\<forall>lo hi g. lo \<le> hi \<longrightarrow> lo \<le> fst (draw_int R lo hi g) \<and> fst (draw_int R lo hi g) \<le> hi)"

text \<open>A counter as a reference generator: it draws the entry whose index is the counter, modulo the length.\<close>

definition counter_random :: "nat std_random" where
  "counter_random = \<lparr>seed_rng = unat, next_uint32 = (\<lambda>g. (of_nat g, Suc g)),
     draw_discrete = (\<lambda>ws g. (g mod length ws, Suc g)),
     draw_int = (\<lambda>lo hi g. (lo + int g mod (hi - lo + 1), Suc g)), draw_unit = (\<lambda>g. (1 / 2, Suc g))\<rparr>"

lemma counter_random_laws: "random_laws counter_random"
proof -
  have "lo + int g mod (hi - lo + 1) \<le> hi" if "lo \<le> hi" for lo hi :: int and g
    using pos_mod_bound [of "hi - lo + 1" "int g"] that by linarith
  then show ?thesis by (simp add: random_laws_def counter_random_def)
qed

end
