(* ===== verification/Sampler.thy ===== *)
theory Sampler
  imports Runtime_Interface
begin

text \<open>
  \<^verbatim>\<open>src/core/sampler.cpp\<close>: greedy, nucleus and top-k sampling. \<open>float\<close> and \<open>double\<close> are reals.
  \<open>std::partial_sort\<close> is a stable descending sort cut at the requested length: the standard leaves the
  order of equal elements open. \<open>sample_top_k\<close> with a limit below one reads an empty vector, which has no
  result (\<^const>\<open>None\<close>).
\<close>

section \<open>Definitions\<close>

record sampling_params =
  sp_temperature :: real
  sp_top_p :: real
  sp_top_k :: real
  repetition_penalty :: real
  sp_seed :: "int64 option"

definition default_sampling_params :: sampling_params where
  "default_sampling_params = \<lparr>sp_temperature = 1, sp_top_p = 1, sp_top_k = 0, repetition_penalty = 1, sp_seed = None\<rparr>"

record sample_result =
  sr_token_id :: int32
  sr_probability :: real
  sr_logit :: real

text \<open>\<open>std::max_element\<close>: the first position of the largest element.\<close>

fun max_element :: "real list \<Rightarrow> nat" where
  "max_element [] = 0"
| "max_element [x] = 0"
| "max_element (x # y # xs) =
     (let j = max_element (y # xs) in if x < (y # xs) ! j then Suc j else 0)"

definition sample_greedy :: "logits \<Rightarrow> sample_result" where
  "sample_greedy l =
     (let i = max_element (logit_data l)
      in \<lparr>sr_token_id = of_nat i, sr_probability = 1, sr_logit = logit_data l ! i\<rparr>)"

definition apply_temperature :: "real list \<Rightarrow> real \<Rightarrow> real list" where
  "apply_temperature ls temperature = (if temperature = 1 then ls else map (\<lambda>x. x / temperature) ls)"

fun apply_repetition_penalty :: "real list \<Rightarrow> int32 list \<Rightarrow> real \<Rightarrow> real list" where
  "apply_repetition_penalty ls [] penalty = ls"
| "apply_repetition_penalty ls (t # ts) penalty =
     apply_repetition_penalty
       (if sint t \<ge> 0 \<and> nat (sint t) < length ls
        then ls[nat (sint t) := (if ls ! nat (sint t) > 0 then ls ! nat (sint t) / penalty
                                 else ls ! nat (sint t) * penalty)]
        else ls) ts penalty"

definition softmax :: "real list \<Rightarrow> real list" where
  "softmax ls =
     (let m = ls ! max_element ls; es = map (\<lambda>x. exp (x - m)) ls in map (\<lambda>e. e / sum_list es) es)"

text \<open>The indices of the \<open>k\<close> largest logits, in descending order of their logits.\<close>

definition top_indices :: "real list \<Rightarrow> nat \<Rightarrow> nat list" where
  "top_indices ls k = take k (sort_key (\<lambda>i. - (ls ! i)) [0..<length ls])"

definition exp_logits :: "real list \<Rightarrow> nat list \<Rightarrow> real list" where
  "exp_logits ls idx = map (\<lambda>i. exp (ls ! i - ls ! (idx ! 0))) idx"

text \<open>The loop that finds the nucleus: entries are added until the cumulative probability reaches \<open>p\<close>.\<close>

fun nucleus_size :: "real \<Rightarrow> real \<Rightarrow> real \<Rightarrow> real list \<Rightarrow> nat" where
  "nucleus_size sum_exp p cumsum [] = 0"
| "nucleus_size sum_exp p cumsum (e # es) =
     (let cumsum' = cumsum + e / sum_exp
      in if cumsum' \<ge> p then 1 else Suc (nucleus_size sum_exp p cumsum' es))"

definition max_candidates :: "nat \<Rightarrow> real \<Rightarrow> nat" where
  "max_candidates n top_p = min n (if top_p \<ge> 9/10 then 1000 else 256)"

definition sample_top_p :: "'g std_random \<Rightarrow> logits \<Rightarrow> real \<Rightarrow> 'g \<Rightarrow> sample_result" where
  "sample_top_p R l top_p g =
     (let ls = logit_data l; idx = top_indices ls (max_candidates (length ls) top_p);
          es = exp_logits ls idx; k = nucleus_size (sum_list es) top_p 0 es;
          nucleus = take k es; probs = map (\<lambda>e. e / sum_list nucleus) nucleus;
          i = fst (draw_discrete R probs g)
      in \<lparr>sr_token_id = of_nat (idx ! i), sr_probability = probs ! i, sr_logit = ls ! (idx ! i)\<rparr>)"

definition sample_top_k :: "'g std_random \<Rightarrow> logits \<Rightarrow> real \<Rightarrow> 'g \<Rightarrow> sample_result option" where
  "sample_top_k R l top_k g =
     (let ls = logit_data l; k = min (nat \<lfloor>top_k\<rfloor>) (length ls); idx = top_indices ls k;
          es = exp_logits ls idx; probs = map (\<lambda>e. e / sum_list es) es;
          i = fst (draw_discrete R probs g)
      in if k = 0 then None
         else Some \<lparr>sr_token_id = of_nat (idx ! i), sr_probability = probs ! i, sr_logit = ls ! (idx ! i)\<rparr>)"

text \<open>\<open>sample\<close>; the second component is the state of \<open>default_rng_\<close>.\<close>

definition sample :: "'g std_random \<Rightarrow> logits \<Rightarrow> sampling_params \<Rightarrow> int32 list \<Rightarrow> 'g \<Rightarrow> sample_result result option \<times> 'g" where
  "sample R l params previous g =
     (if logit_data l = [] then (Some (Inl (internal ''Empty logits'')), g)
      else let ls = (if repetition_penalty params \<noteq> 1 \<and> previous \<noteq> []
                     then apply_repetition_penalty (logit_data l) previous (repetition_penalty params)
                     else logit_data l)
      in if sp_temperature params \<le> 0 then (Some (Inr (sample_greedy (l\<lparr>logit_data := ls\<rparr>))), g)
      else let ls' = apply_temperature ls (sp_temperature params);
               (rng, g') = (case sp_seed params of
                  Some s \<Rightarrow> (seed_rng R (ucast s), g)
                | None \<Rightarrow> (case next_uint32 R g of (s, g') \<Rightarrow> (seed_rng R s, g')))
      in if sp_top_k params > 0
         then (map_option Inr (sample_top_k R (l\<lparr>logit_data := ls'\<rparr>) (sp_top_k params) rng), g')
         else (Some (Inr (sample_top_p R (l\<lparr>logit_data := ls'\<rparr>) (sp_top_p params) rng)), g'))"

section \<open>Greedy\<close>

lemma max_element_less: "ls \<noteq> [] \<Longrightarrow> max_element ls < length ls"
  by (induction ls rule: max_element.induct) (auto simp: Let_def)

lemma max_element_ge: "i < length ls \<Longrightarrow> ls ! i \<le> ls ! max_element ls"
proof (induction ls arbitrary: i rule: max_element.induct)
  case (3 x y xs)
  show ?case
  proof (cases i)
    case (Suc j)
    then have "(y # xs) ! j \<le> (y # xs) ! max_element (y # xs)" using 3 by simp
    then show ?thesis using Suc by (auto simp: Let_def not_less)
  qed (auto simp: Let_def)
qed auto

section \<open>Candidates and probabilities\<close>

lemma length_top_indices: "length (top_indices ls k) = min k (length ls)"
  by (simp add: top_indices_def min.commute)

lemma top_indices_nth: "i < length (top_indices ls k) \<Longrightarrow> top_indices ls k ! i < length ls"
proof -
  assume "i < length (top_indices ls k)"
  then have "top_indices ls k ! i \<in> set (sort_key (\<lambda>i. - (ls ! i)) [0..<length ls])"
    unfolding top_indices_def by (metis in_set_takeD nth_mem)
  then show ?thesis by simp
qed

lemma top_indices_sorted: "sorted (map (\<lambda>i. - (ls ! i)) (top_indices ls k))"
  unfolding top_indices_def by (metis sorted_sort_key sorted_wrt_take take_map)

lemma top_indices_distinct: "distinct (top_indices ls k)"
  by (simp add: top_indices_def distinct_take)

lemma top_indices_best:
  assumes "j < length ls" and "j \<notin> set (top_indices ls k)" and "i \<in> set (top_indices ls k)"
  shows "ls ! j \<le> ls ! i"
proof -
  let ?s = "sort_key (\<lambda>i. - (ls ! i)) [0..<length ls]"
  have "sorted (map (\<lambda>i. - (ls ! i)) (take k ?s) @ map (\<lambda>i. - (ls ! i)) (drop k ?s))"
    by (metis append_take_drop_id map_append sorted_sort_key)
  moreover have "j \<in> set (drop k ?s)"
  proof -
    have "j \<in> set (take k ?s @ drop k ?s)" using assms(1) by (simp only: append_take_drop_id) simp
    with assms(2) show ?thesis by (auto simp only: top_indices_def set_append)
  qed
  ultimately show ?thesis using assms(3) by (fastforce simp: sorted_append top_indices_def)
qed

lemma exp_logits_pos: "e \<in> set (exp_logits ls idx) \<Longrightarrow> e > 0"
  by (auto simp: exp_logits_def)

lemma length_exp_logits [simp]: "length (exp_logits ls idx) = length idx"
  by (simp add: exp_logits_def)

lemma nucleus_size_le: "nucleus_size S p c es \<le> length es"
  by (induction S p c es rule: nucleus_size.induct) (auto simp: Let_def)

lemma nucleus_size_pos: "es \<noteq> [] \<Longrightarrow> nucleus_size S p c es > 0"
  by (cases es) (auto simp: Let_def)

text \<open>The nucleus is the shortest prefix whose cumulative probability reaches \<open>p\<close>, or everything.\<close>

lemma nucleus_size_reaches:
  "nucleus_size S p c es < length es \<Longrightarrow> p \<le> c + sum_list (map (\<lambda>e. e / S) (take (nucleus_size S p c es) es))"
  by (induction S p c es rule: nucleus_size.induct) (auto simp: Let_def split: if_splits simp: add.assoc)

lemma nucleus_size_least:
  "\<lbrakk>k < nucleus_size S p c es; 0 < k\<rbrakk> \<Longrightarrow> c + sum_list (map (\<lambda>e. e / S) (take k es)) < p"
proof (induction S p c es arbitrary: k rule: nucleus_size.induct)
  case (2 S p c e es)
  show ?case
  proof (cases "k = 1")
    case True
    with 2 show ?thesis by (auto simp: Let_def not_le split: if_splits)
  next
    case False
    then obtain k' where k: "k = Suc k'" "0 < k'" using 2 by (cases k) auto
    have ne: "\<not> p \<le> c + e / S" using 2 k by (auto simp: Let_def split: if_splits)
    then have "c + e / S + sum_list (map (\<lambda>e. e / S) (take k' es)) < p"
      using 2 k by (intro "2.IH") (auto simp: Let_def)
    then show ?thesis using k by (simp add: add.assoc)
  qed
qed simp

lemma sum_list_pos: "\<lbrakk>xs \<noteq> []; \<And>x. x \<in> set xs \<Longrightarrow> (x :: real) > 0\<rbrakk> \<Longrightarrow> sum_list xs > 0"
proof (induction xs)
  case (Cons x xs)
  then show ?case by (cases "xs = []") (simp_all add: add_pos_pos)
qed simp

lemma normalised:
  assumes "xs \<noteq> []" and "\<And>x. x \<in> set xs \<Longrightarrow> (x :: real) > 0"
  shows "sum_list (map (\<lambda>x. x / sum_list xs) xs) = 1" and "\<And>y. y \<in> set (map (\<lambda>x. x / sum_list xs) xs) \<Longrightarrow> y > 0"
proof -
  have pos: "sum_list xs > 0" using assms by (rule sum_list_pos)
  have "sum_list (map (\<lambda>x. x / c) xs) = sum_list xs / c" for c by (induction xs) (auto simp: add_divide_distrib)
  then show "sum_list (map (\<lambda>x. x / sum_list xs) xs) = 1" using pos by simp
  show "y > 0" if "y \<in> set (map (\<lambda>x. x / sum_list xs) xs)" for y using that assms(2) pos by auto
qed

lemma length_repetition_penalty [simp]: "length (apply_repetition_penalty ls ts p) = length ls"
  by (induction ls ts p rule: apply_repetition_penalty.induct) auto

lemma length_apply_temperature [simp]: "length (apply_temperature ls t) = length ls"
  by (simp add: apply_temperature_def)

text \<open>The entry a discrete draw selects among the first candidates.\<close>

lemma drawn_candidate:
  assumes "random_laws R" and "ls \<noteq> []" and "0 < m" and "m \<le> k" and "k \<le> length ls"
    and "length probs = m" and "i = fst (draw_discrete R probs g)"
  shows "i < m" and "top_indices ls k ! i < length ls"
proof -
  have "probs \<noteq> []" using assms(3,6) by auto
  then show "i < m" using assms by (auto simp: random_laws_def)
  then show "top_indices ls k ! i < length ls" using assms by (intro top_indices_nth) (simp add: length_top_indices)
qed

lemma sample_top_p_token:
  assumes "random_laws R" and ne: "logit_data l \<noteq> []"
  obtains i where "i < nucleus_size (sum_list (exp_logits (logit_data l) (top_indices (logit_data l)
        (max_candidates (length (logit_data l)) p)))) p 0
        (exp_logits (logit_data l) (top_indices (logit_data l) (max_candidates (length (logit_data l)) p)))"
    and "top_indices (logit_data l) (max_candidates (length (logit_data l)) p) ! i < length (logit_data l)"
    and "sample_top_p R l p g = \<lparr>sr_token_id = of_nat (top_indices (logit_data l) (max_candidates (length (logit_data l)) p) ! i),
       sr_probability = sr_probability (sample_top_p R l p g),
       sr_logit = logit_data l ! (top_indices (logit_data l) (max_candidates (length (logit_data l)) p) ! i)\<rparr>"
proof -
  define ls idx es k where "ls = logit_data l" and "idx = top_indices ls (max_candidates (length ls) p)"
    and "es = exp_logits ls idx" and "k = nucleus_size (sum_list es) p 0 es"
  let ?probs = "map (\<lambda>e. e / sum_list (take k es)) (take k es)"
  have c: "0 < max_candidates (length ls) p" "max_candidates (length ls) p \<le> length ls"
    using ne by (auto simp: max_candidates_def ls_def)
  then have len: "length es = max_candidates (length ls) p" by (simp add: es_def idx_def length_top_indices)
  then have "es \<noteq> []" using c by (metis less_numeral_extra(3) list.size(3))
  then have k: "0 < k" "k \<le> length es"
    unfolding k_def by (rule nucleus_size_pos, intro nucleus_size_le)
  define i where "i = fst (draw_discrete R ?probs g)"
  have "i < k" "idx ! i < length ls"
    using drawn_candidate [OF assms(1), of ls k "max_candidates (length ls) p" ?probs i g] k len c ne
    by (auto simp: i_def idx_def ls_def)
  then show thesis
    by (intro that [of i]) (simp_all add: sample_top_p_def Let_def ls_def idx_def es_def k_def i_def)
qed

section \<open>Properties\<close>

text \<open>
  C12. Whatever the parameters, when sampling returns a token it is a token of the vocabulary: its id is
  below the number of logits. Without a top-k limit sampling always returns a token for non-empty
  logits and an error only for empty ones.
\<close>

theorem sample_in_vocabulary:
  assumes "random_laws R" and "length (logit_data l) < 2 ^ 31"
  shows "(sp_top_k params \<le> 0 \<longrightarrow> logit_data l \<noteq> [] \<longrightarrow> (\<exists>r. fst (sample R l params prev g) = Some (Inr r))) \<and>
    (\<forall>r. fst (sample R l params prev g) = Some (Inr r) \<longrightarrow> unat (sr_token_id r) < length (logit_data l)) \<and>
    (logit_data l = [] \<longrightarrow> fst (sample R l params prev g) = Some (Inl (internal ''Empty logits'')))"
proof (intro conjI impI allI)
  have small: "unat (of_nat n :: int32) = n" if "n < length (logit_data l)" for n
    using that assms(2) by (simp add: unat_of_nat)
  fix r assume r: "fst (sample R l params prev g) = Some (Inr r)"
  then have ne: "logit_data l \<noteq> []" by (auto simp: sample_def split: if_splits)
  define ls where "ls = (if repetition_penalty params \<noteq> 1 \<and> prev \<noteq> []
     then apply_repetition_penalty (logit_data l) prev (repetition_penalty params) else logit_data l)"
  define l' where "l' = l\<lparr>logit_data := apply_temperature ls (sp_temperature params)\<rparr>"
  have len: "length ls = length (logit_data l)" "length (logit_data l') = length (logit_data l)"
    by (simp_all add: ls_def l'_def)
  consider "r = sample_greedy (l\<lparr>logit_data := ls\<rparr>)" | rng where "sample_top_k R l' (sp_top_k params) rng = Some r"
    | rng where "r = sample_top_p R l' (sp_top_p params) rng"
    using r ne unfolding sample_def ls_def [symmetric] l'_def Let_def by (auto split: if_splits prod.splits option.splits)
  then show "unat (sr_token_id r) < length (logit_data l)"
  proof cases
    case 1
    have "max_element ls < length (logit_data l)" using max_element_less [of ls] ne len by (metis length_0_conv)
    then show ?thesis using 1 small by (simp add: sample_greedy_def Let_def)
  next
    case (2 rng)
    define k where "k = min (nat \<lfloor>sp_top_k params\<rfloor>) (length (logit_data l'))"
    define probs where "probs = map (\<lambda>e. e / sum_list (exp_logits (logit_data l') (top_indices (logit_data l') k)))
        (exp_logits (logit_data l') (top_indices (logit_data l') k))"
    have k: "0 < k" "k \<le> length (logit_data l')" and tok: "sr_token_id r = of_nat (top_indices (logit_data l') k ! fst (draw_discrete R probs rng))"
      using 2 by (auto simp: sample_top_k_def Let_def k_def probs_def split: if_splits)
    have "top_indices (logit_data l') k ! fst (draw_discrete R probs rng) < length (logit_data l')"
      by (rule drawn_candidate(2) [OF assms(1), where m = k and probs = probs and g = rng])
        (use k ne len in \<open>auto simp: probs_def length_top_indices min_def\<close>)
    then show ?thesis using tok len small by simp
  next
    case (3 rng)
    have "logit_data l' \<noteq> []" using ne len by auto
    from sample_top_p_token [OF assms(1) this, of "sp_top_p params" rng] obtain n where
      "n < length (logit_data l')" "sr_token_id r = of_nat n" using 3 by (metis sample_result.select_convs(1))
    then show ?thesis using len small by simp
  qed
qed (auto simp: sample_def Let_def split: prod.splits option.splits)

theorem sample_in_vocabulary_witness:
  "\<exists>r. fst (sample counter_random \<lparr>logit_data = [0, 3, 2], logits_vocab_size = 3\<rparr>
      (default_sampling_params\<lparr>sp_seed := Some 7\<rparr>) [] 0) = Some (Inr r) \<and> unat (sr_token_id r) < 3"
  using sample_in_vocabulary [OF counter_random_laws, of "\<lparr>logit_data = [0, 3, 2], logits_vocab_size = 3\<rparr>"
      "default_sampling_params\<lparr>sp_seed := Some 7\<rparr>" "[]" 0]
  by (auto simp: default_sampling_params_def)

text \<open>
  Temperature zero (or below) is greedy decoding: the chosen token has the largest logit after the
  repetition penalty, its logit is reported, and no random number is drawn.
\<close>

theorem greedy_is_argmax:
  assumes "logit_data l \<noteq> []" and "length (logit_data l) < 2 ^ 31" and "sp_temperature params \<le> 0"
    and "ls = (if repetition_penalty params \<noteq> 1 \<and> prev \<noteq> []
           then apply_repetition_penalty (logit_data l) prev (repetition_penalty params) else logit_data l)"
  shows "\<exists>r. sample R l params prev g = (Some (Inr r), g) \<and> unat (sr_token_id r) < length ls \<and>
    sr_logit r = ls ! unat (sr_token_id r) \<and> (\<forall>x \<in> set ls. x \<le> sr_logit r)"
proof -
  have len: "length ls = length (logit_data l)" by (simp add: assms(4))
  then have lt: "max_element ls < length ls" using assms(1) by (intro max_element_less) auto
  then have "unat (of_nat (max_element ls) :: int32) = max_element ls"
    using assms(2) len by (simp add: unat_of_nat)
  moreover have "\<forall>x \<in> set ls. x \<le> ls ! max_element ls"
    using max_element_ge by (auto simp: in_set_conv_nth)
  ultimately show ?thesis
    using assms lt by (auto simp: sample_def sample_greedy_def Let_def)
qed

theorem greedy_is_argmax_witness:
  "\<exists>r. sample counter_random \<lparr>logit_data = [1, 5, 5, 2], logits_vocab_size = 4\<rparr>
      (default_sampling_params\<lparr>sp_temperature := 0\<rparr>) [] 9 = (Some (Inr r), 9) \<and> sr_logit r = 5"
proof -
  have "sample counter_random \<lparr>logit_data = [1, 5, 5, 2], logits_vocab_size = 4\<rparr>
      (default_sampling_params\<lparr>sp_temperature := 0\<rparr>) [] 9 =
      (Some (Inr \<lparr>sr_token_id = 1, sr_probability = 1, sr_logit = 5\<rparr>), 9)"
    by (simp add: sample_def sample_greedy_def default_sampling_params_def)
  with greedy_is_argmax [of "\<lparr>logit_data = [1, 5, 5, 2], logits_vocab_size = 4\<rparr>"
      "default_sampling_params\<lparr>sp_temperature := 0\<rparr>" _ "[]" counter_random 9]
  show ?thesis by (simp add: default_sampling_params_def)
qed



text \<open>
  A request with a seed is sampled reproducibly: the result does not depend on the shared random
  generator, which is left untouched. The generator is seeded anew at every call, so two steps with
  equal logits always give the same token.
\<close>

theorem seeded_sampling_reproducible:
  assumes "sp_seed params = Some s" and "repetition_penalty params = 1"
  shows "sample R l params prev g = (fst (sample R l params prev' g'), g)"
  using assms by (auto simp: sample_def Let_def)

theorem seeded_sampling_reproducible_witness:
  "sample counter_random \<lparr>logit_data = [1, 2], logits_vocab_size = 2\<rparr> (default_sampling_params\<lparr>sp_seed := Some 5\<rparr>) [1, 1] 100
   = (fst (sample counter_random \<lparr>logit_data = [1, 2], logits_vocab_size = 2\<rparr> (default_sampling_params\<lparr>sp_seed := Some 5\<rparr>) [] 0), 100)"
  by (rule seeded_sampling_reproducible) (simp_all add: default_sampling_params_def)

end
