(* ===== verification/Device_Manager.thy ===== *)
theory Device_Manager
  imports Cuda_Runtime
begin

text \<open>
  \<^verbatim>\<open>src/gpu/device_manager.cpp\<close>: device discovery, the choice between tensor parallelism and one GPU per
  request, and the round robin. CUDA is the parameter \<open>C\<close>.
\<close>

record device_info =
  dev_id :: int32
  dev_name :: string
  total_memory :: size_t
  free_memory :: size_t
  compute_capability_major :: int32
  compute_capability_minor :: int32
  dev_has_nvlink :: bool
  nvlink_peer_id :: int32

datatype gpu_strategy = TensorParallel | PerRequest | Pipeline

record device_manager_config =
  dm_device_ids :: "int32 list"
  default_strategy :: gpu_strategy
  context_threshold_for_tp :: size_t

definition default_device_config :: device_manager_config where
  "default_device_config = \<lparr>dm_device_ids = [0, 1], default_strategy = TensorParallel, context_threshold_for_tp = 20000\<rparr>"

record device_manager =
  dm_config :: device_manager_config
  devices :: "device_info list"
  has_nvlink :: bool
  round_robin_counter :: size_t

definition new_device_manager :: "device_manager_config \<Rightarrow> device_manager" where
  "new_device_manager cfg = \<lparr>dm_config = cfg, devices = [], has_nvlink = False, round_robin_counter = 0\<rparr>"

text \<open>The query loop; an error leaves the devices found so far.\<close>

fun query_devices ::
  "'c cuda \<Rightarrow> int32 \<Rightarrow> int32 list \<Rightarrow> device_info list \<Rightarrow> 'c \<Rightarrow> unit result \<times> device_info list \<times> 'c" where
  "query_devices C device_count [] ds c = (Inr (), ds, c)"
| "query_devices C device_count (d # ids) ds c =
     (if sint d \<ge> sint device_count then (Inl (internal (''Device '' @ int32_to_string d @ '' not found'')), ds, c)
      else case cudaGetDeviceProperties C d c of (err, props) \<Rightarrow>
        if err \<noteq> cudaSuccess
        then (Inl (internal (''Failed to get device properties: '' @ cudaGetErrorString C err)), ds, c)
        else (let c1 = snd (cudaSetDevice C d c); (free_mem, total_mem) = cudaMemGetInfo C c1
              in query_devices C device_count ids
                   (ds @ [\<lparr>dev_id = d, dev_name = prop_name props, total_memory = total_mem, free_memory = free_mem,
                      compute_capability_major = prop_major props, compute_capability_minor = prop_minor props,
                      dev_has_nvlink = False, nvlink_peer_id = -1\<rparr>]) c1))"

definition link_pair :: "device_info list \<Rightarrow> device_info list" where
  "link_pair ds =
     ds[0 := (ds ! 0)\<lparr>dev_has_nvlink := True, nvlink_peer_id := dev_id (ds ! 1)\<rparr>,
        1 := (ds ! 1)\<lparr>dev_has_nvlink := True, nvlink_peer_id := dev_id (ds ! 0)\<rparr>]"

definition enable_peers :: "'c cuda \<Rightarrow> int32 \<Rightarrow> int32 \<Rightarrow> 'c \<Rightarrow> 'c" where
  "enable_peers C a b c =
     cudaDeviceEnablePeerAccess C a (snd (cudaSetDevice C b
       (cudaDeviceEnablePeerAccess C b (snd (cudaSetDevice C a c)))))"

definition dm_initialize :: "'c cuda \<Rightarrow> device_manager \<Rightarrow> 'c \<Rightarrow> unit result \<times> device_manager \<times> 'c" where
  "dm_initialize C m c =
     (case cudaGetDeviceCount C c of (err, device_count) \<Rightarrow>
        if err \<noteq> cudaSuccess
        then (Inl (internal (''Failed to get CUDA device count: '' @ cudaGetErrorString C err)), m, c)
        else if device_count = 0 then (Inl (internal ''No CUDA devices found''), m, c)
        else case query_devices C device_count (dm_device_ids (dm_config m)) (devices m) c of
          (Inl e, ds, c1) \<Rightarrow> (Inl e, m\<lparr>devices := ds\<rparr>, c1)
        | (Inr _, ds, c1) \<Rightarrow>
            if length ds \<ge> 2
            then (case cudaDeviceCanAccessPeer C (dev_id (ds ! 0)) (dev_id (ds ! 1)) c1 of (err, can_access) \<Rightarrow>
              if err = cudaSuccess \<and> can_access
              then (Inr (), m\<lparr>devices := link_pair ds, has_nvlink := True\<rparr>,
                    enable_peers C (dev_id (ds ! 0)) (dev_id (ds ! 1)) c1)
              else (Inr (), m\<lparr>devices := ds\<rparr>, c1))
            else (Inr (), m\<lparr>devices := ds\<rparr>, c1))"

definition recommend_strategy :: "device_manager \<Rightarrow> size_t \<Rightarrow> gpu_strategy" where
  "recommend_strategy m context_length =
     (if context_length > context_threshold_for_tp (dm_config m) \<and> length (devices m) \<ge> 2 then TensorParallel
      else if length (devices m) \<ge> 2 then PerRequest
      else PerRequest)"

definition select_device :: "device_manager \<Rightarrow> int32 \<times> device_manager" where
  "select_device m =
     (if devices m = [] then (0, m)
      else (dev_id (devices m ! (unat (round_robin_counter m mod sz (devices m)))),
            m\<lparr>round_robin_counter := round_robin_counter m + 1\<rparr>))"

fun synchronize_all :: "'c cuda \<Rightarrow> device_info list \<Rightarrow> 'c \<Rightarrow> 'c" where
  "synchronize_all C [] c = c"
| "synchronize_all C (d # ds) c =
     synchronize_all C ds (cudaDeviceSynchronize C (snd (cudaSetDevice C (dev_id d) c)))"

section \<open>Lemmas\<close>

lemma query_devices_ids:
  "query_devices C n ids ds c = (Inr (), ds', c') \<Longrightarrow> map dev_id ds' = map dev_id ds @ ids"
  by (induction ids arbitrary: ds c) (auto simp: Let_def split: if_splits prod.splits)

lemma map_dev_id_link: "length ds \<ge> 2 \<Longrightarrow> map dev_id (link_pair ds) = map dev_id ds"
  by (cases ds rule: list.exhaust; cases "tl ds") (auto simp: link_pair_def)

lemma dm_initialize_ids:
  assumes "dm_initialize C m c = (Inr (), m', c')"
  shows "map dev_id (devices m') = map dev_id (devices m) @ dm_device_ids (dm_config m)"
  using assms query_devices_ids [of C _ "dm_device_ids (dm_config m)" "devices m" c]
  by (auto simp: dm_initialize_def map_dev_id_link split: prod.splits if_splits sum.splits)

lemma recommend_tp: "recommend_strategy m n = TensorParallel \<longleftrightarrow>
    n > context_threshold_for_tp (dm_config m) \<and> length (devices m) \<ge> 2"
  by (simp add: recommend_strategy_def)

lemma recommend_not_pipeline: "recommend_strategy m n \<noteq> Pipeline"
  by (simp add: recommend_strategy_def)

text \<open>A run of selections visits the devices in turn.\<close>

fun select_many :: "nat \<Rightarrow> device_manager \<Rightarrow> int32 list" where
  "select_many 0 m = []"
| "select_many (Suc n) m = (case select_device m of (d, m') \<Rightarrow> d # select_many n m')"

lemma select_many_nth:
  assumes "devices m \<noteq> []" and "unat (round_robin_counter m) + n < 2 ^ 64" and "length (devices m) < 2 ^ 63"
    and "i < n"
  shows "select_many n m ! i =
    dev_id (devices m ! ((unat (round_robin_counter m) + i) mod length (devices m)))"
  using assms
proof (induction n arbitrary: m i)
  case (Suc n)
  let ?c = "round_robin_counter m" and ?k = "length (devices m)"
  have len: "unat (sz (devices m) :: size_t) = ?k"
    using Suc.prems(3) by (simp add: unat_of_nat)
  have mod: "unat (?c mod sz (devices m)) = unat ?c mod ?k" by (simp add: unat_mod len)
  have step: "unat (?c + 1) = unat ?c + 1" using Suc.prems(2) by (simp add: unat_plus_nowrap)
  show ?case
  proof (cases i)
    case 0
    then show ?thesis using Suc.prems(1) mod by (simp add: select_device_def)
  next
    case (Suc j)
    have "select_many n (m\<lparr>round_robin_counter := ?c + 1\<rparr>) ! j = dev_id (devices m ! ((unat ?c + 1 + j) mod ?k))"
      using Suc.IH [of "m\<lparr>round_robin_counter := ?c + 1\<rparr>" j] Suc.prems Suc step by simp
    then show ?thesis using Suc Suc.prems(1) by (simp add: select_device_def)
  qed
qed simp

section \<open>Properties\<close>

text \<open>
  Round robin: starting from a fresh manager with \<open>k\<close> devices, the \<open>i\<close>-th selection returns device
  \<open>i mod k\<close>, so every run of \<open>k\<close> consecutive selections uses every device once.
\<close>

theorem round_robin_fair:
  assumes "devices m \<noteq> []" and "round_robin_counter m = 0" and "length (devices m) < 2 ^ 63"
    and "n < 2 ^ 64" and "i < n"
  shows "select_many n m ! i = dev_id (devices m ! (i mod length (devices m)))"
  using select_many_nth [of m n i] assms by simp

definition demo_devices :: device_manager where
  "demo_devices = fst (snd (dm_initialize bump_cuda (new_device_manager default_device_config) (bump_init 4)))"

lemmas device_eval = demo_devices_def dm_initialize_def new_device_manager_def default_device_config_def
  bump_cuda_def bump_init_def link_pair_def Let_def

theorem round_robin_fair_witness: "select_many 5 demo_devices ! 3 = 1"
proof -
  have "devices demo_devices \<noteq> []" "round_robin_counter demo_devices = 0" "length (devices demo_devices) = 2"
    "dev_id (devices demo_devices ! 1) = 1"
    by (simp_all add: device_eval)
  then show ?thesis using round_robin_fair [of demo_devices 5 3] by simp
qed

end
