(* ===== verification/Token_Queue.thy ===== *)
theory Token_Queue
  imports Api_Types
begin

text \<open>
  \<open>TokenQueue\<close> of \<^verbatim>\<open>include/scheduler/request.hpp\<close>: the bounded queue between the scheduler thread and the
  HTTP thread. Every operation runs under the mutex, so a run is a sequence of operations. \<open>pop\<close> is the
  operation at the moment its wait ends: by an event, by closing, or by the timeout.
\<close>

section \<open>Definitions\<close>

datatype token_event_type = Token | Complete | Error

record token_event =
  ev_type :: token_event_type
  ev_token_id :: int32
  ev_text :: string
  ev_finish_reason :: finish_reason
  ev_error :: "error option"

definition token_event_init :: "token_event_type \<Rightarrow> token_event" where
  "token_event_init ty = \<lparr>ev_type = ty, ev_token_id = 0, ev_text = '''', ev_finish_reason = NoReason, ev_error = None\<rparr>"

record token_queue =
  events :: "token_event list"
  max_size :: size_t
  closed :: bool
  dropped_count :: size_t

definition mk_token_queue :: "size_t \<Rightarrow> token_queue" where
  "mk_token_queue n = \<lparr>events = [], max_size = n, closed = False, dropped_count = 0\<rparr>"

definition tq_push :: "token_event \<Rightarrow> token_queue \<Rightarrow> bool \<times> token_queue" where
  "tq_push e q =
     (if closed q then (False, q)
      else if sz (events q) \<ge> max_size q then (False, q\<lparr>dropped_count := dropped_count q + 1\<rparr>)
      else (True, q\<lparr>events := events q @ [e]\<rparr>))"

definition tq_pop :: "token_queue \<Rightarrow> token_event option \<times> token_queue" where
  "tq_pop q = (case events q of [] \<Rightarrow> (None, q) | e # es \<Rightarrow> (Some e, q\<lparr>events := es\<rparr>))"

definition tq_close :: "token_queue \<Rightarrow> token_queue" where
  "tq_close q = q\<lparr>closed := True\<rparr>"

definition tq_is_closed :: "token_queue \<Rightarrow> bool" where
  "tq_is_closed q = closed q"

definition tq_empty :: "token_queue \<Rightarrow> bool" where
  "tq_empty q = (events q = [])"

section \<open>Runs of a producer and a consumer\<close>

datatype queue_op = Push token_event | Pop | Close

record queue_run =
  qr_queue :: token_queue
  qr_accepted :: "token_event list"
  qr_delivered :: "token_event list"
  qr_refused :: nat

fun queue_step :: "queue_op \<Rightarrow> queue_run \<Rightarrow> queue_run" where
  "queue_step (Push e) r =
     (case tq_push e (qr_queue r) of (ok, q) \<Rightarrow>
        if ok then r\<lparr>qr_queue := q, qr_accepted := qr_accepted r @ [e]\<rparr>
        else r\<lparr>qr_queue := q, qr_refused := (if closed (qr_queue r) then qr_refused r else Suc (qr_refused r))\<rparr>)"
| "queue_step Pop r =
     (case tq_pop (qr_queue r) of
        (None, q) \<Rightarrow> r\<lparr>qr_queue := q\<rparr>
      | (Some e, q) \<Rightarrow> r\<lparr>qr_queue := q, qr_delivered := qr_delivered r @ [e]\<rparr>)"
| "queue_step Close r = r\<lparr>qr_queue := tq_close (qr_queue r)\<rparr>"

definition start_run :: "size_t \<Rightarrow> queue_run" where
  "start_run n = \<lparr>qr_queue = mk_token_queue n, qr_accepted = [], qr_delivered = [], qr_refused = 0\<rparr>"

definition queue_inv :: "size_t \<Rightarrow> queue_run \<Rightarrow> bool" where
  "queue_inv n r \<longleftrightarrow>
     qr_delivered r @ events (qr_queue r) = qr_accepted r \<and>
     length (events (qr_queue r)) \<le> unat n \<and> max_size (qr_queue r) = n \<and>
     dropped_count (qr_queue r) = of_nat (qr_refused r)"

lemma queue_inv_step [inv_pres]:
  assumes "queue_inv n r"
  shows "queue_inv n (queue_step c r)"
proof (cases c)
  case (Push e)
  have "unat (sz (events (qr_queue r)) :: size_t) = length (events (qr_queue r))"
    using assms by (intro unat_of_nat_size) (auto simp: queue_inv_def)
  then have "sz (events (qr_queue r)) \<ge> n \<longleftrightarrow> length (events (qr_queue r)) \<ge> unat n"
    by (simp add: word_le_nat_alt)
  with assms Push show ?thesis by (auto simp: queue_inv_def tq_push_def)
next
  case Pop
  with assms show ?thesis by (auto simp: queue_inv_def tq_pop_def split: list.splits)
qed (use assms in \<open>auto simp: queue_inv_def tq_close_def\<close>)

lemma queue_inv_run: "queue_inv n (fold queue_step ops (start_run n))"
proof -
  have "queue_inv n r \<Longrightarrow> queue_inv n (fold queue_step ops r)" for r
    by (induction ops arbitrary: r) (auto intro: queue_inv_step)
  then show ?thesis by (simp add: queue_inv_def start_run_def mk_token_queue_def)
qed

lemma closed_stays: "closed (qr_queue r) \<Longrightarrow> closed (qr_queue (queue_step c r)) \<and> qr_accepted (queue_step c r) = qr_accepted r"
  by (cases c) (auto simp: tq_push_def tq_pop_def tq_close_def split: list.splits)

section \<open>Properties\<close>

text \<open>
  C13. In every interleaving of producer and consumer the queue delivers the accepted events in order
  without loss or duplication, never holds more than its limit, counts every event refused because it
  was full, and accepts nothing once it is closed.
\<close>

theorem token_queue_fifo:
  "let r = fold queue_step ops (start_run n)
   in qr_delivered r @ events (qr_queue r) = qr_accepted r \<and> length (events (qr_queue r)) \<le> unat n \<and>
      dropped_count (qr_queue r) = of_nat (qr_refused r) \<and>
      qr_accepted (fold queue_step later (queue_step Close r)) = qr_accepted r"
proof -
  have "closed (qr_queue r) \<Longrightarrow> qr_accepted (fold queue_step later r) = qr_accepted r" for r
    by (induction later arbitrary: r) (simp_all add: closed_stays)
  then show ?thesis
    using queue_inv_run [of n ops] by (simp add: queue_inv_def Let_def tq_close_def)
qed

text \<open>
  Backpressure also drops terminal events: when the queue is full, the \<open>Complete\<close> or \<open>Error\<close> event
  pushed before \<open>close\<close> is refused like any token, and the consumer sees only the tokens that were
  already queued.
\<close>

theorem terminal_event_dropped_when_full:
  assumes "length (events q) = unat (max_size q)" and "\<not> closed q"
  shows "events (tq_close (snd (tq_push e q))) = events q \<and> \<not> fst (tq_push e q) \<and>
    tq_is_closed (tq_close (snd (tq_push e q)))"
proof -
  have "sz (events q) = max_size q" using assms(1) by simp
  then show ?thesis using assms(2) by (simp add: tq_push_def tq_close_def tq_is_closed_def)
qed

theorem terminal_event_dropped_when_full_witness:
  "let q = snd (tq_push (token_event_init Token) (mk_token_queue 1))
   in events (tq_close (snd (tq_push (token_event_init Complete) q))) = [token_event_init Token]"
proof -
  have "length (events (snd (tq_push (token_event_init Token) (mk_token_queue 1)))) =
      unat (max_size (snd (tq_push (token_event_init Token) (mk_token_queue 1))))"
    and "\<not> closed (snd (tq_push (token_event_init Token) (mk_token_queue 1)))"
    by (simp_all add: tq_push_def mk_token_queue_def)
  from terminal_event_dropped_when_full [OF this, of "token_event_init Complete"] show ?thesis
    by (simp add: Let_def tq_push_def mk_token_queue_def)
qed

end
