(* ===== verification/Cancellation_Token.thy ===== *)
theory Cancellation_Token
  imports Prelude "HOL-Library.Multiset"
begin

text \<open>
  \<^verbatim>\<open>include/utils/cancellation.hpp\<close>: the cancellation token. A callback is a value of \<open>'cb\<close>; an
  operation returns the callbacks it invokes, in order. \<open>cancel\<close> is two atomic actions, the exchange
  on the flag and the drain under the mutex, so the interleaving with \<open>on_cancel\<close> on another thread is
  the step relation \<open>token_step\<close>.
\<close>

section \<open>The token\<close>

record 'cb cancellation_token =
  token_cancelled :: bool
  token_callbacks :: "'cb list"

definition make_cancellation_token :: "'cb cancellation_token" where
  "make_cancellation_token = \<lparr>token_cancelled = False, token_callbacks = []\<rparr>"

definition cancel_exchange :: "'cb cancellation_token \<Rightarrow> bool \<times> 'cb cancellation_token" where
  "cancel_exchange t = (token_cancelled t, t\<lparr>token_cancelled := True\<rparr>)"

definition cancel_drain :: "'cb cancellation_token \<Rightarrow> 'cb list \<times> 'cb cancellation_token" where
  "cancel_drain t = (token_callbacks t, t\<lparr>token_callbacks := []\<rparr>)"

definition token_cancel :: "'cb cancellation_token \<Rightarrow> 'cb list \<times> 'cb cancellation_token" where
  "token_cancel t =
     (case cancel_exchange t of (was, t') \<Rightarrow> if was then ([], t') else cancel_drain t')"

definition token_is_cancelled :: "'cb cancellation_token \<Rightarrow> bool" where
  "token_is_cancelled t = token_cancelled t"

definition on_cancel :: "'cb \<Rightarrow> 'cb cancellation_token \<Rightarrow> 'cb list \<times> 'cb cancellation_token" where
  "on_cancel cb t =
     (if token_cancelled t then ([cb], t) else ([], t\<lparr>token_callbacks := token_callbacks t @ [cb]\<rparr>))"

definition token_reset :: "'cb cancellation_token \<Rightarrow> 'cb cancellation_token" where
  "token_reset t = t\<lparr>token_cancelled := False, token_callbacks := []\<rparr>"

text \<open>\<open>CancellationGuard\<close>: a guard holds a token until it is released; its destructor cancels it.\<close>

type_synonym 'cb cancellation_guard = "'cb cancellation_token option"

definition guard_release :: "'cb cancellation_guard \<Rightarrow> 'cb cancellation_guard" where
  "guard_release g = None"

definition guard_destroy :: "'cb cancellation_guard \<Rightarrow> 'cb list \<times> 'cb cancellation_guard" where
  "guard_destroy g =
     (case g of None \<Rightarrow> ([], None) | Some t \<Rightarrow> (case token_cancel t of (run, t') \<Rightarrow> (run, Some t')))"

section \<open>Interleavings\<close>

text \<open>
  The token, the number of threads between the exchange and the drain of \<open>cancel\<close>, the callbacks
  registered and the callbacks invoked so far.
\<close>

record 'cb token_world =
  tw_token :: "'cb cancellation_token"
  tw_draining :: nat
  tw_registered :: "'cb list"
  tw_invoked :: "'cb list"

definition token_world_init :: "'cb token_world" where
  "token_world_init = \<lparr>tw_token = make_cancellation_token, tw_draining = 0, tw_registered = [], tw_invoked = []\<rparr>"

inductive token_step :: "'cb token_world \<Rightarrow> 'cb token_world \<Rightarrow> bool" where
  exchange_first: "cancel_exchange (tw_token w) = (False, t) \<Longrightarrow>
    token_step w (w\<lparr>tw_token := t, tw_draining := Suc (tw_draining w)\<rparr>)"
| exchange_again: "cancel_exchange (tw_token w) = (True, t) \<Longrightarrow> token_step w (w\<lparr>tw_token := t\<rparr>)"
| drain: "tw_draining w = Suc n \<Longrightarrow> cancel_drain (tw_token w) = (run, t) \<Longrightarrow>
    token_step w (w\<lparr>tw_token := t, tw_draining := n, tw_invoked := tw_invoked w @ run\<rparr>)"
| register: "on_cancel cb (tw_token w) = (run, t) \<Longrightarrow>
    token_step w (w\<lparr>tw_token := t, tw_registered := tw_registered w @ [cb], tw_invoked := tw_invoked w @ run\<rparr>)"

definition token_inv :: "'cb token_world \<Rightarrow> bool" where
  "token_inv w \<longleftrightarrow>
     mset (tw_registered w) = mset (tw_invoked w) + mset (token_callbacks (tw_token w)) \<and>
     (\<not> token_cancelled (tw_token w) \<longrightarrow> tw_invoked w = [] \<and> tw_draining w = 0) \<and>
     (token_cancelled (tw_token w) \<and> tw_draining w = 0 \<longrightarrow> token_callbacks (tw_token w) = []) \<and>
     tw_draining w \<le> 1"

lemma token_inv_init: "token_inv token_world_init"
  by (simp add: token_inv_def token_world_init_def make_cancellation_token_def)

lemma token_inv_step [inv_pres]: "token_step w w' \<Longrightarrow> token_inv w \<Longrightarrow> token_inv w'"
  by (induction rule: token_step.induct)
    (auto simp: token_inv_def cancel_exchange_def cancel_drain_def on_cancel_def split: if_splits)

lemma token_inv_reachable: "token_step\<^sup>*\<^sup>* token_world_init w \<Longrightarrow> token_inv w"
  by (induction rule: rtranclp_induct) (auto simp: token_inv_init intro: token_inv_step)

lemma token_cancel_eq:
  "token_cancel t = (if token_cancelled t then ([], t) else (token_callbacks t, \<lparr>token_cancelled = True, token_callbacks = []\<rparr>))"
  by (cases t) (simp add: token_cancel_def cancel_exchange_def cancel_drain_def)

section \<open>Properties\<close>

text \<open>
  C39. Under every interleaving of registrations and cancellations, a callback never runs before the
  token is cancelled, and once a cancellation has returned every registered callback has run exactly
  once, including those registered while the cancellation was in progress.
\<close>

theorem cancellation_callbacks_run_once:
  assumes "token_step\<^sup>*\<^sup>* token_world_init w"
  shows "(\<not> token_is_cancelled (tw_token w) \<longrightarrow> tw_invoked w = []) \<and>
    mset (tw_invoked w) \<subseteq># mset (tw_registered w) \<and>
    (token_is_cancelled (tw_token w) \<and> tw_draining w = 0 \<longrightarrow> mset (tw_invoked w) = mset (tw_registered w))"
  using token_inv_reachable [OF assms] by (simp add: token_inv_def token_is_cancelled_def)

text \<open>A callback registered between the exchange and the drain of a cancellation.\<close>

definition demo_token_world :: "nat token_world" where
  "demo_token_world = \<lparr>tw_token = \<lparr>token_cancelled = True, token_callbacks = []\<rparr>, tw_draining = 0,
     tw_registered = [10, 20], tw_invoked = [20, 10]\<rparr>"

lemma demo_token_reachable: "token_step\<^sup>*\<^sup>* token_world_init demo_token_world"
proof -
  let ?w = "\<lambda>c cbs n reg inv. \<lparr>tw_token = \<lparr>token_cancelled = c, token_callbacks = cbs\<rparr>, tw_draining = n,
     tw_registered = reg, tw_invoked = inv\<rparr> :: nat token_world"
  have "token_step token_world_init (?w False [10] 0 [10] [])"
    using token_step.register [of 10 token_world_init "[]" "\<lparr>token_cancelled = False, token_callbacks = [10]\<rparr>"]
    by (simp add: on_cancel_def token_world_init_def make_cancellation_token_def)
  also have "token_step\<^sup>*\<^sup>* \<dots> (?w True [10] 1 [10] [])"
    using token_step.exchange_first [of "?w False [10] 0 [10] []"] by (auto simp: cancel_exchange_def)
  also have "token_step\<^sup>*\<^sup>* \<dots> (?w True [10] 1 [10, 20] [20])"
    using token_step.register [of 20 "?w True [10] 1 [10] []"] by (auto simp: on_cancel_def)
  also have "token_step\<^sup>*\<^sup>* \<dots> (?w True [] 0 [10, 20] [20, 10])"
    using token_step.drain [of "?w True [10] 1 [10, 20] [20]" 0] by (auto simp: cancel_drain_def)
  finally show ?thesis by (simp add: demo_token_world_def)
qed

theorem cancellation_callbacks_run_once_witness:
  "mset (tw_invoked demo_token_world) = mset (tw_registered demo_token_world) \<and>
   token_is_cancelled (tw_token demo_token_world)"
  using cancellation_callbacks_run_once [OF demo_token_reachable]
  by (simp add: demo_token_world_def token_is_cancelled_def)

end
