(* ===== verification/Request.thy ===== *)
theory Request
  imports Token_Queue Kv_Types Cancellation_Token
begin

text \<open>
  \<^verbatim>\<open>include/scheduler/request.hpp\<close> and \<^verbatim>\<open>src/scheduler/request.cpp\<close>: the request with its state machine,
  timing and statistics. A time point is an integer number of nanoseconds; \<open>time_point::max()\<close> is the
  largest 64-bit value. The three deprecated callbacks are present or not; the token queue and the
  cancellation token are values of the request, which is the only owner the scheduler sees.
\<close>

section \<open>States and timing\<close>

datatype request_state = Received | Queued | Prefilling | Decoding | Completed | Cancelled | Errored | Rejected

definition state_to_string :: "request_state \<Rightarrow> string" where
  "state_to_string s = (case s of Received \<Rightarrow> ''received'' | Queued \<Rightarrow> ''queued'' | Prefilling \<Rightarrow> ''prefilling''
     | Decoding \<Rightarrow> ''decoding'' | Completed \<Rightarrow> ''completed'' | Cancelled \<Rightarrow> ''cancelled'' | Errored \<Rightarrow> ''errored''
     | Rejected \<Rightarrow> ''rejected'')"

type_synonym time_point = int

definition time_max :: time_point where
  "time_max = 2 ^ 63 - 1"

definition seconds :: "uint32 \<Rightarrow> time_point" where
  "seconds n = int (unat n) * 1000000000"

record request_timing =
  received_at :: time_point
  queued_at :: time_point
  prefill_start :: time_point
  prefill_end :: time_point
  first_token_at :: time_point
  completed_at :: time_point
  queue_deadline :: time_point
  request_deadline :: time_point
  decode_deadline :: time_point

definition zero_timing :: request_timing where
  "zero_timing = \<lparr>received_at = 0, queued_at = 0, prefill_start = 0, prefill_end = 0, first_token_at = 0,
     completed_at = 0, queue_deadline = 0, request_deadline = 0, decode_deadline = 0\<rparr>"

definition to_ms :: "int \<Rightarrow> real" where
  "to_ms d = of_int d / 1000000"

definition queue_time_ms :: "request_timing \<Rightarrow> real" where
  "queue_time_ms t = to_ms (prefill_start t - queued_at t)"

definition prefill_time_ms :: "request_timing \<Rightarrow> real" where
  "prefill_time_ms t = to_ms (prefill_end t - prefill_start t)"

definition time_to_first_token_ms :: "request_timing \<Rightarrow> real" where
  "time_to_first_token_ms t = to_ms (first_token_at t - received_at t)"

definition total_time_ms :: "request_timing \<Rightarrow> real" where
  "total_time_ms t = to_ms (completed_at t - received_at t)"

definition deadline_passed :: "time_point \<Rightarrow> time_point \<Rightarrow> bool" where
  "deadline_passed now d = (if d = time_max then False else now > d)"

definition is_queue_timed_out :: "time_point \<Rightarrow> request_timing \<Rightarrow> bool" where
  "is_queue_timed_out now t = deadline_passed now (queue_deadline t)"

definition is_request_timed_out :: "time_point \<Rightarrow> request_timing \<Rightarrow> bool" where
  "is_request_timed_out now t = deadline_passed now (request_deadline t)"

definition is_decode_timed_out :: "time_point \<Rightarrow> request_timing \<Rightarrow> bool" where
  "is_decode_timed_out now t = deadline_passed now (decode_deadline t)"

section \<open>The request\<close>

record 'j request =
  r_id :: string
  trace_id :: string
  api_request :: "'j chat_completion_request"
  input_tokens :: "int32 list"
  formatted_prompt :: string
  temperature :: real
  top_p :: real
  max_tokens :: int32
  r_stop_sequences :: "string list"
  r_seed :: "int64 option"
  state :: request_state
  cancel_token :: "nat cancellation_token option"
  output_tokens :: "int32 list"
  output_text :: string
  r_finish_reason :: finish_reason
  r_error :: "error option"
  prefill_logits :: "real list"
  prefill_logits_vocab_size :: int32
  kv_cache :: kv_cache_handle
  gpu_id :: int32
  assigned_devices :: "int32 list"
  timing :: request_timing
  on_token :: bool
  on_complete :: bool
  on_error :: bool
  token_queue :: "token_queue option"
  is_streaming :: bool

definition prompt_tokens_count :: "'j request \<Rightarrow> int32" where
  "prompt_tokens_count r = to_int32 (sz (input_tokens r))"

definition completion_tokens_count :: "'j request \<Rightarrow> int32" where
  "completion_tokens_count r = to_int32 (sz (output_tokens r))"

definition total_tokens_count :: "'j request \<Rightarrow> int32" where
  "total_tokens_count r = prompt_tokens_count r + completion_tokens_count r"

definition terminal_state :: "request_state \<Rightarrow> bool" where
  "terminal_state s \<longleftrightarrow> s = Completed \<or> s = Cancelled \<or> s = Errored \<or> s = Rejected"

definition is_terminal :: "'j request \<Rightarrow> bool" where
  "is_terminal r = terminal_state (state r)"

definition is_cancelled :: "'j request \<Rightarrow> bool" where
  "is_cancelled r = (case cancel_token r of None \<Rightarrow> False | Some t \<Rightarrow> token_is_cancelled t)"

text \<open>\<open>request->input_tokens.size() + request->max_tokens\<close>, in \<open>size_t\<close>: a negative limit would wrap.\<close>

definition request_seq_len :: "'j request \<Rightarrow> size_t" where
  "request_seq_len r = sz (input_tokens r) + to_size (max_tokens r)"

section \<open>Identifiers and construction\<close>

definition hex_digit :: "nat \<Rightarrow> char" where
  "hex_digit n = (if n < 10 then char_of (48 + n) else char_of (87 + n))"

fun nat_to_hex :: "nat \<Rightarrow> string" where
  "nat_to_hex n = (if n < 16 then [hex_digit n] else nat_to_hex (n div 16) @ [hex_digit (n mod 16)])"

declare nat_to_hex.simps [simp del]

text \<open>\<open>timestamp\<close> and \<open>random_part\<close> come from the system clock and the generator.\<close>

definition low32 :: "uint64 \<Rightarrow> nat" where
  "low32 w = unat w mod 2 ^ 32"

definition generate_request_id :: "uint64 \<Rightarrow> uint64 \<Rightarrow> string" where
  "generate_request_id timestamp random_part =
     ''chatcmpl-'' @ pad_left 8 (nat_to_hex (low32 timestamp)) @ pad_left 8 (nat_to_hex (low32 random_part))"

definition opt_or :: "'a option \<Rightarrow> 'a \<Rightarrow> 'a" where
  "opt_or x d = (case x of None \<Rightarrow> d | Some v \<Rightarrow> v)"

definition make_request :: "uint64 \<Rightarrow> uint64 \<Rightarrow> time_point \<Rightarrow> 'j chat_completion_request \<Rightarrow> 'j request" where
  "make_request timestamp random_part now q =
     \<lparr>r_id = generate_request_id timestamp random_part, trace_id = '''', api_request = q, input_tokens = [],
      formatted_prompt = '''', temperature = opt_or (req_temperature q) 1, top_p = opt_or (req_top_p q) 1,
      max_tokens = opt_or (req_max_tokens q) 2048, r_stop_sequences = opt_or (req_stop q) [],
      r_seed = req_seed q, state = Received, cancel_token = Some make_cancellation_token,
      output_tokens = [], output_text = '''', r_finish_reason = NoReason, r_error = None, prefill_logits = [],
      prefill_logits_vocab_size = 0, kv_cache = empty_handle, gpu_id = -1, assigned_devices = [],
      timing = zero_timing\<lparr>received_at := now\<rparr>, on_token = False, on_complete = False, on_error = False,
      token_queue = None, is_streaming = stream q\<rparr>"

section \<open>Lemmas\<close>

lemma length_nat_to_hex: "n < 16 ^ Suc k \<Longrightarrow> length (nat_to_hex n) \<le> Suc k"
proof (induction k arbitrary: n)
  case 0
  then show ?case by (subst nat_to_hex.simps) simp
next
  case (Suc k)
  then have "n div 16 < 16 ^ Suc k" by (simp add: less_mult_imp_div_less mult.commute)
  from Suc.IH [OF this] show ?case by (subst nat_to_hex.simps) simp
qed

lemma length_padded_hex: "length (pad_left 8 (nat_to_hex (low32 w))) = 8"
  using length_nat_to_hex [of "low32 w" 7] by (simp add: pad_left_def low32_def)

definition hex_value :: "char \<Rightarrow> nat" where
  "hex_value c = (let n = of_char c in if n < 58 then n - 48 else n - 87)"

lemma hex_value_digit [simp]: "n < 16 \<Longrightarrow> hex_value (hex_digit n) = n"
  by (simp add: hex_value_def hex_digit_def Let_def)

definition from_hex :: "string \<Rightarrow> nat" where
  "from_hex s = foldl (\<lambda>n c. n * 16 + hex_value c) 0 s"

lemma from_hex_snoc [simp]: "from_hex (s @ [c]) = from_hex s * 16 + hex_value c"
  by (simp add: from_hex_def)

lemma from_to_hex [simp]: "from_hex (nat_to_hex n) = n"
proof (induction n rule: nat_to_hex.induct)
  case (1 n)
  then show ?case
  proof (cases "n < 16")
    case True
    then show ?thesis using from_hex_snoc [of "''''"] by (subst nat_to_hex.simps) (simp add: from_hex_def)
  next
    case False
    with 1 show ?thesis by (subst nat_to_hex.simps) simp
  qed
qed

lemma from_hex_zeros: "from_hex (replicate k (CHR ''0'') @ s) = from_hex s"
proof -
  have "foldl (\<lambda>n c. n * 16 + hex_value c) 0 (replicate k (CHR ''0'')) = 0"
    by (induction k) (simp_all add: hex_value_def)
  then show ?thesis by (simp add: from_hex_def)
qed

lemma from_padded_hex: "from_hex (pad_left k (nat_to_hex n)) = n"
  by (simp add: pad_left_def from_hex_zeros)

section \<open>Properties\<close>

text \<open>
  A request identifier is \<open>chatcmpl-\<close> followed by sixteen hexadecimal digits, and two identifiers
  are equal exactly when the low 32 bits of their timestamps and of their random parts are equal.
\<close>

theorem request_id_format:
  "length (generate_request_id ts rnd) = 25 \<and> take 9 (generate_request_id ts rnd) = ''chatcmpl-'' \<and>
   (generate_request_id ts rnd = generate_request_id ts' rnd' \<longleftrightarrow> low32 ts = low32 ts' \<and> low32 rnd = low32 rnd')"
proof -
  have "pad_left 8 (nat_to_hex (low32 a)) = pad_left 8 (nat_to_hex (low32 b)) \<longleftrightarrow> low32 a = low32 b" for a b
    by (metis from_padded_hex)
  then show ?thesis
    by (simp add: generate_request_id_def length_padded_hex)
qed

end
