(* ===== verification/Gpu_Router.thy ===== *)
theory Gpu_Router
  imports Device_Manager Request
begin

text \<open>
  \<^verbatim>\<open>src/gpu/gpu_router.cpp\<close>: placement of requests on GPUs and the per-GPU budgets. Every access to the
  budgets is under \<open>budget_mutex_\<close>, so each operation is one function. A division by an empty device list or an empty budget list has no result
  (\<^const>\<open>None\<close>).
\<close>

section \<open>Definitions\<close>

record routing_decision =
  strategy :: gpu_strategy
  rd_device_ids :: "int32 list"
  requires_nccl :: bool

record gpu_budget =
  gb_device_id :: int32
  gb_total :: size_t
  gb_used :: size_t
  gb_reserved :: size_t

definition available :: "gpu_budget \<Rightarrow> size_t" where
  "available b = (if gb_used b + gb_reserved b \<ge> gb_total b then 0 else gb_total b - gb_used b - gb_reserved b)"

definition can_fit :: "size_t \<Rightarrow> gpu_budget \<Rightarrow> bool" where
  "can_fit bytes b \<longleftrightarrow> available b \<ge> bytes"

record gpu_router =
  device_manager :: device_manager
  budgets :: "gpu_budget list"

definition new_gpu_router :: "device_manager \<Rightarrow> gpu_router" where
  "new_gpu_router m = \<lparr>device_manager = m, budgets = []\<rparr>"

definition initialize_budgets :: "size_t \<Rightarrow> gpu_router \<Rightarrow> gpu_router" where
  "initialize_budgets kv_memory_per_gpu g =
     g\<lparr>budgets := map (\<lambda>d. \<lparr>gb_device_id = dev_id d, gb_total = kv_memory_per_gpu, gb_used = 0, gb_reserved = 0\<rparr>)
          (devices (device_manager g))\<rparr>"

text \<open>The search for the device with the most available memory.\<close>

fun best_budget :: "gpu_budget list \<Rightarrow> size_t \<Rightarrow> int32 \<Rightarrow> int32" where
  "best_budget [] best_available best_device = best_device"
| "best_budget (b # bs) best_available best_device =
     (if available b > best_available then best_budget bs (available b) (gb_device_id b)
      else best_budget bs best_available best_device)"

definition route :: "'j request \<Rightarrow> gpu_router \<Rightarrow> routing_decision \<times> gpu_router" where
  "route r g =
     (let strat = recommend_strategy (device_manager g) (request_seq_len r);
          everywhere = map dev_id (devices (device_manager g))
      in case strat of
        TensorParallel \<Rightarrow> (\<lparr>strategy = strat, rd_device_ids = everywhere, requires_nccl = True\<rparr>, g)
      | PerRequest \<Rightarrow>
          (case select_device (device_manager g) of (d, m) \<Rightarrow>
             (\<lparr>strategy = strat, rd_device_ids = [best_budget (budgets g) 0 d], requires_nccl = False\<rparr>,
              g\<lparr>device_manager := m\<rparr>))
      | Pipeline \<Rightarrow> (\<lparr>strategy = strat, rd_device_ids = everywhere, requires_nccl = True\<rparr>, g))"

definition can_place :: "'j request \<Rightarrow> size_t \<Rightarrow> size_t \<Rightarrow> gpu_router \<Rightarrow> bool option" where
  "can_place r total_size per_device_size g =
     (if recommend_strategy (device_manager g) (request_seq_len r) = TensorParallel
      then (case (if per_device_size > 0 then Some per_device_size else size_div total_size (sz (budgets g))) of
              None \<Rightarrow> None
            | Some per_device \<Rightarrow> Some (list_all (can_fit per_device) (budgets g)))
      else Some (list_ex (can_fit total_size) (budgets g)))"

text \<open>The inner loop of the accounting operations: the first budget of the device is changed.\<close>

fun on_budget :: "int32 \<Rightarrow> (gpu_budget \<Rightarrow> gpu_budget) \<Rightarrow> gpu_budget list \<Rightarrow> gpu_budget list" where
  "on_budget d f [] = []"
| "on_budget d f (b # bs) = (if gb_device_id b = d then f b # bs else b # on_budget d f bs)"

definition on_devices :: "int32 list \<Rightarrow> (gpu_budget \<Rightarrow> gpu_budget) \<Rightarrow> gpu_router \<Rightarrow> gpu_router" where
  "on_devices ds f g = g\<lparr>budgets := fold (\<lambda>d. on_budget d f) ds (budgets g)\<rparr>"

definition share :: "routing_decision \<Rightarrow> size_t \<Rightarrow> size_t option" where
  "share dec bytes = (if strategy dec = TensorParallel then size_div bytes (sz (rd_device_ids dec)) else Some bytes)"

definition reserve :: "routing_decision \<Rightarrow> size_t \<Rightarrow> gpu_router \<Rightarrow> gpu_router option" where
  "reserve dec bytes g =
     map_option (\<lambda>n. on_devices (rd_device_ids dec) (\<lambda>b. b\<lparr>gb_reserved := gb_reserved b + n\<rparr>) g) (share dec bytes)"

definition commit :: "routing_decision \<Rightarrow> size_t \<Rightarrow> gpu_router \<Rightarrow> gpu_router option" where
  "commit dec bytes g =
     map_option (\<lambda>n. on_devices (rd_device_ids dec)
       (\<lambda>b. b\<lparr>gb_reserved := gb_reserved b - n, gb_used := gb_used b + n\<rparr>) g) (share dec bytes)"

definition unreserve :: "routing_decision \<Rightarrow> size_t \<Rightarrow> gpu_router \<Rightarrow> gpu_router option" where
  "unreserve dec bytes g =
     map_option (\<lambda>n. on_devices (rd_device_ids dec) (\<lambda>b. b\<lparr>gb_reserved := gb_reserved b - n\<rparr>) g) (share dec bytes)"

definition router_free :: "int32 list \<Rightarrow> size_t \<Rightarrow> gpu_router \<Rightarrow> gpu_router" where
  "router_free ds bytes g =
     (let n = (if length ds > 1 then bytes div sz ds else bytes)
      in on_devices ds (\<lambda>b. b\<lparr>gb_used := gb_used b - n\<rparr>) g)"

definition get_budget :: "int32 \<Rightarrow> gpu_router \<Rightarrow> gpu_budget option" where
  "get_budget d g = find (\<lambda>b. gb_device_id b = d) (budgets g)"

section \<open>Budgets as a table\<close>

text \<open>Operations on budgets keep the device ids; two of them on the same devices compose pointwise.\<close>

lemma on_budget_ids: "(\<And>b. gb_device_id (f b) = gb_device_id b) \<Longrightarrow> map gb_device_id (on_budget d f bs) = map gb_device_id bs"
  by (induction d f bs rule: on_budget.induct) auto

lemma on_budget_on_budget:
  assumes "\<And>b. gb_device_id (f b) = gb_device_id b"
  shows "on_budget d g (on_budget d f bs) = on_budget d (g \<circ> f) bs"
  using assms by (induction bs) auto

lemma on_budget_commute:
  assumes "d \<noteq> e" and "\<And>b. gb_device_id (f b) = gb_device_id b" and "\<And>b. gb_device_id (g b) = gb_device_id b"
  shows "on_budget d f (on_budget e g bs) = on_budget e g (on_budget d f bs)"
  using assms by (induction bs) auto

lemma on_budget_id: "on_budget d (\<lambda>b. b) bs = bs"
  by (induction bs) auto

lemma on_budget_fold_commute:
  assumes "d \<notin> set ds" and "\<And>b. gb_device_id (f b) = gb_device_id b" and "\<And>b. gb_device_id (g b) = gb_device_id b"
  shows "on_budget d f (fold (\<lambda>e. on_budget e g) ds bs) = fold (\<lambda>e. on_budget e g) ds (on_budget d f bs)"
  using assms(1)
proof (induction ds arbitrary: bs)
  case (Cons e ds)
  then show ?case using on_budget_commute [of d e f g bs] assms(2,3) by simp
qed simp

lemma on_devices_comp:
  assumes "distinct ds" and "\<And>b. gb_device_id (f b) = gb_device_id b" and "\<And>b. gb_device_id (h b) = gb_device_id b"
  shows "on_devices ds h (on_devices ds f g) = on_devices ds (h \<circ> f) g"
proof -
  have "fold (\<lambda>d. on_budget d h) ds (fold (\<lambda>d. on_budget d f) ds bs) = fold (\<lambda>d. on_budget d (h \<circ> f)) ds bs" for bs
    using assms(1)
  proof (induction ds arbitrary: bs)
    case (Cons d ds)
    then show ?case
      using on_budget_fold_commute [of d ds h f] on_budget_on_budget [of f d h] assms(2,3) by (simp add: comp_def)
  qed simp
  then show ?thesis by (simp add: on_devices_def)
qed

lemma on_devices_id: "on_devices ds (\<lambda>b. b) g = g"
proof -
  have "fold (\<lambda>d. on_budget d (\<lambda>b. b)) ds bs = bs" for bs
    by (induction ds arbitrary: bs) (simp_all add: on_budget_id)
  then show ?thesis by (simp add: on_devices_def)
qed

section \<open>Decisions\<close>

text \<open>What \<open>route\<close> decides: all devices, at least two of them, or exactly one.\<close>

definition decision_ok :: "routing_decision \<Rightarrow> bool" where
  "decision_ok dec \<longleftrightarrow> (if strategy dec = TensorParallel then length (rd_device_ids dec) > 1
     else strategy dec = PerRequest \<and> length (rd_device_ids dec) = 1)"

lemma route_decision_ok: "decision_ok (fst (route r g))"
  by (auto simp: route_def decision_ok_def Let_def recommend_strategy_def split: prod.splits)

lemma route_budgets: "budgets (snd (route r g)) = budgets g"
  by (auto simp: route_def Let_def split: gpu_strategy.splits prod.splits)

lemma size_small:
  assumes "length xs < 2 ^ 64"
  shows "(sz xs :: size_t) = 0 \<longleftrightarrow> xs = []"
proof -
  have "unat (sz xs :: size_t) = length xs" using assms by (simp add: unat_of_nat)
  then show ?thesis by (metis length_0_conv unat_eq_0)
qed

text \<open>For such decisions the share of \<open>reserve\<close> and \<open>commit\<close> is the one that \<open>free\<close> gives back.\<close>

lemma share_free:
  assumes "decision_ok dec" and "length (rd_device_ids dec) < 2 ^ 64"
  shows "share dec bytes = Some (if length (rd_device_ids dec) > 1 then bytes div sz (rd_device_ids dec) else bytes)"
  using assms size_small [OF assms(2)]
  by (auto simp: share_def decision_ok_def size_div_def split: if_splits)

text \<open>With distinct device ids an accounting operation changes exactly the budgets of the listed devices.\<close>

lemma on_budget_map:
  "distinct (map gb_device_id bs) \<Longrightarrow> on_budget d f bs = map (\<lambda>b. if gb_device_id b = d then f b else b) bs"
  by (induction bs) (auto simp: image_iff intro!: map_idI [symmetric])

lemma on_devices_map:
  assumes "distinct ds" and "distinct (map gb_device_id (budgets g))" and "\<And>b. gb_device_id (f b) = gb_device_id b"
  shows "budgets (on_devices ds f g) = map (\<lambda>b. if gb_device_id b \<in> set ds then f b else b) (budgets g)"
proof -
  have "fold (\<lambda>d. on_budget d f) ds bs = map (\<lambda>b. if gb_device_id b \<in> set ds then f b else b) bs"
    if "distinct (map gb_device_id bs)" for bs
    using assms(1) that
  proof (induction ds arbitrary: bs)
    case (Cons d ds)
    have "distinct (map gb_device_id (on_budget d f bs))"
      using Cons.prems(2) on_budget_ids [of f d bs] assms(3) by simp
    then show ?case using Cons assms(3) by (auto simp: on_budget_map)
  qed simp
  then show ?thesis using assms(2) by (simp add: on_devices_def)
qed

text \<open>\<open>best_budget\<close> returns a device whose budget has the most memory available, if any has memory available.\<close>

lemma best_budget_max:
  "(\<exists>b \<in> set bs. gb_device_id b = best_budget bs a d \<and> a < available b \<and> (\<forall>c \<in> set bs. available c \<le> available b))
   \<or> (best_budget bs a d = d \<and> (\<forall>c \<in> set bs. available c \<le> a))"
proof (induction bs arbitrary: a d)
  case (Cons b bs)
  show ?case
  proof (cases "available b > a")
    case True
    then show ?thesis using Cons [of "available b" "gb_device_id b"] by fastforce
  next
    case False
    then show ?thesis using Cons [of a d] by fastforce
  qed
qed simp

definition budget_ok :: "gpu_budget \<Rightarrow> bool" where
  "budget_ok b \<longleftrightarrow> unat (gb_used b) + unat (gb_reserved b) \<le> unat (gb_total b)"

lemma unat_available:
  assumes "budget_ok b"
  shows "unat (available b) = unat (gb_total b) - unat (gb_used b) - unat (gb_reserved b)"
proof -
  have sum: "unat (gb_used b + gb_reserved b) = unat (gb_used b) + unat (gb_reserved b)"
    using assms by (intro unat_plus_le) (simp add: budget_ok_def)
  have "unat (gb_total b - (gb_used b + gb_reserved b)) = unat (gb_total b) - unat (gb_used b + gb_reserved b)"
    using assms sum by (intro unat_sub) (simp add: word_le_nat_alt budget_ok_def)
  then show ?thesis using sum by (simp add: available_def word_le_nat_alt diff_diff_eq)
qed

lemma budget_ok_reserve:
  assumes "budget_ok b" and "can_fit n b"
  shows "budget_ok (b\<lparr>gb_reserved := gb_reserved b + n\<rparr>)"
proof -
  have le: "unat n \<le> unat (gb_total b) - unat (gb_used b) - unat (gb_reserved b)"
    using assms unat_available [OF assms(1)] by (simp add: can_fit_def word_le_nat_alt)
  then have "unat (gb_reserved b + n) = unat (gb_reserved b) + unat n"
    using assms(1) by (intro unat_plus_le [of _ _ "gb_total b"]) (simp add: budget_ok_def)
  then show ?thesis using le assms(1) by (simp add: budget_ok_def)
qed

text \<open>The devices of a decision: all of them, or the one with the most memory available.\<close>

lemma route_tp:
  assumes "recommend_strategy (device_manager g) (request_seq_len r) = TensorParallel"
  shows "rd_device_ids (fst (route r g)) = map dev_id (devices (device_manager g))"
  using assms by (simp add: route_def)

lemma route_single:
  assumes "recommend_strategy (device_manager g) (request_seq_len r) \<noteq> TensorParallel"
  shows "rd_device_ids (fst (route r g)) = [best_budget (budgets g) 0 (fst (select_device (device_manager g)))]"
  using assms recommend_not_pipeline [of "device_manager g" "request_seq_len r"]
  by (auto simp: route_def Let_def split: gpu_strategy.splits prod.splits)

lemma route_distinct:
  assumes "distinct (map dev_id (devices (device_manager g)))"
  shows "distinct (rd_device_ids (fst (route r g)))"
  using assms route_tp [of g r] route_single [of g r]
  by (cases "recommend_strategy (device_manager g) (request_seq_len r) = TensorParallel") auto

lemma route_length:
  assumes "map gb_device_id (budgets g) = map dev_id (devices (device_manager g))" and "length (budgets g) < 2 ^ 64"
  shows "length (rd_device_ids (fst (route r g))) < 2 ^ 64"
  using assms route_tp [of g r] route_single [of g r] map_eq_imp_length_eq [OF assms(1)]
  by (cases "recommend_strategy (device_manager g) (request_seq_len r) = TensorParallel") auto

lemma can_fit_mono: "can_fit n b \<Longrightarrow> m \<le> n \<Longrightarrow> can_fit m b"
  by (simp add: can_fit_def)

lemma best_budget_fits:
  assumes "list_ex (can_fit n) bs" and "distinct (map gb_device_id bs)" and "b \<in> set bs"
    and "gb_device_id b = best_budget bs 0 d"
  shows "can_fit n b"
proof -
  obtain c where c: "c \<in> set bs" "n \<le> available c" using assms(1) by (auto simp: list_ex_iff can_fit_def)
  from best_budget_max [of bs 0 d] show ?thesis
  proof
    assume "\<exists>b \<in> set bs. gb_device_id b = best_budget bs 0 d \<and> 0 < available b \<and> (\<forall>c \<in> set bs. available c \<le> available b)"
    then obtain b' where b': "b' \<in> set bs" "gb_device_id b' = gb_device_id b" "\<forall>c \<in> set bs. available c \<le> available b'"
      using assms(4) by auto
    then have "b' = b" using assms(2,3) by (auto simp: distinct_map inj_on_def)
    then show ?thesis using b'(3) c by (auto simp: can_fit_def)
  next
    assume "best_budget bs 0 d = d \<and> (\<forall>c \<in> set bs. available c \<le> 0)"
    then have "n = 0" using c by auto
    then show ?thesis by (simp add: can_fit_def)
  qed
qed

lemma route_fits:
  assumes "map gb_device_id (budgets g) = map dev_id (devices (device_manager g))"
    and "distinct (map gb_device_id (budgets g))" and "length (budgets g) < 2 ^ 64"
    and "can_place r bytes per_device g = Some True" and "per_device = 0 \<or> bytes div sz (budgets g) \<le> per_device"
    and "b \<in> set (budgets g)" and "gb_device_id b \<in> set (rd_device_ids (fst (route r g)))"
  shows "can_fit (if length (rd_device_ids (fst (route r g))) > 1
    then bytes div sz (rd_device_ids (fst (route r g))) else bytes) b"
proof (cases "recommend_strategy (device_manager g) (request_seq_len r) = TensorParallel")
  case True
  have len: "length (rd_device_ids (fst (route r g))) = length (budgets g)"
    using route_tp [OF True] map_eq_imp_length_eq [OF assms(1)] by simp
  have "length (budgets g) > 1"
    using True map_eq_imp_length_eq [OF assms(1)] by (simp add: recommend_tp)
  then show ?thesis
    using True assms(4-6) len can_fit_mono [of _ b]
    by (auto simp: can_place_def size_div_def list_all_iff split: if_splits option.splits)
next
  case False
  then show ?thesis
    using assms(4,7) route_single [OF False] best_budget_fits [OF _ assms(2,6)] by (simp add: can_place_def)
qed

section \<open>Properties\<close>

text \<open>
  C40. The router's books balance: for the decision of \<open>route\<close> on distinct devices, reserving and then
  unreserving leaves every budget as it was, and so does reserving, committing and freeing, whatever the
  number of bytes and even where a share is rounded down.
\<close>

theorem router_books_balance:
  assumes "dec = fst (route r g0)" and "distinct (rd_device_ids dec)" and "length (rd_device_ids dec) < 2 ^ 64"
  shows "\<exists>g1 g2. reserve dec bytes g = Some g1 \<and> commit dec bytes g1 = Some g2 \<and>
    unreserve dec bytes g1 = Some g \<and> router_free (rd_device_ids dec) bytes g2 = g"
proof -
  define n where "n = (if length (rd_device_ids dec) > 1 then bytes div sz (rd_device_ids dec) else bytes)"
  have share: "share dec bytes = Some n"
    unfolding n_def using share_free [of dec bytes] assms(3) route_decision_ok [of r g0] by (simp add: assms(1))
  let ?res = "\<lambda>b. b\<lparr>gb_reserved := gb_reserved b + n\<rparr>"
  let ?com = "\<lambda>b. b\<lparr>gb_reserved := gb_reserved b - n, gb_used := gb_used b + n\<rparr>"
  let ?g1 = "on_devices (rd_device_ids dec) ?res g"
  have "on_devices (rd_device_ids dec) (\<lambda>b. b\<lparr>gb_reserved := gb_reserved b - n\<rparr>) ?g1 = g"
    by (subst on_devices_comp [OF assms(2)]) (simp_all add: comp_def on_devices_id)
  moreover have "on_devices (rd_device_ids dec) (\<lambda>b. b\<lparr>gb_used := gb_used b - n\<rparr>)
      (on_devices (rd_device_ids dec) ?com ?g1) = g"
    by (subst on_devices_comp [OF assms(2)], simp_all, subst on_devices_comp [OF assms(2)])
      (simp_all add: comp_def on_devices_id)
  ultimately show ?thesis
    using share router_free_def [of "rd_device_ids dec" bytes] n_def
    by (auto simp: reserve_def commit_def unreserve_def Let_def)
qed

text \<open>
  Placement stays within the budgets: when every budget is within its total, the budgets are those of
  the managed devices, and \<open>can_place\<close> accepts a request whose per-device figure covers an equal share,
  then reserving the routed decision succeeds and leaves every budget within its total, in exact
  arithmetic.
\<close>

theorem placement_within_budget:
  assumes "list_all budget_ok (budgets g)"
    and "map gb_device_id (budgets g) = map dev_id (devices (device_manager g))"
    and "distinct (map gb_device_id (budgets g))" and "length (budgets g) < 2 ^ 64"
    and "can_place r bytes per_device g = Some True"
    and "per_device = 0 \<or> bytes div sz (budgets g) \<le> per_device"
  shows "\<exists>g'. reserve (fst (route r g)) bytes g = Some g' \<and> list_all budget_ok (budgets g')"
proof -
  let ?dec = "fst (route r g)"
  have len: "length (rd_device_ids ?dec) < 2 ^ 64" using route_length [OF assms(2,4)] .
  have dist: "distinct (rd_device_ids ?dec)" using route_distinct [of g r] assms(2,3) by simp
  define n where "n = (if length (rd_device_ids ?dec) > 1 then bytes div sz (rd_device_ids ?dec) else bytes)"
  have share: "share ?dec bytes = Some n"
    unfolding n_def by (rule share_free [OF route_decision_ok len])
  have fits: "can_fit n b" if "b \<in> set (budgets g)" "gb_device_id b \<in> set (rd_device_ids ?dec)" for b
    using route_fits [OF assms(2-6) that] by (simp add: n_def)
  have "list_all budget_ok (map (\<lambda>b. if gb_device_id b \<in> set (rd_device_ids ?dec)
      then b\<lparr>gb_reserved := gb_reserved b + n\<rparr> else b) (budgets g))"
    using assms(1) fits budget_ok_reserve by (auto simp: list_all_iff)
  then show ?thesis
    using on_devices_map [OF dist assms(3), of "\<lambda>b. b\<lparr>gb_reserved := gb_reserved b + n\<rparr>"] share
    by (simp add: reserve_def)
qed

definition demo_request :: "json request" where
  "demo_request = make_request 1 2 0 demo_api_request"

definition demo_router :: gpu_router where
  "demo_router = initialize_budgets 1000000000000 (new_gpu_router demo_devices)"

lemma demo_devices_ids: "map dev_id (devices demo_devices) = [0, 1]" "length (devices demo_devices) = 2"
  by (simp_all add: device_eval)

lemma demo_router_facts:
  "length (budgets demo_router) = 2" "map gb_device_id (budgets demo_router) = [0, 1]"
  "map dev_id (devices (device_manager demo_router)) = [0, 1]" "list_all budget_ok (budgets demo_router)"
  using demo_devices_ids
  by (simp_all add: demo_router_def initialize_budgets_def new_gpu_router_def comp_def list_all_iff budget_ok_def)

theorem router_books_balance_witness:
  "\<exists>g1 g2. reserve (fst (route demo_request demo_router)) 4096 demo_router = Some g1 \<and>
    commit (fst (route demo_request demo_router)) 4096 g1 = Some g2 \<and>
    unreserve (fst (route demo_request demo_router)) 4096 g1 = Some demo_router \<and>
    router_free (rd_device_ids (fst (route demo_request demo_router))) 4096 g2 = demo_router"
  by (rule router_books_balance [OF refl])
    (use route_distinct [of demo_router demo_request] route_length [of demo_router demo_request]
     in \<open>simp_all add: demo_router_facts\<close>)

lemma demo_can_place: "can_place demo_request 4096 0 demo_router = Some True"
proof -
  have "can_fit n b" if "b \<in> set (budgets demo_router)" "n \<le> 4096" for n b
    using that by (auto simp: demo_router_def initialize_budgets_def new_gpu_router_def can_fit_def available_def
      word_le_nat_alt)
  then show ?thesis
    using demo_router_facts(1) by (cases "budgets demo_router") (auto simp: can_place_def size_div_def list_all_iff)
qed

theorem placement_within_budget_witness:
  "\<exists>g'. reserve (fst (route demo_request demo_router)) 4096 demo_router = Some g' \<and> list_all budget_ok (budgets g')"
  by (rule placement_within_budget [OF demo_router_facts(4) _ _ _ demo_can_place])
    (simp_all add: demo_router_facts)

end
