(* ===== verification/Request_Registry.thy ===== *)
theory Request_Registry
  imports Request
begin

text \<open>
  \<^verbatim>\<open>src/scheduler/request_registry.cpp\<close>: the registry of submitted requests. A \<open>RequestPtr\<close> is an
  address, and the request it points to is what the store holds there, so that the registry, the queue
  and the active list of the scheduler share one object. \<open>unordered_map\<close> is an association list: its
  iteration order is not specified by C++, and no result below depends on it. Every operation holds the
  registry's mutex.
\<close>

section \<open>Definitions\<close>

type_synonym request_ptr = nat
type_synonym 'j request_store = "request_ptr \<Rightarrow> 'j request"
type_synonym request_registry = "(string \<times> request_ptr) list"

definition registry_add :: "'j request_store \<Rightarrow> request_ptr \<Rightarrow> request_registry \<Rightarrow> request_registry" where
  "registry_add st p reg = AList.update (r_id (st p)) p reg"

definition registry_remove :: "string \<Rightarrow> request_registry \<Rightarrow> request_registry" where
  "registry_remove i reg = AList.delete i reg"

definition registry_get :: "string \<Rightarrow> request_registry \<Rightarrow> request_ptr option" where
  "registry_get i reg = map_of reg i"

definition get_by_state :: "'j request_store \<Rightarrow> request_state \<Rightarrow> request_registry \<Rightarrow> request_ptr list" where
  "get_by_state st q reg = filter (\<lambda>p. state (st p) = q) (map snd reg)"

fun state_counts :: "'j request_store \<Rightarrow> request_registry \<Rightarrow> request_state \<Rightarrow> size_t" where
  "state_counts st [] = (\<lambda>_. 0)"
| "state_counts st ((i, p) # reg) =
     (let counts = state_counts st reg in counts(state (st p) := counts (state (st p)) + 1))"

text \<open>\<open>cancel_token->cancel()\<close> on a request; a null token is left alone.\<close>

definition cancel_request :: "'j request \<Rightarrow> 'j request" where
  "cancel_request r = r\<lparr>cancel_token := map_option (\<lambda>t. snd (token_cancel t)) (cancel_token r)\<rparr>"

definition registry_cancel :: "string \<Rightarrow> request_registry \<Rightarrow> 'j request_store \<Rightarrow> 'j request_store" where
  "registry_cancel i reg st = (case map_of reg i of None \<Rightarrow> st | Some p \<Rightarrow> st(p := cancel_request (st p)))"

fun registry_cancel_all :: "request_registry \<Rightarrow> 'j request_store \<Rightarrow> 'j request_store" where
  "registry_cancel_all [] st = st"
| "registry_cancel_all ((i, p) # reg) st =
     registry_cancel_all reg (if \<not> is_terminal (st p) then st(p := cancel_request (st p)) else st)"

definition registry_count :: "request_registry \<Rightarrow> size_t" where
  "registry_count reg = sz reg"

section \<open>Lemmas\<close>

text \<open>Cancelling touches the token only.\<close>

lemma cancel_request_fields [simp]:
  "r_id (cancel_request r) = r_id r" "state (cancel_request r) = state r" "kv_cache (cancel_request r) = kv_cache r"
  "input_tokens (cancel_request r) = input_tokens r" "output_tokens (cancel_request r) = output_tokens r"
  "max_tokens (cancel_request r) = max_tokens r" "token_queue (cancel_request r) = token_queue r"
  "assigned_devices (cancel_request r) = assigned_devices r" "prefill_logits (cancel_request r) = prefill_logits r"
  "timing (cancel_request r) = timing r" "output_text (cancel_request r) = output_text r"
  "r_finish_reason (cancel_request r) = r_finish_reason r" "r_error (cancel_request r) = r_error r"
  by (simp_all add: cancel_request_def)

lemma is_cancelled_cancel_request: "is_cancelled (cancel_request r) \<longleftrightarrow> cancel_token r \<noteq> None"
  by (auto simp: is_cancelled_def cancel_request_def token_is_cancelled_def token_cancel_def cancel_exchange_def
      cancel_drain_def split: option.splits if_splits)

lemma is_cancelled_cancel_mono: "is_cancelled r \<Longrightarrow> is_cancelled (cancel_request r)"
  by (simp add: is_cancelled_cancel_request) (auto simp: is_cancelled_def split: option.splits)

end
