(* ===== verification/Metrics.thy ===== *)
theory Metrics
  imports Prelude
begin

text \<open>
  \<^verbatim>\<open>include/utils/metrics.hpp\<close> and \<^verbatim>\<open>src/utils/metrics.cpp\<close>: counters, gauges, histograms, the
  registry and its Prometheus export. A \<open>double\<close> is a real number; \<open>std::unordered_map\<close> is an
  association list, whose order stands for the iteration order of the map.
\<close>

section \<open>Counter, gauge, histogram\<close>

definition counter_increment :: "uint64 \<Rightarrow> uint64 \<Rightarrow> uint64" where
  "counter_increment delta v = v + delta"

definition gauge_increment :: "real \<Rightarrow> real \<Rightarrow> real" where
  "gauge_increment delta v = v + delta"

definition gauge_decrement :: "real \<Rightarrow> real \<Rightarrow> real" where
  "gauge_decrement delta v = v - delta"

record histogram =
  bounds :: "real list"
  hist_buckets :: "uint64 list"
  hist_sum :: real
  hist_count :: uint64

definition mk_histogram :: "real list \<Rightarrow> histogram" where
  "mk_histogram bs = \<lparr>bounds = bs, hist_buckets = replicate (length bs + 1) 0, hist_sum = 0, hist_count = 0\<rparr>"

definition default_histogram :: histogram where
  "default_histogram = mk_histogram [1/1000, 5/1000, 1/100, 25/1000, 5/100, 1/10, 25/100, 5/10, 1, 25/10, 5, 10]"

text \<open>The search loop of \<open>observe\<close>: the first bound that is not below the value, or the overflow bucket.\<close>

fun find_bucket :: "real list \<Rightarrow> real \<Rightarrow> nat" where
  "find_bucket [] v = 0"
| "find_bucket (b # bs) v = (if v \<le> b then 0 else Suc (find_bucket bs v))"

definition observe :: "real \<Rightarrow> histogram \<Rightarrow> histogram" where
  "observe v h =
     (let idx = find_bucket (bounds h) v
      in h\<lparr>hist_buckets := (hist_buckets h)[idx := hist_buckets h ! idx + 1],
           hist_sum := hist_sum h + v, hist_count := hist_count h + 1\<rparr>)"

text \<open>\<open>buckets()\<close>: the bounds with their counts, then the overflow bucket (bound infinity, \<^const>\<open>None\<close>).\<close>

definition buckets_of :: "histogram \<Rightarrow> (real option \<times> uint64) list" where
  "buckets_of h = zip (map Some (bounds h)) (hist_buckets h) @ [(None, last (hist_buckets h))]"

text \<open>\<open>ScopedHistogramTimer\<close>: its destructor observes the seconds since its construction.\<close>

record histogram_timer =
  histogram_timer_start :: real

definition histogram_timer_create :: "real \<Rightarrow> histogram_timer" where
  "histogram_timer_create at_time = \<lparr>histogram_timer_start = at_time\<rparr>"

definition histogram_timer_destroy :: "real \<Rightarrow> histogram_timer \<Rightarrow> histogram \<Rightarrow> histogram" where
  "histogram_timer_destroy at_time t h = observe (at_time - histogram_timer_start t) h"

section \<open>Registry\<close>

record metrics_registry =
  counters :: "(string \<times> uint64) list"
  gauges :: "(string \<times> real) list"
  histograms :: "(string \<times> histogram) list"

definition empty_registry :: metrics_registry where
  "empty_registry = \<lparr>counters = [], gauges = [], histograms = []\<rparr>"

definition counter :: "string \<Rightarrow> metrics_registry \<Rightarrow> uint64" where
  "counter name r = (case map_of (counters r) name of None \<Rightarrow> 0 | Some v \<Rightarrow> v)"

definition gauge :: "string \<Rightarrow> metrics_registry \<Rightarrow> real" where
  "gauge name r = (case map_of (gauges r) name of None \<Rightarrow> 0 | Some v \<Rightarrow> v)"

definition histogram_of :: "string \<Rightarrow> metrics_registry \<Rightarrow> histogram" where
  "histogram_of name r = (case map_of (histograms r) name of None \<Rightarrow> default_histogram | Some h \<Rightarrow> h)"

text \<open>\<open>counter(name).increment()\<close> and its companions: the accessor inserts a missing metric.\<close>

definition inc_counter :: "string \<Rightarrow> metrics_registry \<Rightarrow> metrics_registry" where
  "inc_counter name r =
     r\<lparr>counters := AList.update name (counter_increment 1 (counter name r)) (counters r)\<rparr>"

definition inc_gauge :: "string \<Rightarrow> metrics_registry \<Rightarrow> metrics_registry" where
  "inc_gauge name r = r\<lparr>gauges := AList.update name (gauge_increment 1 (gauge name r)) (gauges r)\<rparr>"

definition dec_gauge :: "string \<Rightarrow> metrics_registry \<Rightarrow> metrics_registry" where
  "dec_gauge name r = r\<lparr>gauges := AList.update name (gauge_decrement 1 (gauge name r)) (gauges r)\<rparr>"

definition set_gauge :: "string \<Rightarrow> real \<Rightarrow> metrics_registry \<Rightarrow> metrics_registry" where
  "set_gauge name v r = r\<lparr>gauges := AList.update name v (gauges r)\<rparr>"

definition observe_in :: "string \<Rightarrow> real \<Rightarrow> metrics_registry \<Rightarrow> metrics_registry" where
  "observe_in name v r = r\<lparr>histograms := AList.update name (observe v (histogram_of name r)) (histograms r)\<rparr>"

definition registry_reset :: "metrics_registry \<Rightarrow> metrics_registry" where
  "registry_reset r = empty_registry"

section \<open>Prometheus export\<close>

definition newline :: string where
  "newline = [CHR 0x0A]"

definition quote :: string where
  "quote = [CHR 0x22]"

definition export_counter :: "string \<times> uint64 \<Rightarrow> string" where
  "export_counter = (\<lambda>(name, v). ''# TYPE '' @ name @ '' counter'' @ newline @ name @ '' '' @ nat_to_string (unat v) @ newline)"

definition export_gauge :: "string \<times> real \<Rightarrow> string" where
  "export_gauge = (\<lambda>(name, v). ''# TYPE '' @ name @ '' gauge'' @ newline @ name @ '' '' @ fixed 6 v @ newline)"

fun cumulative :: "uint64 \<Rightarrow> (real option \<times> uint64) list \<Rightarrow> (real option \<times> uint64) list" where
  "cumulative acc [] = []"
| "cumulative acc ((b, n) # bs) = (b, acc + n) # cumulative (acc + n) bs"

definition export_bucket :: "string \<Rightarrow> real option \<times> uint64 \<Rightarrow> string" where
  "export_bucket name = (\<lambda>(b, n).
     name @ ''_bucket{le='' @ quote @ (case b of None \<Rightarrow> ''+Inf'' | Some x \<Rightarrow> fixed 3 x) @ quote @ ''} '' @
     nat_to_string (unat n) @ newline)"

definition export_histogram :: "string \<times> histogram \<Rightarrow> string" where
  "export_histogram = (\<lambda>(name, h).
     ''# TYPE '' @ name @ '' histogram'' @ newline @
     concat (map (export_bucket name) (cumulative 0 (buckets_of h))) @
     name @ ''_sum '' @ fixed 6 (hist_sum h) @ newline @
     name @ ''_count '' @ nat_to_string (unat (hist_count h)) @ newline)"

definition export_prometheus :: "metrics_registry \<Rightarrow> string" where
  "export_prometheus r =
     concat (map export_counter (counters r)) @ concat (map export_gauge (gauges r)) @
     concat (map export_histogram (histograms r))"

section \<open>Metric names\<close>

definition REQUESTS_TOTAL :: string where "REQUESTS_TOTAL = ''inference_requests_total''"
definition REQUESTS_ACTIVE :: string where "REQUESTS_ACTIVE = ''inference_requests_active''"
definition QUEUE_DEPTH :: string where "QUEUE_DEPTH = ''inference_queue_depth''"
definition TIME_TO_FIRST_TOKEN :: string where "TIME_TO_FIRST_TOKEN = ''inference_time_to_first_token_seconds''"
definition PREFILL_TIME :: string where "PREFILL_TIME = ''inference_prefill_time_seconds''"
definition DECODE_TIME :: string where "DECODE_TIME = ''inference_decode_time_seconds''"
definition KV_CACHE_USED :: string where "KV_CACHE_USED = ''inference_kv_cache_used_bytes''"
definition KV_CACHE_TOTAL :: string where "KV_CACHE_TOTAL = ''inference_kv_cache_total_bytes''"
definition TOKENS_GENERATED :: string where "TOKENS_GENERATED = ''inference_tokens_generated_total''"
definition GPU_MEMORY_USED :: string where "GPU_MEMORY_USED = ''inference_gpu_memory_used_bytes''"
definition TOKENS_PER_SECOND :: string where "TOKENS_PER_SECOND = ''inference_tokens_per_second''"
definition TOKENS_DROPPED :: string where "TOKENS_DROPPED = ''inference_tokens_dropped_total''"

lemmas metric_names =
  REQUESTS_TOTAL_def REQUESTS_ACTIVE_def QUEUE_DEPTH_def TIME_TO_FIRST_TOKEN_def PREFILL_TIME_def
  DECODE_TIME_def KV_CACHE_USED_def KV_CACHE_TOTAL_def TOKENS_GENERATED_def TOKENS_DROPPED_def GPU_MEMORY_USED_def TOKENS_PER_SECOND_def

section \<open>Lookups after updates\<close>

lemma gauge_updates [simp]:
  "gauge n (inc_gauge m r) = gauge n r + (if n = m then 1 else 0)"
  "gauge n (dec_gauge m r) = gauge n r - (if n = m then 1 else 0)"
  "gauge n (set_gauge m v r) = (if n = m then v else gauge n r)"
  "gauge n (inc_counter m r) = gauge n r"
  "gauge n (observe_in m v r) = gauge n r"
  by (auto simp: gauge_def inc_gauge_def dec_gauge_def set_gauge_def inc_counter_def observe_in_def
      gauge_increment_def gauge_decrement_def)

lemma counter_updates [simp]:
  "counter n (inc_counter m r) = counter n r + (if n = m then 1 else 0)"
  "counter n (inc_gauge m r) = counter n r"
  "counter n (dec_gauge m r) = counter n r"
  "counter n (observe_in m v r) = counter n r"
  by (auto simp: counter_def inc_gauge_def dec_gauge_def inc_counter_def observe_in_def counter_increment_def)

section \<open>Concurrent updates of a gauge\<close>

text \<open>
  \<open>Gauge::increment\<close> and \<open>Gauge::decrement\<close> load the atomic cell and store the changed value, in two steps. The
  cell, the value each thread has loaded and not yet stored, and the updates finished so far.
\<close>

record gauge_race =
  cell :: real
  loaded :: "nat \<Rightarrow> real option"
  ups :: nat
  downs :: nat

definition gauge_race_init :: "real \<Rightarrow> gauge_race" where
  "gauge_race_init v = \<lparr>cell = v, loaded = (\<lambda>t. None), ups = 0, downs = 0\<rparr>"

inductive gauge_step :: "gauge_race \<Rightarrow> gauge_race \<Rightarrow> bool" where
  load: "loaded g t = None \<Longrightarrow> gauge_step g (g\<lparr>loaded := (loaded g)(t := Some (cell g))\<rparr>)"
| store_up: "loaded g t = Some v \<Longrightarrow>
    gauge_step g (g\<lparr>cell := gauge_increment 1 v, loaded := (loaded g)(t := None), ups := Suc (ups g)\<rparr>)"
| store_down: "loaded g t = Some v \<Longrightarrow>
    gauge_step g (g\<lparr>cell := gauge_decrement 1 v, loaded := (loaded g)(t := None), downs := Suc (downs g)\<rparr>)"

definition gauge_between :: "real \<Rightarrow> gauge_race \<Rightarrow> real \<Rightarrow> bool" where
  "gauge_between v0 g v \<longleftrightarrow> v0 - real (downs g) \<le> v \<and> v \<le> v0 + real (ups g)"

text \<open>However the updates interleave, the gauge is off by at most the number of updates in one direction.\<close>

lemma gauge_race_bounds:
  assumes "gauge_step\<^sup>*\<^sup>* (gauge_race_init v0) g"
  shows "gauge_between v0 g (cell g) \<and> (\<forall>t v. loaded g t = Some v \<longrightarrow> gauge_between v0 g v)"
  using assms
proof (induction rule: rtranclp_induct)
  case base
  then show ?case by (simp add: gauge_race_init_def gauge_between_def)
next
  case (step g g')
  from step.hyps(2) step.IH show ?case
    by cases (force simp: gauge_between_def gauge_increment_def gauge_decrement_def)+
qed

text \<open>Two increments may add one, so the lower bound is not the exact count.\<close>

lemma gauge_loses_update:
  "\<exists>g. gauge_step\<^sup>*\<^sup>* (gauge_race_init v0) g \<and> ups g = 2 \<and> downs g = 0 \<and> loaded g = (\<lambda>t. None) \<and> cell g = v0 + 1"
proof -
  let ?g = "\<lambda>l n v. \<lparr>cell = v, loaded = l, ups = n, downs = 0\<rparr>"
  let ?n = "\<lambda>t. None" and ?a = "(\<lambda>t. None)(0 := Some v0)" and ?b = "(\<lambda>t. None)(1 := Some v0)"
  have "gauge_step (gauge_race_init v0) (?g ?a 0 v0)" "gauge_step (?g ?a 0 v0) (?g (?a(1 := Some v0)) 0 v0)"
    using load [of "gauge_race_init v0" 0] load [of "?g ?a 0 v0" 1] by (simp_all add: gauge_race_init_def)
  moreover have "gauge_step (?g (?a(1 := Some v0)) 0 v0) (?g ?b 1 (v0 + 1))"
    using store_up [of "?g (?a(1 := Some v0)) 0 v0" 0 v0] by (simp add: gauge_increment_def fun_upd_twist)
  moreover have "gauge_step (?g ?b 1 (v0 + 1)) (?g ?n 2 (v0 + 1))"
    using store_up [of "?g ?b 1 (v0 + 1)" 1 v0] by (simp add: gauge_increment_def numeral_2_eq_2 fun_upd_idem)
  ultimately have "gauge_step\<^sup>*\<^sup>* (gauge_race_init v0) (?g ?n 2 (v0 + 1))"
    by (meson converse_rtranclp_into_rtranclp rtranclp.rtrancl_refl)
  then show ?thesis by fastforce
qed

section \<open>What a histogram counts\<close>

lemma find_bucket_le: "find_bucket bs v \<le> length bs"
  by (induction bs) auto

text \<open>For ascending bounds, the value falls into bucket \<open>i\<close> or an earlier one iff it is at most bound \<open>i\<close>.\<close>

lemma find_bucket_le_iff:
  assumes "sorted bs" and "i < length bs"
  shows "find_bucket bs v \<le> i \<longleftrightarrow> v \<le> bs ! i"
  using assms
proof (induction bs arbitrary: i)
  case (Cons b bs)
  then show ?case
    by (cases i) (auto dest: nth_mem intro: order_trans)
qed simp

definition hist_count_in :: "real list \<Rightarrow> real list \<Rightarrow> nat \<Rightarrow> nat" where
  "hist_count_in bs vs i = length (filter (\<lambda>v. find_bucket bs v = i) vs)"

lemma observe_fold:
  "fold observe vs (mk_histogram bs) =
     \<lparr>bounds = bs, hist_buckets = map (\<lambda>i. of_nat (hist_count_in bs vs i)) [0..<Suc (length bs)],
      hist_sum = sum_list vs, hist_count = of_nat (length vs)\<rparr>"
proof (induction vs rule: rev_induct)
  case Nil
  then show ?case by (simp add: mk_histogram_def hist_count_in_def map_replicate_const)
next
  case (snoc v vs)
  have "(map (\<lambda>i. of_nat (hist_count_in bs vs i) :: uint64) [0..<Suc (length bs)])
      [find_bucket bs v := of_nat (hist_count_in bs vs (find_bucket bs v)) + 1] =
      map (\<lambda>i. of_nat (hist_count_in bs (vs @ [v]) i)) [0..<Suc (length bs)]" (is "?l = ?r")
  proof (rule nth_equalityI)
    show "length ?l = length ?r" by simp
    show "?l ! i = ?r ! i" if "i < length ?l" for i
      using that by (cases "i = find_bucket bs v")
        (simp_all add: hist_count_in_def nth_list_update del: upt_Suc)
  qed
  moreover have "find_bucket bs v < Suc (length bs)" using find_bucket_le le_imp_less_Suc by blast
  ultimately show ?case
    using snoc by (simp add: observe_def Let_def del: upt_Suc)
qed

lemma cumulative_nth:
  "i < length bs \<Longrightarrow> cumulative acc bs ! i = (fst (bs ! i), acc + sum_list (map snd (take (Suc i) bs)))"
  by (induction bs arbitrary: acc i) (auto simp: nth_Cons split: nat.splits prod.splits simp: add.assoc)

lemma length_cumulative [simp]: "length (cumulative acc bs) = length bs"
  by (induction acc bs rule: cumulative.induct) auto

lemma sum_hist_count_in:
  "sum_list (map (hist_count_in bs vs) [0..<n]) = length (filter (\<lambda>v. find_bucket bs v < n) vs)"
proof (induction n)
  case (Suc n)
  have "length (filter (\<lambda>v. find_bucket bs v < Suc n) vs) =
      length (filter (\<lambda>v. find_bucket bs v < n) vs) + hist_count_in bs vs n"
    unfolding hist_count_in_def by (induction vs) auto
  with Suc show ?case by simp
qed simp

lemma buckets_of_observed:
  "buckets_of (fold observe vs (mk_histogram bs)) =
     map (\<lambda>i. (if i < length bs then Some (bs ! i) else None, of_nat (hist_count_in bs vs i))) [0..<Suc (length bs)]"
proof -
  have "zip (map Some bs) (map f [0..<Suc (length bs)]) = map (\<lambda>i. (Some (bs ! i), f i)) [0..<length bs]"
    for f :: "nat \<Rightarrow> uint64"
    by (rule nth_equalityI) (simp_all del: upt_Suc)
  moreover have "map (\<lambda>i. (Some (bs ! i), f i)) [0..<length bs] =
      map (\<lambda>i. (if i < length bs then Some (bs ! i) else None, f i)) [0..<length bs]" for f :: "nat \<Rightarrow> uint64"
    by simp
  ultimately show ?thesis
    unfolding buckets_of_def observe_fold by (simp only: histogram.simps) simp
qed

lemma cumulative_observed:
  assumes "i \<le> length bs"
  shows "cumulative 0 (buckets_of (fold observe vs (mk_histogram bs))) ! i =
    (if i < length bs then Some (bs ! i) else None, of_nat (length (filter (\<lambda>v. find_bucket bs v \<le> i) vs)))"
proof -
  have "sum_list (map snd (take (Suc i) (buckets_of (fold observe vs (mk_histogram bs))))) =
      sum_list (map (of_nat \<circ> hist_count_in bs vs) [0..<Suc i])"
    unfolding buckets_of_observed take_map using assms
    by (simp add: take_upt comp_def del: upt_Suc)
  also have "\<dots> = (of_nat (sum_list (map (hist_count_in bs vs) [0..<Suc i])) :: uint64)"
    by (induction i) (simp_all add: comp_def)
  finally show ?thesis
    using assms cumulative_nth [of i "buckets_of (fold observe vs (mk_histogram bs))" 0]
    unfolding sum_hist_count_in by (simp add: buckets_of_observed less_Suc_eq_le del: upt_Suc)
qed

section \<open>Properties\<close>

text \<open>
  The cumulative bucket counts of the Prometheus export are exact: for a histogram with ascending
  bounds, bucket \<open>le = b\<close> counts the observations that are at most \<open>b\<close>, and the \<open>+Inf\<close> bucket equals
  \<open>_count\<close>, the number of all observations.
\<close>

theorem histogram_export_counts:
  assumes "sorted bs" and "h = fold observe vs (mk_histogram bs)"
  shows "(\<forall>i < length bs. cumulative 0 (buckets_of h) ! i =
      (Some (bs ! i), of_nat (length (filter (\<lambda>v. v \<le> bs ! i) vs)))) \<and>
    cumulative 0 (buckets_of h) ! length bs = (None, of_nat (length vs)) \<and>
    length (cumulative 0 (buckets_of h)) = Suc (length bs) \<and>
    hist_count h = of_nat (length vs) \<and> hist_sum h = sum_list vs"
proof -
  have "filter (\<lambda>v. find_bucket bs v \<le> i) vs = filter (\<lambda>v. v \<le> bs ! i) vs" if "i < length bs" for i
    using find_bucket_le_iff [OF assms(1) that] by simp
  moreover have "length (buckets_of h) = Suc (length bs)" by (simp add: assms(2) buckets_of_observed)
  moreover have "hist_count h = of_nat (length vs)" "hist_sum h = sum_list vs" by (simp_all add: assms(2) observe_fold)
  ultimately show ?thesis
    using cumulative_observed [of _ bs vs] find_bucket_le by (simp add: assms(2))
qed

theorem histogram_export_counts_witness:
  "cumulative 0 (buckets_of (fold observe [1/2, 3, 7/2, 20] (mk_histogram [1, 7/2, 10]))) ! 1
     = (Some (7/2), 3)"
proof -
  have "sorted [1, 7/2, 10 :: real]" by simp
  from histogram_export_counts [OF this refl, of "[1/2, 3, 7/2, 20]"] show ?thesis by simp
qed

end
