(* ===== verification/Scheduler.thy ===== *)
theory Scheduler
  imports Request_Registry Gpu_Router Stop_Checker Sampler Metrics Pooled_Allocator
begin

text \<open>
  \<^verbatim>\<open>src/scheduler/scheduler.cpp\<close>: admission, prefill, the decode step, completion and failure of
  requests, and the two loops of the decode thread. The collaborators behind virtual interfaces
  (\<open>IModelRuntime\<close>, \<open>IKVCacheAllocator\<close>, the random numbers, the clock) are the record \<open>environment\<close>;
  both allocators of the repository are instances of \<open>kv_ops\<close>. The \<open>n\<close>-th call of
  \<open>steady_clock::now()\<close> returns \<open>clock n\<close>; a deadline test counts as a call even when there is no
  deadline, which an arbitrary clock cannot tell apart. A callback of a request is recorded in \<open>callback_log\<close>. Log
  lines are not modelled.
\<close>

section \<open>Collaborators\<close>

record 'k kv_ops =
  ka_config :: "'k \<Rightarrow> kv_allocator_config"
  ka_allocate :: "size_t \<Rightarrow> 'k \<Rightarrow> kv_cache_handle result \<times> 'k"
  ka_allocate_tensor_parallel :: "size_t \<Rightarrow> int32 list \<Rightarrow> 'k \<Rightarrow> kv_cache_handle result \<times> 'k"
  ka_free :: "kv_cache_handle \<Rightarrow> 'k \<Rightarrow> kv_cache_handle \<times> 'k"
  ka_can_allocate :: "size_t \<Rightarrow> 'k \<Rightarrow> bool"

definition contiguous_ops :: "'c cuda \<Rightarrow> (contiguous \<times> 'c) kv_ops" where
  "contiguous_ops C = \<lparr>ka_config = (\<lambda>(s, c). ca_config s), ka_allocate = (\<lambda>n (s, c). ca_allocate C n s c),
     ka_allocate_tensor_parallel = (\<lambda>n ds (s, c). ca_allocate_tensor_parallel C n ds s c),
     ka_free = (\<lambda>h (s, c). ca_free C h s c), ka_can_allocate = (\<lambda>n (s, c). ca_can_allocate n s)\<rparr>"

definition pooled_ops :: "'c cuda \<Rightarrow> (pooled \<times> 'c) kv_ops" where
  "pooled_ops C = \<lparr>ka_config = (\<lambda>(s, c). pa_config s), ka_allocate = (\<lambda>n (s, c). pa_allocate C n s c),
     ka_allocate_tensor_parallel = (\<lambda>n ds (s, c). pa_allocate_tensor_parallel C n ds s c),
     ka_free = (\<lambda>h (s, c). pa_free C h s c), ka_can_allocate = (\<lambda>n (s, c). pa_can_allocate n s)\<rparr>"

record ('r, 'k, 'g) environment =
  runtime :: "'r model_runtime"
  kv_interface :: "'k kv_ops"
  random :: "'g std_random"
  env_tokenizer :: tokenizer
  clock :: "nat \<Rightarrow> time_point"

section \<open>State\<close>

record scheduler_config =
  max_queue_size :: size_t
  max_active_requests :: size_t
  decode_loop_interval_us :: uint32
  enable_continuous_batching :: bool
  queue_timeout_sec :: uint32
  request_timeout_sec :: uint32
  decode_timeout_sec :: uint32

definition default_scheduler_config :: scheduler_config where
  "default_scheduler_config = \<lparr>max_queue_size = 100, max_active_requests = 4, decode_loop_interval_us = 100,
     enable_continuous_batching = False, queue_timeout_sec = 60, request_timeout_sec = 300, decode_timeout_sec = 0\<rparr>"

datatype callback_call = On_token request_ptr int32 string | On_complete request_ptr finish_reason | On_error request_ptr error

record ('j, 'r, 'k, 'g) scheduler =
  sch_config :: scheduler_config
  store :: "'j request_store"
  registry :: request_registry
  pending_queue :: "request_ptr list"
  active_requests :: "request_ptr list"
  running :: bool
  completed_count :: uint64
  cancelled_count :: uint64
  errored_count :: uint64
  router :: "gpu_router option"
  kv_state :: 'k
  rt_state :: 'r
  rng_state :: 'g
  sch_metrics :: metrics_registry
  ticks :: nat
  callback_log :: "callback_call list"

definition new_scheduler ::
  "scheduler_config \<Rightarrow> 'j request_store \<Rightarrow> 'k \<Rightarrow> 'r \<Rightarrow> 'g \<Rightarrow> ('j, 'r, 'k, 'g) scheduler" where
  "new_scheduler cfg st k r g = \<lparr>sch_config = cfg, store = st, registry = [], pending_queue = [], active_requests = [],
     running = False, completed_count = 0, cancelled_count = 0, errored_count = 0, router = None, kv_state = k,
     rt_state = r, rng_state = g, sch_metrics = empty_registry, ticks = 0, callback_log = []\<rparr>"

text \<open>Access to the request behind a pointer, to the metrics, to the clock and to the callbacks.\<close>

definition upd :: "request_ptr \<Rightarrow> ('j request \<Rightarrow> 'j request) \<Rightarrow> ('j, 'r, 'k, 'g) scheduler \<Rightarrow> ('j, 'r, 'k, 'g) scheduler" where
  "upd p f s = s\<lparr>store := (store s)(p := f (store s p))\<rparr>"

definition measure_in :: "(metrics_registry \<Rightarrow> metrics_registry) \<Rightarrow> ('j, 'r, 'k, 'g) scheduler \<Rightarrow> ('j, 'r, 'k, 'g) scheduler" where
  "measure_in f s = s\<lparr>sch_metrics := f (sch_metrics s)\<rparr>"

definition now :: "('r, 'k, 'g) environment \<Rightarrow> ('j, 'r, 'k, 'g) scheduler \<Rightarrow> time_point" where
  "now E s = clock E (ticks s)"

definition tick :: "('j, 'r, 'k, 'g) scheduler \<Rightarrow> ('j, 'r, 'k, 'g) scheduler" where
  "tick s = s\<lparr>ticks := Suc (ticks s)\<rparr>"

definition call :: "callback_call \<Rightarrow> ('j, 'r, 'k, 'g) scheduler \<Rightarrow> ('j, 'r, 'k, 'g) scheduler" where
  "call c s = s\<lparr>callback_log := callback_log s @ [c]\<rparr>"

definition set_timing :: "request_ptr \<Rightarrow> (request_timing \<Rightarrow> request_timing) \<Rightarrow>
    ('j, 'r, 'k, 'g) scheduler \<Rightarrow> ('j, 'r, 'k, 'g) scheduler" where
  "set_timing p f = upd p (\<lambda>r. r\<lparr>timing := f (timing r)\<rparr>)"

section \<open>Start, stop and queries\<close>

definition start :: "('j, 'r, 'k, 'g) scheduler \<Rightarrow> unit result \<times> ('j, 'r, 'k, 'g) scheduler" where
  "start s = (if running s then (Inl (internal ''Scheduler already running''), s) else (Inr (), s\<lparr>running := True\<rparr>))"

text \<open>\<open>stop\<close> clears the flag, waits for the decode thread, then cancels what is still registered.\<close>

definition stop_signal :: "('j, 'r, 'k, 'g) scheduler \<Rightarrow> ('j, 'r, 'k, 'g) scheduler" where
  "stop_signal s = s\<lparr>running := False\<rparr>"

definition stop_finish :: "('j, 'r, 'k, 'g) scheduler \<Rightarrow> ('j, 'r, 'k, 'g) scheduler" where
  "stop_finish s = s\<lparr>store := registry_cancel_all (registry s) (store s)\<rparr>"

definition stop :: "('j, 'r, 'k, 'g) scheduler \<Rightarrow> ('j, 'r, 'k, 'g) scheduler" where
  "stop s = (if \<not> running s then s else stop_finish (stop_signal s))"

definition cancel :: "string \<Rightarrow> ('j, 'r, 'k, 'g) scheduler \<Rightarrow> ('j, 'r, 'k, 'g) scheduler" where
  "cancel i s = s\<lparr>store := registry_cancel i (registry s) (store s)\<rparr>"

definition get_request :: "string \<Rightarrow> ('j, 'r, 'k, 'g) scheduler \<Rightarrow> request_ptr option" where
  "get_request i s = registry_get i (registry s)"

record scheduler_stats =
  st_queued :: size_t
  st_active :: size_t
  st_completed :: size_t
  st_cancelled :: size_t
  st_errored :: size_t

definition stats :: "('j, 'r, 'k, 'g) scheduler \<Rightarrow> scheduler_stats" where
  "stats s = (let counts = state_counts (store s) (registry s)
     in \<lparr>st_queued = counts Queued, st_active = counts Prefilling + counts Decoding,
         st_completed = completed_count s, st_cancelled = cancelled_count s, st_errored = errored_count s\<rparr>)"

definition is_running :: "('j, 'r, 'k, 'g) scheduler \<Rightarrow> bool" where
  "is_running s = running s"

definition set_gpu_router :: "gpu_router \<Rightarrow> ('j, 'r, 'k, 'g) scheduler \<Rightarrow> ('j, 'r, 'k, 'g) scheduler" where
  "set_gpu_router g s = s\<lparr>router := Some g\<rparr>"

definition KV_BYTES_PER_TOKEN :: size_t where
  "KV_BYTES_PER_TOKEN = 2 * 64 * 8 * 128 * 2"

definition estimate_kv_memory :: "size_t \<Rightarrow> size_t" where
  "estimate_kv_memory len = len * KV_BYTES_PER_TOKEN"

section \<open>Submission\<close>

text \<open>Admission control; \<^const>\<open>None\<close> when \<open>can_place\<close> divides by an empty budget list.\<close>

definition admit :: "('r, 'k, 'g) environment \<Rightarrow> request_ptr \<Rightarrow> ('j, 'r, 'k, 'g) scheduler \<Rightarrow> unit result option" where
  "admit E p s =
     (let r = store s p; len = request_seq_len r; K = kv_interface E
      in if sz (pending_queue s) \<ge> max_queue_size (sch_config s) then Some (Inl (resource_exhausted ''Queue full''))
         else case (case router s of None \<Rightarrow> Some True
                    | Some g \<Rightarrow> can_place r (estimate_kv_memory len)
                        (bytes_for_seq_len_per_device (ka_config K (kv_state s)) len) g) of
           None \<Rightarrow> None
         | Some False \<Rightarrow> Some (Inl (resource_exhausted ''Insufficient GPU memory for request''))
         | Some True \<Rightarrow>
             if \<not> ka_can_allocate K len (kv_state s)
             then Some (Inl (resource_exhausted ''Insufficient memory for request''))
             else Some (Inr ()))"

definition reject :: "request_ptr \<Rightarrow> error \<Rightarrow> ('j, 'r, 'k, 'g) scheduler \<Rightarrow> ('j, 'r, 'k, 'g) scheduler" where
  "reject p e s =
     (let s1 = upd p (\<lambda>r. r\<lparr>state := Rejected, r_error := Some e\<rparr>) s
      in if on_error (store s p) then call (On_error p e) s1 else s1)"

definition deadline_after :: "time_point \<Rightarrow> uint32 \<Rightarrow> time_point" where
  "deadline_after t secs = (if secs > 0 then t + seconds secs else time_max)"

text \<open>What \<open>submit\<close> does with an admitted request.\<close>

definition enqueue :: "('r, 'k, 'g) environment \<Rightarrow> request_ptr \<Rightarrow> ('j, 'r, 'k, 'g) scheduler \<Rightarrow> ('j, 'r, 'k, 'g) scheduler" where
  "enqueue E p s =
     (let s1 = s\<lparr>registry := registry_add (store s) p (registry s)\<rparr>;
          s2 = upd p (\<lambda>r. r\<lparr>state := Queued\<rparr>) s1;
          s3 = tick (set_timing p (\<lambda>t. t\<lparr>queued_at := now E s2\<rparr>) s2);
          t0 = now E s3;
          s4 = tick (set_timing p (\<lambda>t. t\<lparr>queue_deadline := deadline_after t0 (queue_timeout_sec (sch_config s)),
                 request_deadline := deadline_after t0 (request_timeout_sec (sch_config s)),
                 decode_deadline := time_max\<rparr>) s3);
          s5 = s4\<lparr>pending_queue := pending_queue s4 @ [p]\<rparr>
      in measure_in (\<lambda>m. inc_gauge QUEUE_DEPTH (inc_counter REQUESTS_TOTAL m)) s5)"

definition submit :: "('r, 'k, 'g) environment \<Rightarrow> request_ptr \<Rightarrow> ('j, 'r, 'k, 'g) scheduler \<Rightarrow>
    (unit result \<times> ('j, 'r, 'k, 'g) scheduler) option" where
  "submit E p s =
     (if \<not> running s then Some (Inl (internal ''Scheduler not running''), s)
      else case admit E p s of
        None \<Rightarrow> None
      | Some (Inl e) \<Rightarrow> Some (Inl e, reject p e s)
      | Some (Inr _) \<Rightarrow> Some (Inr (), enqueue E p s))"

section \<open>Release, completion and failure\<close>

definition release_budget :: "request_ptr \<Rightarrow> ('j, 'r, 'k, 'g) scheduler \<Rightarrow> ('j, 'r, 'k, 'g) scheduler" where
  "release_budget p s =
     (let r = store s p
      in case router s of
        None \<Rightarrow> s
      | Some g \<Rightarrow> if assigned_devices r = [] then s
          else s\<lparr>router := Some (router_free (assigned_devices r) (estimate_kv_memory (request_seq_len r)) g)\<rparr>)"

definition free_resources :: "('r, 'k, 'g) environment \<Rightarrow> request_ptr \<Rightarrow> ('j, 'r, 'k, 'g) scheduler \<Rightarrow> ('j, 'r, 'k, 'g) scheduler" where
  "free_resources E p s =
     (if is_valid (kv_cache (store s p))
      then let s1 = release_budget p s; (h, k) = ka_free (kv_interface E) (kv_cache (store s p)) (kv_state s1)
           in upd p (\<lambda>r. r\<lparr>kv_cache := h\<rparr>) (s1\<lparr>kv_state := k\<rparr>)
      else s)"

text \<open>The queue part shared by the two ends of a request: push the final event, close.\<close>

definition finish_queue :: "request_ptr \<Rightarrow> token_event \<Rightarrow> ('j, 'r, 'k, 'g) scheduler \<Rightarrow> ('j, 'r, 'k, 'g) scheduler" where
  "finish_queue p ev = upd p (\<lambda>r. r\<lparr>token_queue := map_option (\<lambda>q. tq_close (snd (tq_push ev q))) (token_queue r)\<rparr>)"

definition drop_request :: "request_ptr \<Rightarrow> ('j, 'r, 'k, 'g) scheduler \<Rightarrow> ('j, 'r, 'k, 'g) scheduler" where
  "drop_request p s =
     (let s1 = s\<lparr>active_requests := removeAll p (active_requests s)\<rparr>;
          s2 = s1\<lparr>registry := registry_remove (r_id (store s1 p)) (registry s1)\<rparr>
      in measure_in (dec_gauge REQUESTS_ACTIVE) s2)"

definition complete_request ::
  "('r, 'k, 'g) environment \<Rightarrow> request_ptr \<Rightarrow> finish_reason \<Rightarrow> ('j, 'r, 'k, 'g) scheduler \<Rightarrow> ('j, 'r, 'k, 'g) scheduler" where
  "complete_request E p reason s =
     (let s1 = upd p (\<lambda>r. r\<lparr>r_finish_reason := reason, state := Completed\<rparr>) s;
          s2 = tick (set_timing p (\<lambda>t. t\<lparr>completed_at := now E s1\<rparr>) s1);
          s3 = (case token_queue (store s2 p) of
                  Some _ \<Rightarrow> finish_queue p ((token_event_init Complete)\<lparr>ev_finish_reason := reason\<rparr>) s2
                | None \<Rightarrow> if on_complete (store s2 p) then call (On_complete p reason) s2 else s2);
          s4 = drop_request p (free_resources E p s3);
          s5 = s4\<lparr>completed_count := completed_count s4 + 1\<rparr>
      in measure_in (observe_in DECODE_TIME (total_time_ms (timing (store s5 p)) / 1000)) s5)"

definition fail_request ::
  "('r, 'k, 'g) environment \<Rightarrow> request_ptr \<Rightarrow> error \<Rightarrow> ('j, 'r, 'k, 'g) scheduler \<Rightarrow> ('j, 'r, 'k, 'g) scheduler" where
  "fail_request E p e s =
     (let s1 = upd p (\<lambda>r. r\<lparr>r_error := Some e, state := Errored\<rparr>) s;
          s2 = tick (set_timing p (\<lambda>t. t\<lparr>completed_at := now E s1\<rparr>) s1);
          s3 = (case token_queue (store s2 p) of
                  Some _ \<Rightarrow> finish_queue p ((token_event_init Error)\<lparr>ev_error := Some e\<rparr>) s2
                | None \<Rightarrow> if on_error (store s2 p) then call (On_error p e) s2 else s2);
          s4 = drop_request p (free_resources E p s3)
      in s4\<lparr>errored_count := errored_count s4 + 1\<rparr>)"

section \<open>Prefill\<close>

text \<open>
  Routing and reservation. A decision of \<open>route\<close> that divides lists at least two devices
  (\<open>route_decision_ok\<close>), so \<open>reserve\<close>, \<open>commit\<close> and \<open>unreserve\<close> have a result (\<open>share_free\<close>).
\<close>

definition route_request :: "request_ptr \<Rightarrow> ('j, 'r, 'k, 'g) scheduler \<Rightarrow>
    routing_decision option \<times> ('j, 'r, 'k, 'g) scheduler" where
  "route_request p s =
     (case router s of
        None \<Rightarrow> (None, s)
      | Some g \<Rightarrow> (case route (store s p) g of (dec, g1) \<Rightarrow>
          (Some dec,
           upd p (\<lambda>r. r\<lparr>assigned_devices := rd_device_ids dec\<rparr>)
             (s\<lparr>router := Some (the (reserve dec (estimate_kv_memory (request_seq_len (store s p))) g1))\<rparr>))))"

definition settle_budget :: "(routing_decision \<Rightarrow> size_t \<Rightarrow> gpu_router \<Rightarrow> gpu_router option) \<Rightarrow>
    routing_decision option \<Rightarrow> request_ptr \<Rightarrow> ('j, 'r, 'k, 'g) scheduler \<Rightarrow> ('j, 'r, 'k, 'g) scheduler" where
  "settle_budget f dec p s =
     (case (dec, router s) of
        (Some d, Some g) \<Rightarrow> s\<lparr>router := Some (the (f d (estimate_kv_memory (request_seq_len (store s p))) g))\<rparr>
      | _ \<Rightarrow> s)"

definition allocate_cache :: "('r, 'k, 'g) environment \<Rightarrow> request_ptr \<Rightarrow> routing_decision option \<Rightarrow>
    ('j, 'r, 'k, 'g) scheduler \<Rightarrow> kv_cache_handle result \<times> ('j, 'r, 'k, 'g) scheduler" where
  "allocate_cache E p dec s =
     (let len = request_seq_len (store s p); K = kv_interface E;
          (r, k) = (case dec of
             Some d \<Rightarrow> if strategy d = TensorParallel \<and> length (rd_device_ids d) > 1
               then ka_allocate_tensor_parallel K len (rd_device_ids d) (kv_state s)
               else ka_allocate K len (kv_state s)
           | None \<Rightarrow> ka_allocate K len (kv_state s))
      in (r, s\<lparr>kv_state := k\<rparr>))"

definition prefill_input_of :: "'j request \<Rightarrow> prefill_input" where
  "prefill_input_of r = \<lparr>input_ids = input_tokens r, pf_kv_cache = kv_cache r, pf_seq_len = to_int32 (sz (input_tokens r))\<rparr>"

definition cancel_flag :: "'j request \<Rightarrow> bool option" where
  "cancel_flag r = map_option token_is_cancelled (cancel_token r)"

text \<open>The part of \<open>run_prefill\<close> after a successful allocation.\<close>

definition prefill_allocated :: "('r, 'k, 'g) environment \<Rightarrow> request_ptr \<Rightarrow> ('j, 'r, 'k, 'g) scheduler \<Rightarrow>
    unit result \<times> ('j, 'r, 'k, 'g) scheduler" where
  "prefill_allocated E p s =
     (case rt_prefill (runtime E) (prefill_input_of (store s p)) (cancel_flag (store s p)) (rt_state s) of
        (Inl e, t) \<Rightarrow> (Inl e, measure_in (dec_gauge REQUESTS_ACTIVE) (free_resources E p (s\<lparr>rt_state := t\<rparr>)))
      | (Inr out, t) \<Rightarrow>
          (let s1 = upd p (\<lambda>r. r\<lparr>prefill_logits := logit_data (pf_logits out),
                 prefill_logits_vocab_size := logits_vocab_size (pf_logits out),
                 kv_cache := (kv_cache r)\<lparr>current_len := sz (input_tokens r)\<rparr>\<rparr>) (s\<lparr>rt_state := t\<rparr>);
               s2 = tick (set_timing p (\<lambda>t. t\<lparr>prefill_end := now E s1\<rparr>) s1)
           in (Inr (), measure_in (observe_in PREFILL_TIME (prefill_time_ms (timing (store s2 p)) / 1000)) s2)))"

definition run_prefill :: "('r, 'k, 'g) environment \<Rightarrow> request_ptr \<Rightarrow> ('j, 'r, 'k, 'g) scheduler \<Rightarrow>
    unit result \<times> ('j, 'r, 'k, 'g) scheduler" where
  "run_prefill E p s =
     (let s1 = upd p (\<lambda>r. r\<lparr>state := Prefilling\<rparr>) s;
          s2 = tick (set_timing p (\<lambda>t. t\<lparr>prefill_start := now E s1\<rparr>) s1);
          s3 = measure_in (inc_gauge REQUESTS_ACTIVE) s2;
          (dec, s4) = route_request p s3
      in case allocate_cache E p dec s4 of
        (Inl e, s5) \<Rightarrow> (Inl e, measure_in (dec_gauge REQUESTS_ACTIVE) (settle_budget unreserve dec p s5))
      | (Inr h, s5) \<Rightarrow>
          prefill_allocated E p (settle_budget commit dec p (upd p (\<lambda>r. r\<lparr>kv_cache := h\<rparr>) s5)))"

section \<open>Decode step\<close>

definition emit_token :: "request_ptr \<Rightarrow> int32 \<Rightarrow> string \<Rightarrow> ('j, 'r, 'k, 'g) scheduler \<Rightarrow> ('j, 'r, 'k, 'g) scheduler" where
  "emit_token p tok txt s =
     (case token_queue (store s p) of
        Some q \<Rightarrow> (case tq_push ((token_event_init Token)\<lparr>ev_token_id := tok, ev_text := txt\<rparr>) q of (pushed, q') \<Rightarrow>
          let s1 = upd p (\<lambda>r. r\<lparr>token_queue := Some q'\<rparr>) s
          in if pushed then s1 else measure_in (inc_counter TOKENS_DROPPED) s1)
      | None \<Rightarrow> if on_token (store s p) then call (On_token p tok txt) s else s)"

definition stop_config_of :: "'j request \<Rightarrow> stop_config" where
  "stop_config_of r = \<lparr>stop_sequences = r_stop_sequences r, stop_token_ids = [], stop_max_tokens = max_tokens r,
     include_stop_str_in_output = False\<rparr>"

definition check_stop_and_continue :: "('r, 'k, 'g) environment \<Rightarrow> request_ptr \<Rightarrow> ('j, 'r, 'k, 'g) scheduler \<Rightarrow>
    bool \<times> ('j, 'r, 'k, 'g) scheduler" where
  "check_stop_and_continue E p s =
     (let r = store s p;
          res = check_stop (Some (tk_special (tk_config (env_tokenizer E)))) (output_tokens r) (output_text r) (stop_config_of r)
      in if should_stop res
         then (False, upd p (\<lambda>r. r\<lparr>r_finish_reason := stop_reason res,
                output_text := (if matched_stop_sequence res \<noteq> ''''
                  then trim_stop_sequence (output_text r) (matched_stop_sequence res) else output_text r)\<rparr>) s)
         else (True, s))"

definition sampling_params_of :: "'j request \<Rightarrow> sampling_params" where
  "sampling_params_of r = default_sampling_params\<lparr>sp_temperature := temperature r, sp_top_p := top_p r, sp_seed := r_seed r\<rparr>"

text \<open>The call of the sampler; the parameters have no top-k limit, so \<open>sample\<close> has a result.\<close>

definition sample_next :: "('r, 'k, 'g) environment \<Rightarrow> request_ptr \<Rightarrow> logits \<Rightarrow> int32 list \<Rightarrow>
    ('j, 'r, 'k, 'g) scheduler \<Rightarrow> sample_result result \<times> ('j, 'r, 'k, 'g) scheduler" where
  "sample_next E p l previous s =
     (case sample (random E) l (sampling_params_of (store s p)) previous (rng_state s) of
        (res, g) \<Rightarrow> (the res, s\<lparr>rng_state := g\<rparr>))"

definition token_text :: "('r, 'k, 'g) environment \<Rightarrow> int32 \<Rightarrow> string" where
  "token_text E tok = value_or (decode_token (env_tokenizer E) tok) ''''"

definition push_token :: "request_ptr \<Rightarrow> int32 \<Rightarrow> ('j, 'r, 'k, 'g) scheduler \<Rightarrow> ('j, 'r, 'k, 'g) scheduler" where
  "push_token p tok = upd p (\<lambda>r. r\<lparr>output_tokens := output_tokens r @ [tok],
     kv_cache := (kv_cache r)\<lparr>current_len := current_len (kv_cache r) + 1\<rparr>\<rparr>)"

definition deliver_token :: "('r, 'k, 'g) environment \<Rightarrow> request_ptr \<Rightarrow> int32 \<Rightarrow> ('j, 'r, 'k, 'g) scheduler \<Rightarrow>
    bool \<times> ('j, 'r, 'k, 'g) scheduler" where
  "deliver_token E p tok s =
     (let s1 = upd p (\<lambda>r. r\<lparr>output_text := output_text r @ token_text E tok\<rparr>) s;
          s2 = emit_token p tok (token_text E tok) s1
      in check_stop_and_continue E p (measure_in (inc_counter TOKENS_GENERATED) s2))"

definition first_token :: "('r, 'k, 'g) environment \<Rightarrow> request_ptr \<Rightarrow> ('j, 'r, 'k, 'g) scheduler \<Rightarrow>
    bool result \<times> ('j, 'r, 'k, 'g) scheduler" where
  "first_token E p s =
     (let r = store s p
      in if prefill_logits r = [] then (Inl (internal ''No prefill logits available for first token''), s)
         else let l = \<lparr>logit_data = prefill_logits r, logits_vocab_size = prefill_logits_vocab_size r\<rparr>;
                  s1 = upd p (\<lambda>r. r\<lparr>prefill_logits := []\<rparr>) s
         in case sample_next E p l [] s1 of
           (Inl e, s2) \<Rightarrow> (Inl e, s2)
         | (Inr res, s2) \<Rightarrow>
             (let s3 = push_token p (sr_token_id res) s2;
                  s4 = tick (set_timing p (\<lambda>t. t\<lparr>first_token_at := now E s3\<rparr>) s3);
                  s5 = measure_in (observe_in TIME_TO_FIRST_TOKEN (time_to_first_token_ms (timing (store s4 p)) / 1000)) s4;
                  (b, s6) = deliver_token E p (sr_token_id res) s5
              in (Inr b, s6)))"

definition decode_input_of :: "'j request \<Rightarrow> decode_input" where
  "decode_input_of r = \<lparr>dec_token = last (output_tokens r), dec_kv_cache = kv_cache r,
     current_pos = to_int32 (current_len (kv_cache r))\<rparr>"

definition later_token :: "('r, 'k, 'g) environment \<Rightarrow> request_ptr \<Rightarrow> ('j, 'r, 'k, 'g) scheduler \<Rightarrow>
    bool result \<times> ('j, 'r, 'k, 'g) scheduler" where
  "later_token E p s =
     (case rt_decode_step (runtime E) (decode_input_of (store s p)) (cancel_flag (store s p)) (rt_state s) of
        (Inl e, t) \<Rightarrow> (Inl e, s\<lparr>rt_state := t\<rparr>)
      | (Inr out, t) \<Rightarrow>
          (case sample_next E p (dec_logits out) (output_tokens (store s p)) (s\<lparr>rt_state := t\<rparr>) of
             (Inl e, s2) \<Rightarrow> (Inl e, s2)
           | (Inr res, s2) \<Rightarrow>
               (let (b, s3) = deliver_token E p (sr_token_id res) (push_token p (sr_token_id res) s2) in (Inr b, s3))))"

definition run_decode_step :: "('r, 'k, 'g) environment \<Rightarrow> request_ptr \<Rightarrow> ('j, 'r, 'k, 'g) scheduler \<Rightarrow>
    bool result \<times> ('j, 'r, 'k, 'g) scheduler" where
  "run_decode_step E p s =
     (if is_cancelled (store s p) then (Inr False, s)
      else if output_tokens (store s p) = [] then first_token E p s
      else later_token E p s)"

section \<open>The decode thread\<close>

text \<open>One iteration of the loop of \<open>process_queue\<close>, on a queue that is not empty.\<close>

definition activate :: "('r, 'k, 'g) environment \<Rightarrow> request_ptr \<Rightarrow> ('j, 'r, 'k, 'g) scheduler \<Rightarrow> ('j, 'r, 'k, 'g) scheduler" where
  "activate E p s =
     (let s1 = upd p (\<lambda>r. r\<lparr>state := Decoding\<rparr>) s;
          s2 = (if decode_timeout_sec (sch_config s) > 0
                then tick (set_timing p (\<lambda>t. t\<lparr>decode_deadline := now E s1 + seconds (decode_timeout_sec (sch_config s))\<rparr>) s1)
                else s1)
      in s2\<lparr>active_requests := active_requests s2 @ [p]\<rparr>)"

definition start_request :: "('r, 'k, 'g) environment \<Rightarrow> request_ptr \<Rightarrow> ('j, 'r, 'k, 'g) scheduler \<Rightarrow> ('j, 'r, 'k, 'g) scheduler" where
  "start_request E p s =
     (if is_queue_timed_out (now E s) (timing (store s p))
      then fail_request E p (timeout ''Request timed out waiting in queue'') (tick s)
      else if is_request_timed_out (now E (tick s)) (timing (store s p))
      then fail_request E p (timeout ''Request timed out'') (tick (tick s))
      else case run_prefill E p (tick (tick s)) of
        (Inl e, s1) \<Rightarrow> fail_request E p e s1
      | (Inr _, s1) \<Rightarrow> activate E p s1)"

definition pop_pending :: "('j, 'r, 'k, 'g) scheduler \<Rightarrow> ('j, 'r, 'k, 'g) scheduler" where
  "pop_pending s = measure_in (dec_gauge QUEUE_DEPTH) (s\<lparr>pending_queue := tl (pending_queue s)\<rparr>)"

definition process_one :: "('r, 'k, 'g) environment \<Rightarrow> ('j, 'r, 'k, 'g) scheduler \<Rightarrow> ('j, 'r, 'k, 'g) scheduler" where
  "process_one E s = start_request E (hd (pending_queue s)) (pop_pending s)"

definition can_start :: "('j, 'r, 'k, 'g) scheduler \<Rightarrow> bool" where
  "can_start s \<longleftrightarrow> pending_queue s \<noteq> [] \<and> \<not> sz (active_requests s) \<ge> max_active_requests (sch_config s)"

text \<open>The body of the loop over the active requests in \<open>decode_loop\<close>.\<close>

definition decode_one :: "('r, 'k, 'g) environment \<Rightarrow> request_ptr \<Rightarrow> ('j, 'r, 'k, 'g) scheduler \<Rightarrow> ('j, 'r, 'k, 'g) scheduler" where
  "decode_one E p s =
     (if is_cancelled (store s p) then complete_request E p Stop s
      else if is_request_timed_out (now E s) (timing (store s p))
      then fail_request E p (timeout ''Request timed out'') (tick s)
      else if is_decode_timed_out (now E (tick s)) (timing (store s p))
      then fail_request E p (timeout ''Decode phase timed out'') (tick (tick s))
      else case run_decode_step E p (tick (tick s)) of
        (Inl e, s1) \<Rightarrow> fail_request E p e s1
      | (Inr True, s1) \<Rightarrow> s1
      | (Inr False, s1) \<Rightarrow> complete_request E p (r_finish_reason (store s1 p)) s1)"

section \<open>What the operations leave alone\<close>

lemma upd_fields [simp]:
  "sch_config (upd p f s) = sch_config s" "registry (upd p f s) = registry s" "pending_queue (upd p f s) = pending_queue s"
  "active_requests (upd p f s) = active_requests s" "running (upd p f s) = running s" "router (upd p f s) = router s"
  "kv_state (upd p f s) = kv_state s" "rt_state (upd p f s) = rt_state s" "rng_state (upd p f s) = rng_state s"
  "sch_metrics (upd p f s) = sch_metrics s" "ticks (upd p f s) = ticks s" "callback_log (upd p f s) = callback_log s"
  "store (upd p f s) = (store s)(p := f (store s p))" "completed_count (upd p f s) = completed_count s"
  "errored_count (upd p f s) = errored_count s"
  by (simp_all add: upd_def)

lemma measure_in_fields [simp]:
  "sch_config (measure_in f s) = sch_config s" "registry (measure_in f s) = registry s"
  "pending_queue (measure_in f s) = pending_queue s" "active_requests (measure_in f s) = active_requests s"
  "running (measure_in f s) = running s" "router (measure_in f s) = router s" "kv_state (measure_in f s) = kv_state s"
  "rt_state (measure_in f s) = rt_state s" "rng_state (measure_in f s) = rng_state s"
  "sch_metrics (measure_in f s) = f (sch_metrics s)" "ticks (measure_in f s) = ticks s"
  "callback_log (measure_in f s) = callback_log s" "store (measure_in f s) = store s"
  "completed_count (measure_in f s) = completed_count s" "errored_count (measure_in f s) = errored_count s"
  by (simp_all add: measure_in_def)

lemma tick_fields [simp]:
  "sch_config (tick s) = sch_config s" "registry (tick s) = registry s" "pending_queue (tick s) = pending_queue s"
  "active_requests (tick s) = active_requests s" "running (tick s) = running s" "router (tick s) = router s"
  "kv_state (tick s) = kv_state s" "rt_state (tick s) = rt_state s" "rng_state (tick s) = rng_state s"
  "sch_metrics (tick s) = sch_metrics s" "callback_log (tick s) = callback_log s" "store (tick s) = store s"
  "completed_count (tick s) = completed_count s" "errored_count (tick s) = errored_count s"
  by (simp_all add: tick_def)

lemma call_fields [simp]:
  "sch_config (call c s) = sch_config s" "registry (call c s) = registry s" "pending_queue (call c s) = pending_queue s"
  "active_requests (call c s) = active_requests s" "running (call c s) = running s" "router (call c s) = router s"
  "kv_state (call c s) = kv_state s" "rt_state (call c s) = rt_state s" "rng_state (call c s) = rng_state s"
  "sch_metrics (call c s) = sch_metrics s" "ticks (call c s) = ticks s" "store (call c s) = store s"
  "completed_count (call c s) = completed_count s" "errored_count (call c s) = errored_count s"
  by (simp_all add: call_def)

text \<open>
  An operation on request \<open>p\<close> is quiet when it changes neither the lists, the registry, the flag and the
  configuration nor any other request, and keeps the identity, the prompt, the limit and the
  cancellation token of \<open>p\<close>.
\<close>

definition same_identity :: "'j request \<Rightarrow> 'j request \<Rightarrow> bool" where
  "same_identity r r' \<longleftrightarrow> r_id r' = r_id r \<and> input_tokens r' = input_tokens r \<and> max_tokens r' = max_tokens r \<and>
     cancel_token r' = cancel_token r"

definition quiet :: "request_ptr \<Rightarrow> ('j, 'r, 'k, 'g) scheduler \<Rightarrow> ('j, 'r, 'k, 'g) scheduler \<Rightarrow> bool" where
  "quiet p s s' \<longleftrightarrow> sch_config s' = sch_config s \<and> registry s' = registry s \<and> pending_queue s' = pending_queue s \<and>
     active_requests s' = active_requests s \<and> running s' = running s \<and>
     (\<forall>q. q \<noteq> p \<longrightarrow> store s' q = store s q) \<and> same_identity (store s p) (store s' p)"

lemma same_identity_refl [simp]: "same_identity r r"
  by (simp add: same_identity_def)

lemma same_identity_trans: "same_identity a b \<Longrightarrow> same_identity b c \<Longrightarrow> same_identity a c"
  by (simp add: same_identity_def)

lemma quiet_refl [simp]: "quiet p s s"
  by (simp add: quiet_def)

lemma quiet_trans: "quiet p a b \<Longrightarrow> quiet p b c \<Longrightarrow> quiet p a c"
  by (auto simp: quiet_def dest: same_identity_trans)

lemma quiet_upd [frame]: "same_identity (store b p) (f (store b p)) \<Longrightarrow> quiet p a b \<Longrightarrow> quiet p a (upd p f b)"
  by (auto simp: quiet_def dest: same_identity_trans)

lemma quiet_set_timing [frame]: "quiet p a b \<Longrightarrow> quiet p a (set_timing p f b)"
  by (simp add: set_timing_def quiet_upd same_identity_def)

lemma quiet_other [frame]:
  "quiet p a b \<Longrightarrow> quiet p a (measure_in m b)" "quiet p a b \<Longrightarrow> quiet p a (tick b)" "quiet p a b \<Longrightarrow> quiet p a (call c b)"
  "quiet p a b \<Longrightarrow> quiet p a (b\<lparr>router := g\<rparr>)" "quiet p a b \<Longrightarrow> quiet p a (b\<lparr>kv_state := k\<rparr>)"
  "quiet p a b \<Longrightarrow> quiet p a (b\<lparr>rt_state := t\<rparr>)" "quiet p a b \<Longrightarrow> quiet p a (b\<lparr>rng_state := x\<rparr>)"
  by (simp_all add: quiet_def)

lemma quiet_release_budget [frame]: "quiet p a b \<Longrightarrow> quiet p a (release_budget p b)"
  by (auto simp: release_budget_def Let_def frame split: option.splits)

lemma quiet_free_resources [frame]: "quiet p a b \<Longrightarrow> quiet p a (free_resources E p b)"
  by (auto simp: free_resources_def Let_def same_identity_def intro!: frame split: prod.splits)

lemma quiet_finish_queue [frame]: "quiet p a b \<Longrightarrow> quiet p a (finish_queue p ev b)"
  by (auto simp: finish_queue_def same_identity_def intro!: frame)

lemma quiet_settle [frame]: "quiet p a b \<Longrightarrow> quiet p a (settle_budget f dec p b)"
  by (auto simp: settle_budget_def frame split: option.splits)

lemma quiet_route: "quiet p a b \<Longrightarrow> quiet p a (snd (route_request p b))"
  by (auto simp: route_request_def same_identity_def intro!: frame split: option.splits prod.splits)

lemma quiet_allocate: "quiet p a b \<Longrightarrow> quiet p a (snd (allocate_cache E p dec b))"
  by (auto simp: allocate_cache_def Let_def intro!: frame split: prod.splits)

lemma quiet_prefill_allocated: "quiet p a b \<Longrightarrow> quiet p a (snd (prefill_allocated E p b))"
  by (auto simp: prefill_allocated_def Let_def same_identity_def intro!: frame split: prod.splits sum.splits)

lemma quiet_run_prefill: "quiet p a b \<Longrightarrow> quiet p a (snd (run_prefill E p b))"
proof -
  assume q: "quiet p a b"
  define s3 where "s3 = measure_in (inc_gauge REQUESTS_ACTIVE)
    (tick (set_timing p (\<lambda>t. t\<lparr>prefill_start := now E (upd p (\<lambda>r. r\<lparr>state := Prefilling\<rparr>) b)\<rparr>)
      (upd p (\<lambda>r. r\<lparr>state := Prefilling\<rparr>) b)))"
  obtain dec s4 where route: "route_request p s3 = (dec, s4)" by fastforce
  obtain res s5 where alloc: "allocate_cache E p dec s4 = (res, s5)" by fastforce
  have "quiet p a s3" using q by (simp add: s3_def frame same_identity_def)
  then have "quiet p a s5" using quiet_route [of p a s3] quiet_allocate [of p a s4 E dec] route alloc by simp
  then show ?thesis
    using route alloc
    by (auto simp: run_prefill_def Let_def s3_def [symmetric] same_identity_def intro!: frame quiet_prefill_allocated
        split: sum.splits)
qed

lemma quiet_emit_token [frame]: "quiet p a b \<Longrightarrow> quiet p a (emit_token p tok txt b)"
  by (auto simp: emit_token_def Let_def same_identity_def intro!: frame split: option.splits prod.splits)

lemma quiet_check_stop: "quiet p a b \<Longrightarrow> quiet p a (snd (check_stop_and_continue E p b))"
  by (auto simp: check_stop_and_continue_def Let_def same_identity_def intro!: frame)

lemma quiet_push_token [frame]: "quiet p a b \<Longrightarrow> quiet p a (push_token p tok b)"
  by (auto simp: push_token_def same_identity_def intro!: frame)

lemma quiet_deliver: "quiet p a b \<Longrightarrow> quiet p a (snd (deliver_token E p tok b))"
  by (auto simp: deliver_token_def Let_def same_identity_def intro!: frame quiet_check_stop)

lemma quiet_sample_next: "quiet p a b \<Longrightarrow> quiet p a (snd (sample_next E p l prev b))"
  by (auto simp: sample_next_def intro!: frame split: prod.splits)

lemma quiet_first_token: "quiet p a b \<Longrightarrow> quiet p a (snd (first_token E p b))"
proof -
  assume q: "quiet p a b"
  define l where "l = \<lparr>logit_data = prefill_logits (store b p), logits_vocab_size = prefill_logits_vocab_size (store b p)\<rparr>"
  obtain res s2 where samp: "sample_next E p l [] (upd p (\<lambda>r. r\<lparr>prefill_logits := []\<rparr>) b) = (res, s2)" by fastforce
  have s2: "quiet p a s2"
    using quiet_sample_next [of p a "upd p (\<lambda>r. r\<lparr>prefill_logits := []\<rparr>) b" E l "[]"] q samp
    by (simp add: frame same_identity_def)
  have deliver: "quiet p a s6" if "deliver_token E p tok s5 = (ok, s6)" "quiet p a s5" for tok s5 ok s6
    using quiet_deliver [OF that(2), of E tok] that(1) by simp
  show ?thesis
    using q s2 samp
    by (auto simp: first_token_def Let_def l_def [symmetric] split: sum.splits prod.splits elim!: deliver intro!: frame)
qed

lemma quiet_later_token: "quiet p a b \<Longrightarrow> quiet p a (snd (later_token E p b))"
proof -
  assume q: "quiet p a b"
  have samp: "quiet p a s2" if "sample_next E p l prev (b\<lparr>rt_state := t\<rparr>) = (res, s2)" for l prev t res s2
    using quiet_sample_next [of p a "b\<lparr>rt_state := t\<rparr>" E l prev] q that by (simp add: frame)
  have deliver: "quiet p a s6" if "deliver_token E p tok s5 = (ok, s6)" "quiet p a s5" for tok s5 ok s6
    using quiet_deliver [OF that(2), of E tok] that(1) by simp
  show ?thesis
    using q by (auto simp: later_token_def Let_def split: sum.splits prod.splits elim!: deliver intro!: frame dest: samp)
qed

lemma quiet_run_decode_step: "quiet p a b \<Longrightarrow> quiet p a (snd (run_decode_step E p b))"
  by (simp add: run_decode_step_def quiet_first_token quiet_later_token)

text \<open>A request that ends leaves the active list and the registry; the others are not touched.\<close>

definition retired :: "request_ptr \<Rightarrow> request_state \<Rightarrow> ('j, 'r, 'k, 'g) scheduler \<Rightarrow> ('j, 'r, 'k, 'g) scheduler \<Rightarrow> bool" where
  "retired p q s s' \<longleftrightarrow> sch_config s' = sch_config s \<and> pending_queue s' = pending_queue s \<and> running s' = running s \<and>
     active_requests s' = removeAll p (active_requests s) \<and>
     registry s' = registry_remove (r_id (store s p)) (registry s) \<and>
     (\<forall>x. x \<noteq> p \<longrightarrow> store s' x = store s x) \<and> same_identity (store s p) (store s' p) \<and> state (store s' p) = q"

lemma retiredI:
  assumes "quiet p s s1" and "state (store s1 p) = q"
  shows "retired p q s (drop_request p s1)"
  using assms by (auto simp: retired_def drop_request_def quiet_def same_identity_def Let_def)

lemma retired_quiet: "quiet p a b \<Longrightarrow> retired p q b c \<Longrightarrow> retired p q a c"
  by (auto simp: retired_def quiet_def same_identity_def)

lemma state_free_resources [simp]: "state (store (free_resources E p s) p) = state (store s p)"
  by (auto simp: free_resources_def release_budget_def Let_def split: prod.splits option.splits)

lemma complete_request_retired: "retired p Completed s (complete_request E p reason s)"
proof -
  define s3 where "s3 = (let s1 = upd p (\<lambda>r. r\<lparr>r_finish_reason := reason, state := Completed\<rparr>) s;
      s2 = tick (set_timing p (\<lambda>t. t\<lparr>completed_at := now E s1\<rparr>) s1)
    in case token_queue (store s2 p) of
         Some _ \<Rightarrow> finish_queue p ((token_event_init Complete)\<lparr>ev_finish_reason := reason\<rparr>) s2
       | None \<Rightarrow> if on_complete (store s2 p) then call (On_complete p reason) s2 else s2)"
  have "quiet p s s3" "state (store s3 p) = Completed"
    by (auto simp: s3_def Let_def same_identity_def finish_queue_def set_timing_def intro!: frame split: option.splits)
  then have "retired p Completed s (drop_request p (free_resources E p s3))"
    by (intro retiredI) (simp_all add: frame)
  then show ?thesis
    by (auto simp: complete_request_def Let_def s3_def retired_def)
qed

lemma fail_request_retired: "retired p Errored s (fail_request E p e s)"
proof -
  define s3 where "s3 = (let s1 = upd p (\<lambda>r. r\<lparr>r_error := Some e, state := Errored\<rparr>) s;
      s2 = tick (set_timing p (\<lambda>t. t\<lparr>completed_at := now E s1\<rparr>) s1)
    in case token_queue (store s2 p) of
         Some _ \<Rightarrow> finish_queue p ((token_event_init Error)\<lparr>ev_error := Some e\<rparr>) s2
       | None \<Rightarrow> if on_error (store s2 p) then call (On_error p e) s2 else s2)"
  have "quiet p s s3" "state (store s3 p) = Errored"
    by (auto simp: s3_def Let_def same_identity_def finish_queue_def set_timing_def intro!: frame split: option.splits)
  then have "retired p Errored s (drop_request p (free_resources E p s3))"
    by (intro retiredI) (simp_all add: frame)
  then show ?thesis
    by (auto simp: fail_request_def Let_def s3_def retired_def)
qed

text \<open>A request that starts joins the active list.\<close>

definition started :: "request_ptr \<Rightarrow> ('j, 'r, 'k, 'g) scheduler \<Rightarrow> ('j, 'r, 'k, 'g) scheduler \<Rightarrow> bool" where
  "started p s s' \<longleftrightarrow> sch_config s' = sch_config s \<and> pending_queue s' = pending_queue s \<and> running s' = running s \<and>
     active_requests s' = active_requests s @ [p] \<and> registry s' = registry s \<and>
     (\<forall>x. x \<noteq> p \<longrightarrow> store s' x = store s x) \<and> same_identity (store s p) (store s' p) \<and> state (store s' p) = Decoding"

lemma activate_started: "quiet p s s1 \<Longrightarrow> started p s (activate E p s1)"
  by (auto simp: started_def activate_def quiet_def Let_def same_identity_def set_timing_def)

lemma start_request_cases:
  "started p s (start_request E p s) \<or> retired p Errored s (start_request E p s)"
proof -
  have tt: "quiet p s (tick (tick s))" "quiet p s (tick s)" by (simp_all add: frame)
  have fail: "retired p Errored s (fail_request E p e s1)" if "quiet p s s1" for e s1
    using that fail_request_retired [of p s1 E e] by (rule retired_quiet)
  obtain res s1 where pre: "run_prefill E p (tick (tick s)) = (res, s1)" by fastforce
  then have q: "quiet p s s1" using quiet_run_prefill [OF tt(1), of E] by simp
  show ?thesis
    using tt fail activate_started q pre by (auto simp: start_request_def split: sum.splits)
qed

lemma decode_one_cases:
  "quiet p s (decode_one E p s) \<or> (\<exists>q. terminal_state q \<and> retired p q s (decode_one E p s))"
proof -
  have tt: "quiet p s (tick (tick s))" "quiet p s (tick s)" by (simp_all add: frame)
  have fail: "retired p Errored s (fail_request E p e s1)" if "quiet p s s1" for e s1
    using that fail_request_retired [of p s1 E e] by (rule retired_quiet)
  have complete: "retired p Completed s (complete_request E p r s1)" if "quiet p s s1" for r s1
    using that complete_request_retired [of p s1 E r] by (rule retired_quiet)
  obtain res s1 where dec: "run_decode_step E p (tick (tick s)) = (res, s1)" by fastforce
  then have q: "quiet p s s1" using quiet_run_decode_step [OF tt(1), of E] by simp
  have "terminal_state Errored" "terminal_state Completed" by (simp_all add: terminal_state_def)
  then show ?thesis
    using tt fail complete q dec complete [of s]
    by (auto simp: decode_one_def split: sum.splits bool.splits)
qed

section \<open>The loops\<close>

lemma start_request_pending: "pending_queue (start_request E p s) = pending_queue s"
  using start_request_cases [of p s E] by (auto simp: started_def retired_def)

lemma process_one_pending: "pending_queue (process_one E s) = tl (pending_queue s)"
  by (simp add: process_one_def pop_pending_def start_request_pending)

function process_queue :: "('r, 'k, 'g) environment \<Rightarrow> ('j, 'r, 'k, 'g) scheduler \<Rightarrow> ('j, 'r, 'k, 'g) scheduler" where
  "process_queue E s = (if can_start s then process_queue E (process_one E s) else s)"
  by auto

termination
  by (relation "measure (\<lambda>(E, s). length (pending_queue s))") (auto simp: can_start_def process_one_pending)

declare process_queue.simps [simp del]

definition decode_round :: "('r, 'k, 'g) environment \<Rightarrow> ('j, 'r, 'k, 'g) scheduler \<Rightarrow> ('j, 'r, 'k, 'g) scheduler" where
  "decode_round E s = fold (decode_one E) (active_requests s) s"

text \<open>\<open>decode_loop\<close> runs until \<open>stop\<close> clears the flag from another thread: here for at most \<open>n\<close> iterations.\<close>

fun decode_loop :: "('r, 'k, 'g) environment \<Rightarrow> nat \<Rightarrow> ('j, 'r, 'k, 'g) scheduler \<Rightarrow> ('j, 'r, 'k, 'g) scheduler" where
  "decode_loop E 0 s = s"
| "decode_loop E (Suc n) s = (if running s then decode_loop E n (decode_round E (process_queue E s)) else s)"

section \<open>Effect of a decode step on its request\<close>

text \<open>
  What a decode step keeps besides: the allocator, the router, the state and the devices of the
  request, which may have one more token and a cache one position longer.
\<close>

definition settled :: "request_ptr \<Rightarrow> ('j, 'r, 'k, 'g) scheduler \<Rightarrow> ('j, 'r, 'k, 'g) scheduler \<Rightarrow> bool" where
  "settled p s s' \<longleftrightarrow> kv_state s' = kv_state s \<and> router s' = router s \<and> state (store s' p) = state (store s p) \<and>
     assigned_devices (store s' p) = assigned_devices (store s p)"

definition grown :: "request_ptr \<Rightarrow> int32 \<Rightarrow> ('j, 'r, 'k, 'g) scheduler \<Rightarrow> ('j, 'r, 'k, 'g) scheduler \<Rightarrow> bool" where
  "grown p tok s s' \<longleftrightarrow> settled p s s' \<and> output_tokens (store s' p) = output_tokens (store s p) @ [tok] \<and>
     kv_cache (store s' p) = (kv_cache (store s p))\<lparr>current_len := current_len (kv_cache (store s p)) + 1\<rparr>"

definition unchanged_cache :: "request_ptr \<Rightarrow> ('j, 'r, 'k, 'g) scheduler \<Rightarrow> ('j, 'r, 'k, 'g) scheduler \<Rightarrow> bool" where
  "unchanged_cache p s s' \<longleftrightarrow> settled p s s' \<and> output_tokens (store s' p) = output_tokens (store s p) \<and>
     kv_cache (store s' p) = kv_cache (store s p)"

text \<open>The token limit as the stop checker tests it.\<close>

definition within_limit :: "'j request \<Rightarrow> bool" where
  "within_limit r \<longleftrightarrow> \<not> (sint (max_tokens r) > 0 \<and> sint (to_int32 (sz (output_tokens r))) \<ge> sint (max_tokens r))"

lemma unchanged_cache_refl [simp]: "unchanged_cache p s s"
  by (simp add: unchanged_cache_def settled_def)

lemma grown_trans: "unchanged_cache p a b \<Longrightarrow> grown p tok b c \<Longrightarrow> grown p tok a c"
  by (simp add: unchanged_cache_def grown_def settled_def)

lemma unchanged_cache_trans: "unchanged_cache p a b \<Longrightarrow> unchanged_cache p b c \<Longrightarrow> unchanged_cache p a c"
  by (simp add: unchanged_cache_def settled_def)

lemma grown_unchanged: "grown p tok a b \<Longrightarrow> unchanged_cache p b c \<Longrightarrow> grown p tok a c"
  by (simp add: unchanged_cache_def grown_def settled_def)

lemma unchanged_emit: "unchanged_cache p s (emit_token p tok txt s)"
  by (auto simp: emit_token_def unchanged_cache_def settled_def Let_def split: option.splits prod.splits)

lemma unchanged_check_stop: "unchanged_cache p s (snd (check_stop_and_continue E p s))"
  by (auto simp: check_stop_and_continue_def unchanged_cache_def settled_def Let_def)

lemma unchanged_deliver: "unchanged_cache p s (snd (deliver_token E p tok s))"
proof -
  let ?s1 = "upd p (\<lambda>r. r\<lparr>output_text := output_text r @ token_text E tok\<rparr>) s"
  let ?s2 = "measure_in (inc_counter TOKENS_GENERATED) (emit_token p tok (token_text E tok) ?s1)"
  have "unchanged_cache p s ?s1" by (simp add: unchanged_cache_def settled_def)
  moreover have "unchanged_cache p ?s1 ?s2"
    using unchanged_emit [of p ?s1 tok "token_text E tok"] by (simp add: unchanged_cache_def settled_def)
  ultimately show ?thesis
    using unchanged_check_stop [of p ?s2 E] by (auto simp: deliver_token_def Let_def intro: unchanged_cache_trans)
qed

lemma deliver_within_limit:
  assumes "deliver_token E p tok s = (True, s')"
  shows "within_limit (store s' p)"
proof -
  have "check_stop_and_continue E p t = (True, s') \<Longrightarrow> within_limit (store s' p)" for t
    by (auto simp: check_stop_and_continue_def check_stop_def Let_def within_limit_def stop_config_of_def no_stop_def
        split: if_splits)
  then show ?thesis using assms by (simp add: deliver_token_def Let_def)
qed

lemma grown_push: "grown p tok s (push_token p tok s)"
  by (simp add: push_token_def grown_def settled_def)

lemma deliver_grown:
  assumes "grown p tok s t" and "deliver_token E p tok' t = (b, s')"
  shows "grown p tok s s' \<and> (b \<longrightarrow> within_limit (store s' p))"
  using grown_unchanged [OF assms(1) unchanged_deliver, of E tok'] deliver_within_limit [of E p tok' t s'] assms(2)
  by (cases b) simp_all

lemma unchanged_sample: "unchanged_cache p s (snd (sample_next E p l prev s))"
  by (auto simp: sample_next_def unchanged_cache_def settled_def split: prod.splits)

text \<open>
  A step that goes on or stops has added one token, and a step that goes on has not reached the limit;
  a step that fails has added none.
\<close>

lemma first_token_effect:
  assumes "first_token E p s = (res, s')"
  shows "(\<exists>b tok. res = Inr b \<and> grown p tok s s' \<and> (b \<longrightarrow> within_limit (store s' p))) \<or>
    (\<exists>e. res = Inl e \<and> unchanged_cache p s s')"
proof (cases "prefill_logits (store s p) = []")
  case False
  let ?s1 = "upd p (\<lambda>r. r\<lparr>prefill_logits := []\<rparr>) s"
  let ?l = "\<lparr>logit_data = prefill_logits (store s p), logits_vocab_size = prefill_logits_vocab_size (store s p)\<rparr>"
  obtain r s2 where samp: "sample_next E p ?l [] ?s1 = (r, s2)" by fastforce
  have "unchanged_cache p s ?s1" by (simp add: unchanged_cache_def settled_def)
  then have s2: "unchanged_cache p s s2"
    using unchanged_sample [of p ?s1 E ?l "[]"] samp by (auto intro: unchanged_cache_trans)
  show ?thesis
  proof (cases r)
    case (Inl e)
    then show ?thesis using assms False samp s2 by (auto simp: first_token_def Let_def)
  next
    case (Inr x)
    let ?s3 = "push_token p (sr_token_id x) s2"
    let ?s4 = "tick (set_timing p (\<lambda>t. t\<lparr>first_token_at := now E ?s3\<rparr>) ?s3)"
    let ?s5 = "measure_in (observe_in TIME_TO_FIRST_TOKEN (time_to_first_token_ms (timing (store ?s4 p)) / 1000)) ?s4"
    have "unchanged_cache p ?s3 ?s5" by (simp add: unchanged_cache_def settled_def set_timing_def)
    then have "grown p (sr_token_id x) s ?s5"
      using grown_trans [OF s2 grown_push] grown_unchanged by blast
    obtain b s6 where del: "deliver_token E p (sr_token_id x) ?s5 = (b, s6)" by fastforce
    have "res = Inr b" "s' = s6" using assms False samp Inr del by (simp_all add: first_token_def Let_def)
    then show ?thesis using deliver_grown [OF \<open>grown p (sr_token_id x) s ?s5\<close> del] by blast
  qed
qed (use assms in \<open>auto simp: first_token_def\<close>)

lemma later_token_effect:
  assumes "later_token E p s = (res, s')"
  shows "(\<exists>b tok. res = Inr b \<and> grown p tok s s' \<and> (b \<longrightarrow> within_limit (store s' p))) \<or>
    (\<exists>e. res = Inl e \<and> unchanged_cache p s s')"
proof -
  obtain d t where dec: "rt_decode_step (runtime E) (decode_input_of (store s p)) (cancel_flag (store s p)) (rt_state s) = (d, t)"
    by fastforce
  have s1: "unchanged_cache p s (s\<lparr>rt_state := t\<rparr>)" by (simp add: unchanged_cache_def settled_def)
  show ?thesis
  proof (cases d)
    case (Inl e)
    then show ?thesis using assms dec s1 by (auto simp: later_token_def)
  next
    case (Inr out)
    obtain r s2 where samp: "sample_next E p (dec_logits out) (output_tokens (store s p)) (s\<lparr>rt_state := t\<rparr>) = (r, s2)"
      by fastforce
    have s2: "unchanged_cache p s s2"
      using unchanged_cache_trans [OF s1 unchanged_sample] samp by (metis snd_conv)
    show ?thesis
    proof (cases r)
      case (Inl e)
      then show ?thesis using assms dec Inr samp s2 by (auto simp: later_token_def)
    next
      case (Inr x)
      have g: "grown p (sr_token_id x) s (push_token p (sr_token_id x) s2)" using grown_trans [OF s2 grown_push] .
      obtain b s6 where del: "deliver_token E p (sr_token_id x) (push_token p (sr_token_id x) s2) = (b, s6)" by fastforce
      have "res = Inr b" "s' = s6" using assms dec \<open>d = Inr out\<close> samp Inr del by (simp_all add: later_token_def)
      then show ?thesis using deliver_grown [OF g del] by blast
    qed
  qed
qed

lemma run_decode_step_effect:
  assumes "run_decode_step E p s = (res, s')" and "\<not> is_cancelled (store s p)"
  shows "(\<exists>b tok. res = Inr b \<and> grown p tok s s' \<and> (b \<longrightarrow> within_limit (store s' p))) \<or>
    (\<exists>e. res = Inl e \<and> unchanged_cache p s s')"
  using assms first_token_effect [of E p s res s'] later_token_effect [of E p s res s']
  by (simp add: run_decode_step_def split: if_splits)

text \<open>One iteration of the decode loop either grows the request or ends it.\<close>

lemma decode_one_effect:
  obtains (continue) tok where "quiet p s (decode_one E p s)" "grown p tok s (decode_one E p s)"
      "within_limit (store (decode_one E p s) p)"
  | (complete) s1 r where "quiet p s s1" "unchanged_cache p s s1 \<or> (\<exists>tok. grown p tok s s1)"
      "decode_one E p s = complete_request E p r s1"
  | (fail) s1 e where "quiet p s s1" "unchanged_cache p s s1" "decode_one E p s = fail_request E p e s1"
proof -
  have tick: "quiet p s (tick s)" "quiet p s (tick (tick s))" "unchanged_cache p s (tick s)" "unchanged_cache p s (tick (tick s))"
    by (simp_all add: frame unchanged_cache_def settled_def)
  obtain res s1 where run: "run_decode_step E p (tick (tick s)) = (res, s1)" by fastforce
  have q: "quiet p s s1" using quiet_run_decode_step [OF tick(2), of E] run by simp
  consider "is_cancelled (store s p)"
    | "\<not> is_cancelled (store s p)" "is_request_timed_out (now E s) (timing (store s p))"
    | "\<not> is_cancelled (store s p)" "\<not> is_request_timed_out (now E s) (timing (store s p))"
      "is_decode_timed_out (now E (tick s)) (timing (store s p))"
    | "\<not> is_cancelled (store s p)" "\<not> is_request_timed_out (now E s) (timing (store s p))"
      "\<not> is_decode_timed_out (now E (tick s)) (timing (store s p))"
    by blast
  then show thesis
  proof cases
    case 1
    then show thesis using complete [of s] by (simp add: decode_one_def)
  next
    case 2
    then show thesis using fail [OF tick(1,3)] by (simp add: decode_one_def)
  next
    case 3
    then show thesis using fail [OF tick(2,4)] by (simp add: decode_one_def)
  next
    case 4
    from run_decode_step_effect [OF run] 4(1) consider (ok) b tok where "res = Inr b" "grown p tok (tick (tick s)) s1"
        "b \<longrightarrow> within_limit (store s1 p)"
      | (err) e where "res = Inl e" "unchanged_cache p (tick (tick s)) s1" by auto
    then show thesis
    proof cases
      case ok
      have g: "grown p tok s s1" by (rule grown_trans [OF tick(4) ok(2)])
      show thesis
      proof (cases b)
        case True
        then show thesis using continue [of tok] q g ok(1,3) run 4 by (simp add: decode_one_def)
      next
        case False
        then show thesis using complete [of s1] q g ok(1) run 4 by (auto simp: decode_one_def)
      qed
    next
      case err
      then show thesis
        using fail [OF q unchanged_cache_trans [OF tick(4) err(2)]] run 4 by (simp add: decode_one_def)
    qed
  qed
qed

end
