(* ===== verification/Scheduler_Runs.thy ===== *)
theory Scheduler_Runs
  imports Scheduler
begin

text \<open>
  Interleavings of the scheduler. A world is the scheduler with the control point of its decode thread
  and the requests that client threads have had admitted but not yet enqueued: \<open>submit\<close> checks the queue
  length and pushes under separate locks. The decode thread takes one step per request it starts or
  decodes; between two of its steps clients may submit, cancel, read events or stop the scheduler. At most \<open>T\<close>
  client threads are inside \<open>submit\<close> at a time.
\<close>

section \<open>Worlds and steps\<close>

datatype thread_pc = Absent | Filling | Round "request_ptr list" | Exited

record ('j, 'r, 'k, 'g) world =
  sched :: "('j, 'r, 'k, 'g) scheduler"
  pc :: thread_pc
  admitted :: "request_ptr list"

text \<open>A request as \<open>make_request\<close> leaves it, apart from the tokens and sinks that the routes add.\<close>

definition fresh_request :: "'j request \<Rightarrow> bool" where
  "fresh_request r \<longleftrightarrow> state r = Received \<and> kv_cache r = empty_handle \<and> output_tokens r = [] \<and>
     assigned_devices r = []"

definition in_system :: "('j, 'r, 'k, 'g) world \<Rightarrow> request_ptr list" where
  "in_system w = pending_queue (sched w) @ active_requests (sched w) @ admitted w"

definition new_to :: "request_ptr \<Rightarrow> ('j, 'r, 'k, 'g) world \<Rightarrow> bool" where
  "new_to p w \<longleftrightarrow> p \<notin> set (in_system w) \<and> fresh_request (store (sched w) p) \<and>
     r_id (store (sched w) p) \<notin> (\<lambda>q. r_id (store (sched w) q)) ` set (in_system w)"

definition pop_event :: "request_ptr \<Rightarrow> ('j, 'r, 'k, 'g) scheduler \<Rightarrow> ('j, 'r, 'k, 'g) scheduler" where
  "pop_event p = upd p (\<lambda>r. r\<lparr>token_queue := map_option (\<lambda>q. snd (tq_pop q)) (token_queue r)\<rparr>)"

inductive sched_step :: "('r, 'k, 'g) environment \<Rightarrow> (size_t \<Rightarrow> 'k \<Rightarrow> bool) \<Rightarrow> nat \<Rightarrow>
    ('j, 'r, 'k, 'g) world \<Rightarrow> ('j, 'r, 'k, 'g) world \<Rightarrow> bool" for E ready T where
  create: "p \<notin> set (in_system w) \<Longrightarrow> fresh_request r \<Longrightarrow>
    sched_step E ready T w (w\<lparr>sched := upd p (\<lambda>_. r) (sched w)\<rparr>)"
| submit_admit: "running (sched w) \<Longrightarrow> new_to p w \<Longrightarrow> length (admitted w) < T \<Longrightarrow> admit E p (sched w) = Some (Inr ()) \<Longrightarrow>
    sched_step E ready T w (w\<lparr>admitted := p # admitted w\<rparr>)"
| submit_reject: "running (sched w) \<Longrightarrow> new_to p w \<Longrightarrow> admit E p (sched w) = Some (Inl e) \<Longrightarrow>
    sched_step E ready T w (w\<lparr>sched := reject p e (sched w)\<rparr>)"
| submit_enqueue: "p \<in> set (admitted w) \<Longrightarrow>
    sched_step E ready T w (w\<lparr>sched := enqueue E p (sched w), admitted := remove1 p (admitted w)\<rparr>)"
| cancel_id: "sched_step E ready T w (w\<lparr>sched := cancel i (sched w)\<rparr>)"
| consume: "sched_step E ready T w (w\<lparr>sched := pop_event p (sched w)\<rparr>)"
| start_thread: "pc w = Absent \<Longrightarrow> start (sched w) = (Inr (), s) \<Longrightarrow> sched_step E ready T w (w\<lparr>sched := s, pc := Filling\<rparr>)"
| fill: "pc w = Filling \<Longrightarrow> can_start (sched w) \<Longrightarrow>
    ready (request_seq_len (store (sched w) (hd (pending_queue (sched w))))) (kv_state (sched w)) \<Longrightarrow>
    sched_step E ready T w (w\<lparr>sched := process_one E (sched w)\<rparr>)"
| filled: "pc w = Filling \<Longrightarrow> \<not> can_start (sched w) \<Longrightarrow>
    sched_step E ready T w (w\<lparr>pc := Round (active_requests (sched w))\<rparr>)"
| decode: "pc w = Round (p # ps) \<Longrightarrow> sched_step E ready T w (w\<lparr>sched := decode_one E p (sched w), pc := Round ps\<rparr>)"
| again: "pc w = Round [] \<Longrightarrow> running (sched w) \<Longrightarrow> sched_step E ready T w (w\<lparr>pc := Filling\<rparr>)"
| exit: "pc w = Round [] \<Longrightarrow> \<not> running (sched w) \<Longrightarrow> sched_step E ready T w (w\<lparr>pc := Exited\<rparr>)"
| stop_flag: "running (sched w) \<Longrightarrow> sched_step E ready T w (w\<lparr>sched := stop_signal (sched w)\<rparr>)"
| stop_join: "pc w = Exited \<Longrightarrow> sched_step E ready T w (w\<lparr>sched := stop_finish (sched w), pc := Absent\<rparr>)"

inductive_cases sched_stepE: "sched_step E ready T w w'"

definition initial_world :: "scheduler_config \<Rightarrow> 'j request_store \<Rightarrow> 'k \<Rightarrow> 'r \<Rightarrow> 'g \<Rightarrow> ('j, 'r, 'k, 'g) world" where
  "initial_world cfg st k r g = \<lparr>sched = new_scheduler cfg st k r g, pc = Absent, admitted = []\<rparr>"

abbreviation reachable ::
  "('r, 'k, 'g) environment \<Rightarrow> (size_t \<Rightarrow> 'k \<Rightarrow> bool) \<Rightarrow> nat \<Rightarrow> ('j, 'r, 'k, 'g) world \<Rightarrow> ('j, 'r, 'k, 'g) world \<Rightarrow> bool" where
  "reachable E ready T \<equiv> (sched_step E ready T)\<^sup>*\<^sup>*"

section \<open>The lifecycle invariant\<close>

text \<open>
  The requests that wait, run or are about to be enqueued are pairwise different, also by identifier;
  their states fit the list they are in; the registry holds exactly those that wait or run; no more run
  than configured; and the thread only decodes active requests.
\<close>

definition waiting :: "'j request \<Rightarrow> bool" where
  "waiting r \<longleftrightarrow> kv_cache r = empty_handle \<and> output_tokens r = [] \<and> assigned_devices r = []"

definition registered :: "('j, 'r, 'k, 'g) scheduler \<Rightarrow> bool" where
  "registered s \<longleftrightarrow>
     mset (registry s) = mset (map (\<lambda>p. (r_id (store s p), p)) (pending_queue s @ active_requests s))"

definition lifecycle :: "('j, 'r, 'k, 'g) world \<Rightarrow> bool" where
  "lifecycle w \<longleftrightarrow>
     distinct (in_system w) \<and> inj_on (\<lambda>p. r_id (store (sched w) p)) (set (in_system w)) \<and>
     (\<forall>p \<in> set (pending_queue (sched w)). state (store (sched w) p) = Queued \<and> waiting (store (sched w) p)) \<and>
     (\<forall>p \<in> set (active_requests (sched w)). state (store (sched w) p) = Decoding) \<and>
     (\<forall>p \<in> set (admitted w). fresh_request (store (sched w) p)) \<and>
     registered (sched w) \<and>
     length (active_requests (sched w)) \<le> unat (max_active_requests (sch_config (sched w))) \<and>
     (\<forall>ps. pc w = Round ps \<longrightarrow> distinct ps \<and> set ps \<subseteq> set (active_requests (sched w)))"

lemma lifecycleD:
  assumes "lifecycle w"
  shows "distinct (in_system w)" "inj_on (\<lambda>p. r_id (store (sched w) p)) (set (in_system w))"
    "\<And>p. p \<in> set (pending_queue (sched w)) \<Longrightarrow> state (store (sched w) p) = Queued \<and> waiting (store (sched w) p)"
    "\<And>p. p \<in> set (active_requests (sched w)) \<Longrightarrow> state (store (sched w) p) = Decoding"
    "\<And>p. p \<in> set (admitted w) \<Longrightarrow> fresh_request (store (sched w) p)"
    "registered (sched w)"
    "length (active_requests (sched w)) \<le> unat (max_active_requests (sch_config (sched w)))"
    "\<And>ps. pc w = Round ps \<Longrightarrow> distinct ps \<and> set ps \<subseteq> set (active_requests (sched w))"
  using assms by (auto simp: lifecycle_def)

lemma fresh_waiting: "fresh_request r \<Longrightarrow> waiting r"
  by (simp add: fresh_request_def waiting_def)

text \<open>Steps that leave the lists alone and the requests as far as the invariant reads them.\<close>

definition core_same :: "'j request \<Rightarrow> 'j request \<Rightarrow> bool" where
  "core_same r r' \<longleftrightarrow> r_id r' = r_id r \<and> state r' = state r \<and> kv_cache r' = kv_cache r \<and>
     input_tokens r' = input_tokens r \<and> output_tokens r' = output_tokens r \<and> max_tokens r' = max_tokens r \<and>
     assigned_devices r' = assigned_devices r \<and> prefill_logits r' = prefill_logits r"

lemma core_same_refl [simp]: "core_same r r"
  by (simp add: core_same_def)

lemma core_same_trans: "core_same a b \<Longrightarrow> core_same b c \<Longrightarrow> core_same a c"
  by (simp add: core_same_def)

lemma core_same_cancel [simp]: "core_same r (cancel_request r)"
  by (simp add: core_same_def)

lemma core_same_registry_cancel: "core_same (st p) (registry_cancel i reg st p)"
  by (simp add: registry_cancel_def split: option.splits)

lemma core_same_cancel_all: "core_same (st p) (registry_cancel_all reg st p)"
proof (induction reg arbitrary: st)
  case (Cons x reg)
  obtain i q where x: "x = (i, q)" by fastforce
  let ?st = "if \<not> is_terminal (st q) then st(q := cancel_request (st q)) else st"
  have "core_same (st p) (?st p)" by simp
  then show ?case using core_same_trans [OF _ Cons.IH [of ?st]] x by simp
qed simp

lemma lifecycle_core:
  assumes "lifecycle w" and "\<And>p. p \<in> set (in_system w) \<Longrightarrow> core_same (store (sched w) p) (store s p)"
    and "sch_config s = sch_config (sched w)" "registry s = registry (sched w)"
    and "pending_queue s = pending_queue (sched w)" "active_requests s = active_requests (sched w)"
    and "\<And>ps. c = Round ps \<Longrightarrow> distinct ps \<and> set ps \<subseteq> set (active_requests (sched w))"
  shows "lifecycle (w\<lparr>sched := s, pc := c\<rparr>)"
proof -
  have sys: "in_system (w\<lparr>sched := s, pc := c\<rparr>) = in_system w" by (simp add: in_system_def assms)
  have ids: "r_id (store s p) = r_id (store (sched w) p)" if "p \<in> set (in_system w)" for p
    using assms(2) [OF that] by (simp add: core_same_def)
  have mem: "set (pending_queue (sched w)) \<subseteq> set (in_system w)" "set (active_requests (sched w)) \<subseteq> set (in_system w)"
    "set (admitted w) \<subseteq> set (in_system w)" by (auto simp: in_system_def)
  have "map (\<lambda>p. (r_id (store s p), p)) (pending_queue s @ active_requests s) =
      map (\<lambda>p. (r_id (store (sched w) p), p)) (pending_queue (sched w) @ active_requests (sched w))"
    using ids mem assms(5,6) by auto
  then have reg: "registered s" using lifecycleD(6) [OF assms(1)] assms(4) by (simp add: registered_def)
  have inj: "inj_on (\<lambda>p. r_id (store s p)) (set (in_system w))"
    using lifecycleD(2) [OF assms(1)] ids by (metis (mono_tags, lifting) inj_on_cong)
  have "state (store s p) = Queued \<and> waiting (store s p)" if "p \<in> set (pending_queue (sched w))" for p
    using lifecycleD(3) [OF assms(1) that] assms(2) [of p] mem that by (auto simp: core_same_def waiting_def)
  moreover have "state (store s p) = Decoding" if "p \<in> set (active_requests (sched w))" for p
    using lifecycleD(4) [OF assms(1) that] assms(2) [of p] mem that by (auto simp: core_same_def)
  moreover have "fresh_request (store s p)" if "p \<in> set (admitted w)" for p
    using lifecycleD(5) [OF assms(1) that] assms(2) [of p] mem that by (auto simp: core_same_def fresh_request_def)
  ultimately show ?thesis
    using sys inj reg lifecycleD(1,7) [OF assms(1)] assms(3,5,6,7) by (simp add: lifecycle_def)
qed

text \<open>A request of the queue or the active list leaves the system.\<close>

lemma registered_remove:
  assumes "registered s" and "inj_on (\<lambda>p. r_id (store s p)) (set (pending_queue s @ active_requests s))"
    and "distinct (pending_queue s @ active_requests s)" and "p \<in> set (pending_queue s @ active_requests s)"
    and "\<And>x. x \<noteq> p \<Longrightarrow> store s' x = store s x" and "registry s' = registry_remove (r_id (store s p)) (registry s)"
    and "pending_queue s' = remove1 p (pending_queue s)" "active_requests s' = removeAll p (active_requests s)"
  shows "registered s'"
proof -
  let ?f = "\<lambda>q. (r_id (store s q), q)" and ?L = "pending_queue s @ active_requests s"
  have new: "pending_queue s' @ active_requests s' = filter (\<lambda>q. q \<noteq> p) ?L"
    using assms(3,7,8) by (simp add: distinct_remove1_removeAll removeAll_filter_not_eq eq_commute)
  have "mset (registry s') = filter_mset (\<lambda>x. fst x \<noteq> r_id (store s p)) (mset (map ?f ?L))"
    using assms(1,6) by (simp add: registered_def registry_remove_def AList.delete_eq case_prod_unfold eq_commute)
  also have "\<dots> = mset (map ?f (filter (\<lambda>q. r_id (store s q) \<noteq> r_id (store s p)) ?L))"
    by (simp only: mset_filter [symmetric] filter_map comp_def fst_conv)
  also have "filter (\<lambda>q. r_id (store s q) \<noteq> r_id (store s p)) ?L = filter (\<lambda>q. q \<noteq> p) ?L"
    using assms(2,4) by (intro filter_cong) (auto dest: inj_onD)
  also have "map ?f (filter (\<lambda>q. q \<noteq> p) ?L) = map (\<lambda>q. (r_id (store s' q), q)) (filter (\<lambda>q. q \<noteq> p) ?L)"
    using assms(5) by (intro map_cong) auto
  finally show ?thesis by (simp only: registered_def new)
qed

lemma lifecycle_leave:
  assumes "lifecycle w" and "p \<in> set (pending_queue (sched w) @ active_requests (sched w))"
    and "sch_config s = sch_config (sched w)"
    and "pending_queue s = remove1 p (pending_queue (sched w))" "active_requests s = removeAll p (active_requests (sched w))"
    and "registry s = registry_remove (r_id (store (sched w) p)) (registry (sched w))"
    and "\<And>x. x \<noteq> p \<Longrightarrow> store s x = store (sched w) x"
    and "\<And>ps. c = Round ps \<Longrightarrow> distinct ps \<and> set ps \<subseteq> set (active_requests (sched w)) - {p}"
  shows "lifecycle (w\<lparr>sched := s, pc := c\<rparr>)"
proof -
  note L = lifecycleD [OF assms(1)]
  let ?w = "w\<lparr>sched := s, pc := c\<rparr>"
  have dist: "distinct (pending_queue (sched w) @ active_requests (sched w))" "p \<notin> set (admitted w)"
    using L(1) assms(2) by (auto simp: in_system_def)
  have sys: "in_system ?w = remove1 p (pending_queue (sched w)) @ removeAll p (active_requests (sched w)) @ admitted w"
    by (simp add: in_system_def assms(4,5))
  have set: "set (in_system ?w) = set (in_system w) - {p}"
    unfolding sys using dist by (auto simp: in_system_def)
  have "inj_on (\<lambda>q. r_id (store s q)) (set (in_system ?w)) = inj_on (\<lambda>q. r_id (store (sched w) q)) (set (in_system ?w))"
    using assms(7) set by (intro inj_on_cong) auto
  then have inj: "inj_on (\<lambda>q. r_id (store s q)) (set (in_system ?w))"
    using L(2) set by (auto intro: inj_on_subset)
  have "registered s"
  proof (rule registered_remove [OF L(6) _ dist(1) assms(2) assms(7,6,4,5)])
    show "inj_on (\<lambda>p. r_id (store (sched w) p)) (set (pending_queue (sched w) @ active_requests (sched w)))"
      using L(2) by (rule inj_on_subset) (auto simp: in_system_def)
  qed
  moreover have "length (removeAll p (active_requests (sched w))) \<le> unat (max_active_requests (sch_config s))"
    using order_trans [OF length_removeAll_less_eq L(7)] assms(3) by simp
  moreover have "distinct (in_system ?w)" unfolding sys using L(1) by (auto simp: in_system_def distinct_removeAll)
  moreover have "store s q = store (sched w) q" if "q \<in> set (in_system ?w)" for q
    using that assms(7) set by auto
  ultimately show ?thesis
    using inj L(3,4,5) assms(4,5,8) sys dist unfolding lifecycle_def by (auto simp: assms(7))
qed

text \<open>The first request of the queue becomes active.\<close>

lemma lifecycle_start:
  assumes "lifecycle w" and "can_start (sched w)" and "p = hd (pending_queue (sched w))"
    and "sch_config s = sch_config (sched w)" "registry s = registry (sched w)"
    and "pending_queue s = tl (pending_queue (sched w))" "active_requests s = active_requests (sched w) @ [p]"
    and "\<And>x. x \<noteq> p \<Longrightarrow> store s x = store (sched w) x" and "r_id (store s p) = r_id (store (sched w) p)"
    and "state (store s p) = Decoding" and "pc w = Filling"
  shows "lifecycle (w\<lparr>sched := s\<rparr>)"
proof -
  note L = lifecycleD [OF assms(1)]
  let ?w = "w\<lparr>sched := s\<rparr>"
  obtain ps where pend: "pending_queue (sched w) = p # ps" "tl (pending_queue (sched w)) = ps"
    using assms(2,3) by (cases "pending_queue (sched w)") (auto simp: can_start_def)
  have other: "q \<noteq> p" "store s q = store (sched w) q" if "q \<in> set (pending_queue s) \<union> set (admitted w)" for q
    using L(1) that assms(6) assms(8) [of q] pend by (auto simp: in_system_def)
  have mset: "mset (in_system ?w) = mset (in_system w)" by (simp add: in_system_def assms(6,7) pend)
  then have dist: "distinct (in_system ?w)" using L(1) mset_eq_imp_distinct_iff by blast
  have set: "set (in_system ?w) = set (in_system w)" using mset by (rule mset_eq_setD)
  have ids: "r_id (store s q) = r_id (store (sched w) q)" for q using assms(8,9) by (cases "q = p") auto
  have "registered s" using L(6) by (simp add: registered_def assms(5,6,7) pend ids)
  moreover have "length (active_requests s) \<le> unat (max_active_requests (sch_config s))"
  proof -
    have "unat (sz (active_requests (sched w)) :: size_t) = length (active_requests (sched w))"
      using L(7) by (rule unat_of_nat_size)
    then show ?thesis using assms(2,4,7) by (simp add: can_start_def word_le_nat_alt)
  qed
  moreover have "state (store s q) = Queued \<and> waiting (store s q)" if "q \<in> set (pending_queue s)" for q
    using L(3) [of q] that assms(6) other [of q] pend by simp
  moreover have "state (store s q) = Decoding" if "q \<in> set (active_requests s)" for q
    using L(4) [of q] that assms(7,10) assms(8) [of q] by (cases "q = p") auto
  moreover have "fresh_request (store s q)" if "q \<in> set (admitted w)" for q
    using L(5) [of q] that other [of q] by simp
  ultimately show ?thesis
    using dist L(2) set ids assms(11) by (simp add: lifecycle_def)
qed

text \<open>An admitted request enters the queue.\<close>

lemma enqueue_fields [simp]:
  "sch_config (enqueue E p s) = sch_config s" "active_requests (enqueue E p s) = active_requests s"
  "running (enqueue E p s) = running s" "kv_state (enqueue E p s) = kv_state s" "router (enqueue E p s) = router s"
  "pending_queue (enqueue E p s) = pending_queue s @ [p]"
  "registry (enqueue E p s) = registry_add (store s) p (registry s)"
  "q \<noteq> p \<Longrightarrow> store (enqueue E p s) q = store s q" "r_id (store (enqueue E p s) p) = r_id (store s p)"
  "state (store (enqueue E p s) p) = Queued" "kv_cache (store (enqueue E p s) p) = kv_cache (store s p)"
  "output_tokens (store (enqueue E p s) p) = output_tokens (store s p)"
  "assigned_devices (store (enqueue E p s) p) = assigned_devices (store s p)"
  "input_tokens (store (enqueue E p s) p) = input_tokens (store s p)"
  "max_tokens (store (enqueue E p s) p) = max_tokens (store s p)"
  by (simp_all add: enqueue_def Let_def set_timing_def)

lemma lifecycle_enqueue:
  assumes "lifecycle w" and "p \<in> set (admitted w)"
  shows "lifecycle (w\<lparr>sched := enqueue E p (sched w), admitted := remove1 p (admitted w)\<rparr>)"
proof -
  note L = lifecycleD [OF assms(1)]
  let ?s = "enqueue E p (sched w)"
  let ?w = "w\<lparr>sched := ?s, admitted := remove1 p (admitted w)\<rparr>"
  have dist: "p \<notin> set (pending_queue (sched w))" "p \<notin> set (active_requests (sched w))"
    using L(1) assms(2) by (auto simp: in_system_def)
  have mset: "mset (in_system ?w) = mset (in_system w)" using assms(2) by (simp add: in_system_def)
  then have distinct: "distinct (in_system ?w)" using L(1) mset_eq_imp_distinct_iff by blast
  have set: "set (in_system ?w) = set (in_system w)" using mset by (rule mset_eq_setD)
  have ids: "r_id (store ?s q) = r_id (store (sched w) q)" for q by (cases "q = p") auto
  have old: "store ?s q = store (sched w) q" if "q \<in> set (pending_queue (sched w)) \<union> set (active_requests (sched w))" for q
    using that dist by (intro enqueue_fields) auto
  have "r_id (store (sched w) p) \<notin> fst ` set (registry (sched w))"
  proof
    assume "r_id (store (sched w) p) \<in> fst ` set (registry (sched w))"
    moreover have "fst ` set (registry (sched w)) =
        (\<lambda>q. r_id (store (sched w) q)) ` set (pending_queue (sched w) @ active_requests (sched w))"
      using arg_cong [OF mset_eq_setD [OF L(6) [unfolded registered_def]], of "image fst"]
      by (simp add: image_Un image_image)
    ultimately obtain q where "q \<in> set (pending_queue (sched w) @ active_requests (sched w))"
      "r_id (store (sched w) p) = r_id (store (sched w) q)" by blast
    then show False using L(2) dist assms(2) by (auto simp: in_system_def dest: inj_onD)
  qed
  then have reg: "registry_add (store (sched w)) p (registry (sched w)) = registry (sched w) @ [(r_id (store (sched w) p), p)]"
    by (simp add: registry_add_def update_absent)
  have "registered ?s"
    using L(6) by (simp add: registered_def reg ids)
  moreover have "state (store ?s q) = Queued \<and> waiting (store ?s q)" if "q \<in> set (pending_queue ?s)" for q
    using that L(3) [of q] old [of q] fresh_waiting [OF L(5) [OF assms(2)]] by (auto simp: waiting_def)
  moreover have "fresh_request (store ?s q)" if "q \<in> set (remove1 p (admitted w))" for q
  proof -
    have "q \<noteq> p" using that L(1) by (auto simp: in_system_def)
    then show ?thesis using that L(5) [of q] by (auto dest: notin_set_remove1 set_remove1_subset [THEN subsetD])
  qed
  ultimately show ?thesis
    using distinct L(2,4,7,8) set ids old by (auto simp: lifecycle_def)
qed

lemma lifecycle_admit:
  assumes "lifecycle w" and "new_to p w"
  shows "lifecycle (w\<lparr>admitted := p # admitted w\<rparr>)"
proof -
  note L = lifecycleD [OF assms(1)]
  let ?w = "w\<lparr>admitted := p # admitted w\<rparr>"
  have mset: "mset (in_system ?w) = mset (p # in_system w)" by (simp add: in_system_def)
  have "distinct (p # in_system w)" using L(1) assms(2) by (simp add: new_to_def)
  then have "distinct (in_system ?w)" using mset mset_eq_imp_distinct_iff by blast
  moreover have "set (in_system ?w) = insert p (set (in_system w))" using mset_eq_setD [OF mset] by simp
  moreover have "inj_on (\<lambda>q. r_id (store (sched w) q)) (insert p (set (in_system w)))"
    using L(2) assms(2) by (auto simp: new_to_def)
  ultimately show ?thesis
    using L assms(2) by (auto simp: lifecycle_def new_to_def)
qed

lemma reject_store: "q \<noteq> p \<Longrightarrow> store (reject p e s) q = store s q"
  and reject_fields: "sch_config (reject p e s) = sch_config s" "registry (reject p e s) = registry s"
    "pending_queue (reject p e s) = pending_queue s" "active_requests (reject p e s) = active_requests s"
    "kv_state (reject p e s) = kv_state s" "router (reject p e s) = router s"
  by (simp_all add: reject_def Let_def)

lemma lifecycle_process:
  assumes "lifecycle w" and "can_start (sched w)" and "pc w = Filling"
  shows "lifecycle (w\<lparr>sched := process_one E (sched w)\<rparr>)"
proof -
  let ?p = "hd (pending_queue (sched w))" and ?s0 = "pop_pending (sched w)"
  note L = lifecycleD [OF assms(1)]
  have mem: "?p \<in> set (pending_queue (sched w))" "remove1 ?p (pending_queue (sched w)) = tl (pending_queue (sched w))"
    using assms(2) by (cases "pending_queue (sched w)", auto simp: can_start_def)+
  then have "?p \<notin> set (active_requests (sched w))" using L(1) by (auto simp: in_system_def)
  have pop: "sch_config ?s0 = sch_config (sched w)" "registry ?s0 = registry (sched w)" "store ?s0 = store (sched w)"
    "pending_queue ?s0 = tl (pending_queue (sched w))" "active_requests ?s0 = active_requests (sched w)"
    by (simp_all add: pop_pending_def)
  from start_request_cases [of ?p ?s0 E] show ?thesis
  proof
    assume "started ?p ?s0 (start_request E ?p ?s0)"
    then show ?thesis
      using lifecycle_start [OF assms(1,2) refl, of "process_one E (sched w)"] pop assms(3)
      by (auto simp: started_def process_one_def same_identity_def)
  next
    assume "retired ?p Errored ?s0 (start_request E ?p ?s0)"
    then have "lifecycle (w\<lparr>sched := process_one E (sched w), pc := Filling\<rparr>)"
      using pop mem by (intro lifecycle_leave [OF assms(1), of ?p]) (auto simp: retired_def process_one_def)
    moreover have "w\<lparr>sched := process_one E (sched w), pc := Filling\<rparr> = w\<lparr>sched := process_one E (sched w)\<rparr>"
      using assms(3) by (cases w) simp
    ultimately show ?thesis by simp
  qed
qed

lemma lifecycle_decode:
  assumes "lifecycle w" and "pc w = Round (p # ps)"
  shows "lifecycle (w\<lparr>sched := decode_one E p (sched w), pc := Round ps\<rparr>)"
proof -
  let ?s = "decode_one E p (sched w)"
  note L = lifecycleD [OF assms(1)]
  have act: "p \<in> set (active_requests (sched w))" and ps: "distinct ps" "p \<notin> set ps" "set ps \<subseteq> set (active_requests (sched w))"
    using L(8) [OF assms(2)] by auto
  have notin: "p \<notin> set (pending_queue (sched w))" "p \<notin> set (admitted w)" using L(1) act by (auto simp: in_system_def)
  have leave: "lifecycle (w\<lparr>sched := ?s, pc := Round ps\<rparr>)" if "retired p q (sched w) ?s" for q
    using lifecycle_leave [OF assms(1), of p ?s "Round ps"] that act notin ps
    by (auto simp: retired_def remove1_idem)
  show ?thesis
  proof (cases rule: decode_one_effect [of p "sched w" E])
    case (continue tok)
    have sys: "in_system (w\<lparr>sched := ?s, pc := Round ps\<rparr>) = in_system w"
      using continue by (simp add: in_system_def quiet_def)
    have ids: "r_id (store ?s q) = r_id (store (sched w) q)" for q
      using continue by (cases "q = p") (auto simp: quiet_def same_identity_def)
    have other: "store ?s q = store (sched w) q" if "q \<noteq> p" for q using continue that by (simp add: quiet_def)
    have "registered ?s" using L(6) continue by (simp add: registered_def quiet_def ids)
    moreover have "state (store ?s q) = Decoding" if "q \<in> set (active_requests (sched w))" for q
      using L(4) [OF that] continue other [of q] by (cases "q = p") (auto simp: grown_def settled_def L(4) [OF act])
    ultimately show ?thesis
      using L continue sys ids other notin ps
      by (auto simp: lifecycle_def quiet_def) (metis notin)+
  next
    case (complete s1 r)
    then show ?thesis using leave retired_quiet complete_request_retired by metis
  next
    case (fail s1 e)
    then show ?thesis using leave retired_quiet fail_request_retired by metis
  qed
qed

lemma lifecycle_step:
  assumes "sched_step E ready T w w'" and "lifecycle w"
  shows "lifecycle w'"
  using assms(1)
proof cases
  case (create p r)
  have "lifecycle (w\<lparr>sched := upd p (\<lambda>_. r) (sched w), pc := pc w\<rparr>)"
    using create lifecycleD(8) [OF assms(2)] by (intro lifecycle_core [OF assms(2)]) auto
  then show ?thesis using create by simp
next
  case (submit_reject p e)
  then have "store (reject p e (sched w)) q = store (sched w) q" if "q \<in> set (in_system w)" for q
    using that by (metis new_to_def reject_store)
  then have "lifecycle (w\<lparr>sched := reject p e (sched w), pc := pc w\<rparr>)"
    using lifecycleD(8) [OF assms(2)] by (intro lifecycle_core [OF assms(2)]) (auto simp: reject_fields)
  then show ?thesis using submit_reject by simp
next
  case (cancel_id i)
  have "lifecycle (w\<lparr>sched := cancel i (sched w), pc := pc w\<rparr>)"
    using lifecycleD(8) [OF assms(2)]
    by (intro lifecycle_core [OF assms(2)]) (auto simp: cancel_def core_same_registry_cancel)
  then show ?thesis using cancel_id by simp
next
  case (consume p)
  have "lifecycle (w\<lparr>sched := pop_event p (sched w), pc := pc w\<rparr>)"
    using lifecycleD(8) [OF assms(2)]
    by (intro lifecycle_core [OF assms(2)]) (auto simp: pop_event_def core_same_def)
  then show ?thesis using consume by simp
next
  case (stop_flag)
  have "lifecycle (w\<lparr>sched := stop_signal (sched w), pc := pc w\<rparr>)"
    using lifecycleD(8) [OF assms(2)] by (intro lifecycle_core [OF assms(2)]) (auto simp: stop_signal_def)
  then show ?thesis using stop_flag by simp
next
  case (filled)
  have "lifecycle (w\<lparr>sched := sched w, pc := Round (active_requests (sched w))\<rparr>)"
    using lifecycleD(1) [OF assms(2)] by (intro lifecycle_core [OF assms(2)]) (auto simp: in_system_def)
  then show ?thesis using filled by simp
next
  case (again)
  have "lifecycle (w\<lparr>sched := sched w, pc := Filling\<rparr>)" by (intro lifecycle_core [OF assms(2)]) auto
  then show ?thesis using again by simp
next
  case (exit)
  have "lifecycle (w\<lparr>sched := sched w, pc := Exited\<rparr>)" by (intro lifecycle_core [OF assms(2)]) auto
  then show ?thesis using exit by simp
next
  case (start_thread s)
  then show ?thesis by (auto intro!: lifecycle_core [OF assms(2)] simp: start_def split: if_splits)
next
  case (stop_join)
  then show ?thesis by (auto intro!: lifecycle_core [OF assms(2)] simp: stop_finish_def core_same_cancel_all)
qed (simp_all add: assms(2) lifecycle_admit lifecycle_enqueue lifecycle_process lifecycle_decode)

lemma lifecycle_initial: "lifecycle (initial_world cfg st k r g)"
  by (simp add: lifecycle_def initial_world_def new_scheduler_def in_system_def registered_def)

lemma lifecycle_reachable: "reachable E ready T (initial_world cfg st k r g) w \<Longrightarrow> lifecycle w"
  by (induction rule: rtranclp_induct) (auto intro: lifecycle_initial lifecycle_step)

section \<open>The queue bound\<close>

text \<open>
  The length test and the push of \<open>submit\<close> are not one critical section, so \<open>T\<close> concurrent submitters can
  push the queue past its limit, by at most \<open>T - 1\<close>.
\<close>

definition queue_bounded :: "nat \<Rightarrow> ('j, 'r, 'k, 'g) world \<Rightarrow> bool" where
  "queue_bounded T w \<longleftrightarrow> length (admitted w) \<le> T \<and>
     (length (pending_queue (sched w)) \<ge> unat (max_queue_size (sch_config (sched w))) \<longrightarrow>
        length (pending_queue (sched w)) + length (admitted w) < unat (max_queue_size (sch_config (sched w))) + T \<or>
        (pending_queue (sched w) = [] \<and> admitted w = []))"

lemma admit_queue:
  assumes "admit E p s = Some (Inr ())" and "length (pending_queue s) < 2 ^ 64"
  shows "length (pending_queue s) < unat (max_queue_size (sch_config s))"
proof -
  have "unat (sz (pending_queue s) :: size_t) = length (pending_queue s)" using assms(2) by (simp add: unat_of_nat)
  then show ?thesis using assms(1) by (simp add: admit_def Let_def word_le_nat_alt split: if_splits)
qed

lemma process_one_config: "sch_config (process_one E s) = sch_config s"
  using start_request_cases [of "hd (pending_queue s)" "pop_pending s" E]
  by (auto simp: process_one_def started_def retired_def pop_pending_def)

lemma decode_one_config: "sch_config (decode_one E p s) = sch_config s" "pending_queue (decode_one E p s) = pending_queue s"
  using decode_one_cases [of p s E] by (auto simp: quiet_def retired_def)

lemma sched_step_config: "sched_step E ready T w w' \<Longrightarrow> sch_config (sched w') = sch_config (sched w)"
  by (erule sched_stepE) (auto simp: reject_fields cancel_def pop_event_def start_def stop_signal_def stop_finish_def
      process_one_config decode_one_config split: if_splits)

lemma queue_bounded_step:
  assumes "sched_step E ready T w w'" and "queue_bounded T w"
    and "unat (max_queue_size (sch_config (sched w))) + T < 2 ^ 64"
  shows "queue_bounded T w'"
  using assms(1)
proof cases
  case (submit_admit p)
  have "length (pending_queue (sched w)) < 2 ^ 64"
    using assms(2,3) by (auto simp: queue_bounded_def)
  then show ?thesis using admit_queue [of E p "sched w"] submit_admit by (simp add: queue_bounded_def)
next
  case (submit_enqueue p)
  then have "length (remove1 p (admitted w)) = length (admitted w) - 1" "admitted w \<noteq> []"
    by (auto simp: length_remove1)
  then show ?thesis using submit_enqueue assms(2) by (cases "admitted w") (auto simp: queue_bounded_def)
next
  case (fill)
  then show ?thesis using assms(2)
    by (cases "pending_queue (sched w)") (auto simp: queue_bounded_def process_one_pending process_one_config can_start_def)
qed (use assms(2) in \<open>auto simp: queue_bounded_def reject_fields cancel_def pop_event_def start_def stop_signal_def
    stop_finish_def decode_one_config split: if_splits\<close>)

section \<open>What the registry and the statistics report\<close>

lemma registry_distinct:
  assumes "lifecycle w"
  shows "distinct (map fst (registry (sched w)))"
proof -
  let ?L = "pending_queue (sched w) @ active_requests (sched w)"
  note L = lifecycleD [OF assms]
  have "inj_on (\<lambda>p. r_id (store (sched w) p)) (set ?L)"
    using L(2) by (rule inj_on_subset) (auto simp: in_system_def)
  moreover have "distinct ?L" using L(1) by (auto simp: in_system_def)
  ultimately have "distinct (map (\<lambda>p. r_id (store (sched w) p)) ?L)" by (simp only: distinct_map)
  moreover have "mset (map fst (registry (sched w))) = mset (map (\<lambda>p. r_id (store (sched w) p)) ?L)"
    using arg_cong [OF L(6) [unfolded registered_def], of "image_mset fst"] by (simp add: image_mset.compositionality comp_def)
  ultimately show ?thesis using mset_eq_imp_distinct_iff by blast
qed

lemma get_request_iff:
  assumes "lifecycle w"
  shows "get_request i (sched w) = Some p \<longleftrightarrow>
    p \<in> set (pending_queue (sched w) @ active_requests (sched w)) \<and> r_id (store (sched w) p) = i"
proof -
  have "get_request i (sched w) = Some p \<longleftrightarrow> (i, p) \<in> set (registry (sched w))"
    using registry_distinct [OF assms] by (simp add: get_request_def registry_get_def)
  also have "\<dots> \<longleftrightarrow> p \<in> set (pending_queue (sched w) @ active_requests (sched w)) \<and> r_id (store (sched w) p) = i"
    using mset_eq_setD [OF lifecycleD(6) [OF assms, unfolded registered_def]] by auto
  finally show ?thesis .
qed

lemma state_counts_mset: "state_counts st reg q = of_nat (size (filter_mset (\<lambda>x. state (st (snd x)) = q) (mset reg)))"
  by (induction st reg rule: state_counts.induct) (auto simp: Let_def)

lemma stats_report:
  assumes "lifecycle w"
  shows "st_queued (stats (sched w)) = sz (pending_queue (sched w))"
    and "st_active (stats (sched w)) = sz (active_requests (sched w))"
proof -
  note L = lifecycleD [OF assms]
  have count: "state_counts (store (sched w)) (registry (sched w)) q =
      of_nat (length (filter (\<lambda>p. state (store (sched w) p) = q) (pending_queue (sched w) @ active_requests (sched w))))" for q
  proof -
    let ?L = "pending_queue (sched w) @ active_requests (sched w)"
    have "filter_mset (\<lambda>x. state (store (sched w) (snd x)) = q) (mset (registry (sched w))) =
        mset (map (\<lambda>p. (r_id (store (sched w) p), p)) (filter (\<lambda>p. state (store (sched w) p) = q) ?L))"
      unfolding L(6) [unfolded registered_def] by (simp only: mset_filter [symmetric] filter_map comp_def snd_conv)
    then show ?thesis by (simp only: state_counts_mset size_mset length_map)
  qed
  have pend: "filter (\<lambda>p. state (store (sched w) p) = q) (pending_queue (sched w)) = (if q = Queued then pending_queue (sched w) else [])" for q
    using L(3) by (auto simp: filter_id_conv filter_empty_conv)
  have act: "filter (\<lambda>p. state (store (sched w) p) = q) (active_requests (sched w)) = (if q = Decoding then active_requests (sched w) else [])" for q
    using L(4) by (auto simp: filter_id_conv filter_empty_conv)
  show "st_queued (stats (sched w)) = sz (pending_queue (sched w))"
    and "st_active (stats (sched w)) = sz (active_requests (sched w))"
    by (simp_all add: stats_def Let_def count pend act)
qed

section \<open>Properties\<close>


text \<open>
  C8. The pending queue never exceeds its limit by more than the number of concurrent submitters minus
  one: with \<open>T\<close> client threads inside \<open>submit\<close> at a time it holds fewer than \<open>max_queue_size + T\<close>
  requests, so with one submitter the limit is exact.
\<close>

theorem scheduler_queue_bound:
  assumes "reachable E ready T (initial_world cfg st k r g) w"
    and "unat (max_queue_size cfg) + T < 2 ^ 64" and "pending_queue (sched w) \<noteq> []"
  shows "length (pending_queue (sched w)) < unat (max_queue_size cfg) + T"
proof -
  have "queue_bounded T w \<and> sch_config (sched w) = cfg"
    using assms(1)
  proof (induction rule: rtranclp_induct)
    case base
    show ?case by (simp add: queue_bounded_def initial_world_def new_scheduler_def)
  next
    case (step w w')
    then show ?case
      using queue_bounded_step [OF step.hyps(2)] sched_step_config [OF step.hyps(2)] assms(2) by simp
  qed
  then show ?thesis using assms(3) by (auto simp: queue_bounded_def)
qed

section \<open>A concrete run\<close>

text \<open>A runtime that always prefers token 1 of three, greedy requests, and a run that starts one request.\<close>

definition demo_logits :: logits where
  "demo_logits = \<lparr>logit_data = [0, 2, 1], logits_vocab_size = 3\<rparr>"

definition demo_runtime :: "unit model_runtime" where
  "demo_runtime = \<lparr>rt_prefill = (\<lambda>i c t. (Inr \<lparr>pf_logits = demo_logits, processed_tokens = pf_seq_len i\<rparr>, t)),
     rt_decode_step = (\<lambda>i c t. (Inr \<lparr>dec_logits = demo_logits\<rparr>, t))\<rparr>"

definition demo_env :: "'k kv_ops \<Rightarrow> (unit, 'k, nat) environment" where
  "demo_env K = \<lparr>runtime = demo_runtime, kv_interface = K, random = counter_random,
     env_tokenizer = minimal_tokenizer no_files, clock = int\<rparr>"

definition demo_store :: "json request_store" where
  "demo_store = (\<lambda>_. demo_request\<lparr>temperature := 0, token_queue := Some (mk_token_queue 1024),
     cancel_token := Some make_cancellation_token\<rparr>)"

definition demo_initial :: "'k \<Rightarrow> (json, unit, 'k, nat) world" where
  "demo_initial k = initial_world default_scheduler_config demo_store k () 0"

definition demo_running :: "'k \<Rightarrow> (json, unit, 'k, nat) world" where
  "demo_running k = (demo_initial k)\<lparr>sched := (sched (demo_initial k))\<lparr>running := True\<rparr>, pc := Filling\<rparr>"

definition demo_queued :: "'k kv_ops \<Rightarrow> 'k \<Rightarrow> (json, unit, 'k, nat) world" where
  "demo_queued K k = (demo_running k)\<lparr>sched := enqueue (demo_env K) 0 (sched (demo_running k)), admitted := []\<rparr>"

definition demo_started :: "'k kv_ops \<Rightarrow> 'k \<Rightarrow> (json, unit, 'k, nat) world" where
  "demo_started K k = (demo_queued K k)\<lparr>sched := process_one (demo_env K) (sched (demo_queued K k))\<rparr>"

lemma demo_store_fields:
  "fresh_request (demo_store p)" "request_seq_len (demo_store p) = 16" "max_tokens (demo_store p) = 16"
  "input_tokens (demo_store p) = []"
  by (simp_all add: demo_store_def demo_request_def make_request_def demo_api_request_def fresh_request_def opt_or_def
      request_seq_len_def)

lemma demo_running_fields:
  "store (sched (demo_running k)) = demo_store" "pending_queue (sched (demo_running k)) = []"
  "active_requests (sched (demo_running k)) = []" "kv_state (sched (demo_running k)) = k" "router (sched (demo_running k)) = None"
  "sch_config (sched (demo_running k)) = default_scheduler_config" "running (sched (demo_running k))"
  "pc (demo_running k) = Filling" "admitted (demo_running k) = []"
  by (simp_all add: demo_running_def demo_initial_def initial_world_def new_scheduler_def)

lemma demo_steps:
  assumes "T > 0" and "ka_can_allocate K 16 k" and "ready 16 k"
  shows "sched_step (demo_env K) ready T (demo_initial k) (demo_running k)"
    and "sched_step (demo_env K) ready T (demo_running k) ((demo_running k)\<lparr>admitted := [0]\<rparr>)"
    and "sched_step (demo_env K) ready T ((demo_running k)\<lparr>admitted := [0]\<rparr>) (demo_queued K k)"
    and "sched_step (demo_env K) ready T (demo_queued K k) (demo_started K k)"
proof -
  have admit: "admit (demo_env K) 0 (sched (demo_running k)) = Some (Inr ())"
    using assms(2)
    by (simp add: admit_def Let_def demo_running_fields demo_store_fields default_scheduler_config_def demo_env_def)
  show "sched_step (demo_env K) ready T (demo_initial k) (demo_running k)"
    unfolding demo_running_def
    by (rule start_thread) (simp_all add: demo_initial_def initial_world_def start_def new_scheduler_def)
  show "sched_step (demo_env K) ready T (demo_running k) ((demo_running k)\<lparr>admitted := [0]\<rparr>)"
    using submit_admit [of "demo_running k" 0 T "demo_env K" ready] assms(1) admit
    by (simp add: demo_running_fields new_to_def in_system_def demo_store_fields)
  show "sched_step (demo_env K) ready T ((demo_running k)\<lparr>admitted := [0]\<rparr>) (demo_queued K k)"
    using submit_enqueue [of 0 "(demo_running k)\<lparr>admitted := [0]\<rparr>" "demo_env K" ready T] by (simp add: demo_queued_def)
  have len: "request_seq_len (store (sched (demo_queued K k)) 0) = 16"
    using demo_store_fields(2) [of 0] by (simp add: demo_queued_def demo_running_fields request_seq_len_def)
  show "sched_step (demo_env K) ready T (demo_queued K k) (demo_started K k)"
    unfolding demo_started_def
    by (rule fill) (use len assms(3) in
      \<open>simp_all add: demo_queued_def demo_running_fields can_start_def default_scheduler_config_def\<close>)
qed

lemma demo_reachable:
  assumes "T > 0" and "ka_can_allocate K 16 k" and "ready 16 k"
  shows "reachable (demo_env K) ready T (demo_initial k) (demo_queued K k)"
    and "reachable (demo_env K) ready T (demo_initial k) (demo_started K k)"
proof -
  note steps = demo_steps [of T K k ready, OF assms]
  show "reachable (demo_env K) ready T (demo_initial k) (demo_queued K k)" using steps(1-3) by auto
  with steps(4) show "reachable (demo_env K) ready T (demo_initial k) (demo_started K k)" by auto
qed

abbreviation demo_ca :: "(contiguous \<times> bump) kv_ops" where
  "demo_ca \<equiv> contiguous_ops bump_cuda"

abbreviation demo_kv :: "contiguous \<times> bump" where
  "demo_kv \<equiv> (demo_contiguous, bump_init 8)"

lemma demo_kv_ready: "ka_can_allocate demo_ca 16 demo_kv" "ca_ready 16 demo_kv"
  by (simp_all add: contiguous_eval ca_can_allocate_def contiguous_ops_def)

lemmas demo_ca_reachable = demo_reachable [of 1 demo_ca demo_kv ca_ready, OF zero_less_one demo_kv_ready, unfolded demo_initial_def]

lemma demo_started_fields:
  "sch_config (sched (demo_started K k)) = default_scheduler_config" "pending_queue (sched (demo_started K k)) = []"
  by (simp_all add: demo_started_def process_one_config process_one_pending demo_queued_def demo_running_fields)


theorem scheduler_queue_bound_witness:
  "pending_queue (sched (demo_queued demo_ca demo_kv)) = [0] \<and>
   length (pending_queue (sched (demo_queued demo_ca demo_kv))) < 100 + 1"
proof -
  have "pending_queue (sched (demo_queued demo_ca demo_kv)) = [0]" by (simp add: demo_queued_def demo_running_fields)
  then show ?thesis
    using scheduler_queue_bound [OF demo_ca_reachable(1)] by (simp add: default_scheduler_config_def)
qed

end
