(* ===== verification/Scheduler_Resources.thy ===== *)
theory Scheduler_Resources
  imports Scheduler_Runs
begin

text \<open>
  KV caches over the life of a request, for a scheduler without a GPU router. What the scheduler relies
  on is the locale \<open>scheduler_kv\<close>, which extends the allocator interface by three laws about the length
  field of a handle; both allocators of the repository are interpretations of it. Inside the locale: in every
  reachable world the allocator's live handles are exactly those of the active requests.
\<close>

section \<open>Effect of the operations on the allocator\<close>

definition free_state :: "('r, 'k, 'g) environment \<Rightarrow> kv_cache_handle \<Rightarrow> 'k \<Rightarrow> kv_cache_handle \<times> 'k" where
  "free_state E h k = (if is_valid h then ka_free (kv_interface E) h k else (h, k))"

lemma release_budget_fields [simp]:
  "kv_state (release_budget p s) = kv_state s" "store (release_budget p s) = store s"
  by (auto simp: release_budget_def Let_def split: option.splits)

lemma free_resources_kv:
  "kv_state (free_resources E p s) = snd (free_state E (kv_cache (store s p)) (kv_state s))"
  "kv_cache (store (free_resources E p s) p) = fst (free_state E (kv_cache (store s p)) (kv_state s))"
  by (auto simp: free_resources_def free_state_def Let_def split: prod.splits)

lemma free_resources_router: "router s = None \<Longrightarrow> router (free_resources E p s) = None"
  by (auto simp: free_resources_def release_budget_def Let_def split: prod.splits)

lemma complete_request_kv:
  "kv_state (complete_request E p r s) = snd (free_state E (kv_cache (store s p)) (kv_state s))"
  "router s = None \<Longrightarrow> router (complete_request E p r s) = None"
  by (auto simp: complete_request_def drop_request_def Let_def free_resources_kv free_resources_router finish_queue_def
      set_timing_def split: option.splits)

lemma fail_request_kv:
  "kv_state (fail_request E p e s) = snd (free_state E (kv_cache (store s p)) (kv_state s))"
  "router s = None \<Longrightarrow> router (fail_request E p e s) = None"
  by (auto simp: fail_request_def drop_request_def Let_def free_resources_kv free_resources_router finish_queue_def
      set_timing_def split: option.splits)

lemma prefill_allocated_kv:
  assumes "prefill_allocated E p s = (res, s')" and "router s = None"
  shows "router s' = None"
    and "(res = Inr () \<and> kv_state s' = kv_state s \<and> output_tokens (store s' p) = output_tokens (store s p) \<and>
        kv_cache (store s' p) = (kv_cache (store s p))\<lparr>current_len := sz (input_tokens (store s p))\<rparr>) \<or>
      (\<exists>e. res = Inl e \<and> kv_state s' = snd (free_state E (kv_cache (store s p)) (kv_state s)) \<and>
        kv_cache (store s' p) = fst (free_state E (kv_cache (store s p)) (kv_state s)))"
  using assms
  by (auto simp: prefill_allocated_def Let_def free_resources_kv free_resources_router set_timing_def
      split: prod.splits sum.splits)

lemma run_prefill_kv:
  assumes "run_prefill E p s = (res, s')" and "router s = None"
    and "ka_allocate (kv_interface E) (request_seq_len (store s p)) (kv_state s) = (a, k)"
  shows "router s' = None"
    and "(\<exists>e. a = Inl e \<and> res = Inl e \<and> kv_state s' = k \<and> kv_cache (store s' p) = kv_cache (store s p)) \<or>
      (\<exists>h. a = Inr h \<and> res = Inr () \<and> kv_state s' = k \<and> output_tokens (store s' p) = output_tokens (store s p) \<and>
        kv_cache (store s' p) = h\<lparr>current_len := sz (input_tokens (store s p))\<rparr>) \<or>
      (\<exists>h e. a = Inr h \<and> res = Inl e \<and> kv_state s' = snd (free_state E h k) \<and> kv_cache (store s' p) = fst (free_state E h k))"
proof -
  define s3 where "s3 = measure_in (inc_gauge REQUESTS_ACTIVE)
    (tick (set_timing p (\<lambda>t. t\<lparr>prefill_start := now E (upd p (\<lambda>r. r\<lparr>state := Prefilling\<rparr>) s)\<rparr>)
      (upd p (\<lambda>r. r\<lparr>state := Prefilling\<rparr>) s)))"
  have s3: "router s3 = None" "kv_state s3 = kv_state s" "request_seq_len (store s3 p) = request_seq_len (store s p)"
    "kv_cache (store s3 p) = kv_cache (store s p)" "output_tokens (store s3 p) = output_tokens (store s p)"
    "input_tokens (store s3 p) = input_tokens (store s p)"
    using assms(2) by (simp_all add: s3_def set_timing_def request_seq_len_def)
  have run: "run_prefill E p s = (case a of
      Inl e \<Rightarrow> (Inl e, measure_in (dec_gauge REQUESTS_ACTIVE) (s3\<lparr>kv_state := k\<rparr>))
    | Inr h \<Rightarrow> prefill_allocated E p (upd p (\<lambda>r. r\<lparr>kv_cache := h\<rparr>) (s3\<lparr>kv_state := k\<rparr>)))"
  proof -
    have "route_request p s3 = (None, s3)" using s3(1) by (simp add: route_request_def)
    moreover have "allocate_cache E p None s3 = (a, s3\<lparr>kv_state := k\<rparr>)"
      using assms(3) s3(2,3) by (simp add: allocate_cache_def)
    ultimately show ?thesis
      by (simp add: run_prefill_def Let_def s3_def [symmetric] settle_budget_def split: sum.splits)
  qed
  show "router s' = None"
    using run assms(1) s3 prefill_allocated_kv(1) [of E p "upd p (\<lambda>r. r\<lparr>kv_cache := h\<rparr>) (s3\<lparr>kv_state := k\<rparr>)" res s' for h]
    by (cases a) auto
  show "(\<exists>e. a = Inl e \<and> res = Inl e \<and> kv_state s' = k \<and> kv_cache (store s' p) = kv_cache (store s p)) \<or>
      (\<exists>h. a = Inr h \<and> res = Inr () \<and> kv_state s' = k \<and> output_tokens (store s' p) = output_tokens (store s p) \<and>
        kv_cache (store s' p) = h\<lparr>current_len := sz (input_tokens (store s p))\<rparr>) \<or>
      (\<exists>h e. a = Inr h \<and> res = Inl e \<and> kv_state s' = snd (free_state E h k) \<and> kv_cache (store s' p) = fst (free_state E h k))"
  proof (cases a)
    case (Inr h)
    then show ?thesis
      using run assms(1) s3 prefill_allocated_kv(2) [of E p "upd p (\<lambda>r. r\<lparr>kv_cache := h\<rparr>) (s3\<lparr>kv_state := k\<rparr>)" res s']
      by auto
  qed (use run assms(1) s3 in auto)
qed

text \<open>
  Starting a waiting request: it becomes active with a fresh cache, or it fails and what was allocated
  for it is freed, first by \<open>run_prefill\<close> and then again by \<open>fail_request\<close>.
\<close>

lemma start_request_kv:
  assumes "router s = None" and "waiting (store s p)"
    and alloc: "ka_allocate (kv_interface E) (request_seq_len (store s p)) (kv_state s) = (a, k)"
  shows "router (start_request E p s) = None" (is ?R)
    and "(\<exists>h. a = Inr h \<and> started p s (start_request E p s) \<and> kv_state (start_request E p s) = k \<and>
        output_tokens (store (start_request E p s) p) = [] \<and>
        kv_cache (store (start_request E p s) p) = h\<lparr>current_len := sz (input_tokens (store s p))\<rparr>) \<or>
      (retired p Errored s (start_request E p s) \<and>
        (kv_state (start_request E p s) = kv_state s \<or> (\<exists>e. a = Inl e \<and> kv_state (start_request E p s) = k) \<or>
         (\<exists>h h' k'. a = Inr h \<and> free_state E h k = (h', k') \<and> kv_state (start_request E p s) = snd (free_state E h' k'))))"
    (is ?K)
proof -
  have wait: "\<not> is_valid (kv_cache (store s p))" "output_tokens (store s p) = []"
    using assms(2) by (simp_all add: waiting_def)
  have tt: "quiet p s (tick (tick s))" "quiet p s (tick s)" by (simp_all add: frame)
  have fail: "retired p Errored s (fail_request E p e s1)" if "quiet p s s1" for e s1
    using that fail_request_retired [of p s1 E e] by (rule retired_quiet)
  obtain res s1 where pre: "run_prefill E p (tick (tick s)) = (res, s1)" by fastforce
  have q: "quiet p s s1" using quiet_run_prefill [OF tt(1), of E] pre by simp
  have none: "router s1 = None" using run_prefill_kv(1) [OF pre] assms(1) alloc by simp
  have eff: "(\<exists>e. a = Inl e \<and> res = Inl e \<and> kv_state s1 = k \<and> kv_cache (store s1 p) = kv_cache (store s p)) \<or>
      (\<exists>h. a = Inr h \<and> res = Inr () \<and> kv_state s1 = k \<and> output_tokens (store s1 p) = output_tokens (store s p) \<and>
        kv_cache (store s1 p) = h\<lparr>current_len := sz (input_tokens (store s p))\<rparr>) \<or>
      (\<exists>h e. a = Inr h \<and> res = Inl e \<and> kv_state s1 = snd (free_state E h k) \<and> kv_cache (store s1 p) = fst (free_state E h k))"
    using run_prefill_kv(2) [OF pre, of a k] assms(1) alloc by simp
  consider (early) t e where "start_request E p s = fail_request E p e t" "t = tick s \<or> t = tick (tick s)"
    | (failed) e where "res = Inl e" "start_request E p s = fail_request E p e s1"
    | (ok) "res = Inr ()" "start_request E p s = activate E p s1"
  proof (cases "is_queue_timed_out (now E s) (timing (store s p)) \<or> is_request_timed_out (now E (tick s)) (timing (store s p))")
    case True
    then have "\<exists>t e. start_request E p s = fail_request E p e t \<and> (t = tick s \<or> t = tick (tick s))"
      unfolding start_request_def by auto
    then show ?thesis using that(1) by blast
  next
    case False
    then show ?thesis using that(2,3) pre by (cases res) (auto simp: start_request_def)
  qed
  then have "?R \<and> ?K"
  proof cases
    case early
    then have "kv_state (start_request E p s) = kv_state s"
      using wait by (auto simp: fail_request_kv free_state_def)
    moreover have "router (start_request E p s) = None" "retired p Errored s (start_request E p s)"
      using early fail tt assms(1) by (auto simp: fail_request_kv)
    ultimately show ?thesis by blast
  next
    case failed
    have "?R" using failed none by (simp add: fail_request_kv)
    moreover have "retired p Errored s (start_request E p s)" using failed fail q by simp
    moreover have "(\<exists>e. a = Inl e \<and> kv_state (start_request E p s) = k) \<or>
        (\<exists>h h' k'. a = Inr h \<and> free_state E h k = (h', k') \<and> kv_state (start_request E p s) = snd (free_state E h' k'))"
    proof -
      have kv: "kv_state (start_request E p s) = snd (free_state E (kv_cache (store s1 p)) (kv_state s1))"
        using failed(2) by (simp add: fail_request_kv)
      from eff failed(1) consider e' where "a = Inl e'" "kv_state s1 = k" "kv_cache (store s1 p) = kv_cache (store s p)"
        | h where "a = Inr h" "kv_state s1 = snd (free_state E h k)" "kv_cache (store s1 p) = fst (free_state E h k)"
        by fastforce
      then show ?thesis
      proof cases
        case 1
        then show ?thesis using kv wait by (simp add: free_state_def)
      next
        case 2
        then show ?thesis using kv by (metis prod.collapse)
      qed
    qed
    ultimately show ?thesis by blast
  next
    case ok
    have act: "router (activate E p s1) = router s1" "kv_state (activate E p s1) = kv_state s1"
      "kv_cache (store (activate E p s1) p) = kv_cache (store s1 p)" "output_tokens (store (activate E p s1) p) = output_tokens (store s1 p)"
      by (simp_all add: activate_def Let_def set_timing_def)
    show ?thesis
      using ok act eff assms(1) alloc wait none activate_started [OF q, of E] by auto
  qed
  then show ?R and ?K by blast+
qed

section \<open>The interface and its consequences\<close>

text \<open>The scheduler advances \<open>current_len\<close> of a handle; the allocator's view is the handle with length 0.\<close>

definition rested :: "kv_cache_handle \<Rightarrow> kv_cache_handle" where
  "rested h = h\<lparr>current_len := 0\<rparr>"

definition caches :: "('j, 'r, 'k, 'g) scheduler \<Rightarrow> kv_cache_handle list" where
  "caches s = map (\<lambda>p. rested (kv_cache (store s p))) (active_requests s)"

definition kv_exact :: "('k \<Rightarrow> kv_cache_handle list \<Rightarrow> bool) \<Rightarrow> ('j, 'r, 'k, 'g) world \<Rightarrow> bool" where
  "kv_exact books w \<longleftrightarrow> lifecycle w \<and> router (sched w) = None \<and>
     (\<exists>hs. books (kv_state (sched w)) hs \<and> mset hs = mset (caches (sched w)))"

lemma rested_simps [simp]:
  "is_valid (rested h) = is_valid h" "rested (h\<lparr>current_len := n\<rparr>) = rested h" "rested (rested h) = rested h"
  by (simp_all add: rested_def is_valid_def)

lemma rested_id: "current_len h = 0 \<Longrightarrow> rested h = h"
  by (simp add: rested_def)

lemma caches_cong:
  assumes "active_requests s' = active_requests s"
    and "\<And>p. p \<in> set (active_requests s) \<Longrightarrow> rested (kv_cache (store s' p)) = rested (kv_cache (store s p))"
  shows "caches s' = caches s"
  using assms by (simp add: caches_def)

lemma caches_remove:
  assumes "distinct (active_requests s)" and "p \<in> set (active_requests s)"
    and "active_requests s' = removeAll p (active_requests s)" and "\<And>x. x \<noteq> p \<Longrightarrow> store s' x = store s x"
  shows "mset (caches s) = add_mset (rested (kv_cache (store s p))) (mset (caches s'))"
proof -
  have "caches s' = map (\<lambda>q. rested (kv_cache (store s q))) (remove1 p (active_requests s))"
    using assms by (auto simp: caches_def distinct_remove1_removeAll)
  moreover have "mset (active_requests s) = add_mset p (mset (remove1 p (active_requests s)))"
    using assms(2) by simp
  ultimately show ?thesis
    using arg_cong [of _ _ "image_mset (\<lambda>q. rested (kv_cache (store s q)))"] by (simp add: caches_def del: mset_remove1)
qed

lemma caches_append:
  assumes "active_requests s' = active_requests s @ [p]" and "p \<notin> set (active_requests s)"
    and "\<forall>x. x \<noteq> p \<longrightarrow> store s' x = store s x"
  shows "caches s' = caches s @ [rested (kv_cache (store s' p))]"
  using assms by (auto simp: caches_def)

lemma caches_without:
  assumes "active_requests s' = removeAll p (active_requests s)" and "p \<notin> set (active_requests s)"
    and "\<forall>x. x \<noteq> p \<longrightarrow> store s' x = store s x"
  shows "caches s' = caches s"
  using assms by (auto simp: caches_def)

text \<open>Every other step leaves the caches of the active requests, the allocator and the router alone.\<close>

lemma step_kv_cases:
  assumes "sched_step E ready T w w'" and "lifecycle w"
  obtains (fill) "pc w = Filling" "can_start (sched w)"
      "ready (request_seq_len (store (sched w) (hd (pending_queue (sched w))))) (kv_state (sched w))"
      "w' = w\<lparr>sched := process_one E (sched w)\<rparr>"
    | (decode) p ps where "pc w = Round (p # ps)" "w' = w\<lparr>sched := decode_one E p (sched w), pc := Round ps\<rparr>"
    | (rest) "kv_state (sched w') = kv_state (sched w)" "router (sched w') = router (sched w)"
      "active_requests (sched w') = active_requests (sched w)"
      "\<And>p. p \<in> set (active_requests (sched w)) \<Longrightarrow> core_same (store (sched w) p) (store (sched w') p)"
  using assms(1)
proof cases
  case (create p r)
  have "p \<notin> set (active_requests (sched w))" using create by (simp add: in_system_def)
  then show thesis using create by (intro rest) auto
next
  case (submit_reject p e)
  have "p \<notin> set (active_requests (sched w))" using submit_reject by (simp add: new_to_def in_system_def)
  then show thesis using rest submit_reject reject_store [of _ p e "sched w"] by (metis core_same_refl reject_fields(4,5,6) world.ext_inject world.surjective world.update_convs(1))
next
  case (submit_enqueue p)
  have "p \<notin> set (active_requests (sched w))" using submit_enqueue lifecycleD(1) [OF assms(2)] by (auto simp: in_system_def)
  then have "store (enqueue E p (sched w)) q = store (sched w) q" if "q \<in> set (active_requests (sched w))" for q
    using that by (intro enqueue_fields(8)) auto
  then show thesis using submit_enqueue by (intro rest) auto
next
  case (cancel_id i)
  then show thesis using rest by (simp add: cancel_def core_same_registry_cancel)
next
  case (consume p)
  then show thesis using rest by (simp add: pop_event_def core_same_def)
next
  case (start_thread s)
  then show thesis using rest by (auto simp: start_def split: if_splits)
next
  case (stop_join)
  then show thesis using rest by (simp add: stop_finish_def core_same_cancel_all)
next
  case (stop_flag)
  then show thesis using rest by (simp add: stop_signal_def)
qed (use fill decode rest in simp_all)

locale scheduler_kv = kv_allocator "ka_allocate K" "ka_free K" books ready idle
  for K :: "'k kv_ops" and books :: "'k \<Rightarrow> kv_cache_handle list \<Rightarrow> bool" and ready :: "size_t \<Rightarrow> 'k \<Rightarrow> bool"
    and idle :: "'k \<Rightarrow> bool" +
  assumes free_rested: "ka_free K h k = (h', k') \<Longrightarrow> ka_free K (rested h) k = (rested h', k')"
    and books_valid: "books k hs \<Longrightarrow> h \<in> set hs \<Longrightarrow> is_valid h"
begin

text \<open>Freeing an active request's cache, at whatever length, gives back exactly its handle.\<close>

lemma free_state_live:
  assumes "kv_interface E = K" and "books k hs" and "rested h \<in> set hs"
  shows "books (snd (free_state E h k)) (remove1 (rested h) hs)" and "\<not> is_valid (fst (free_state E h k))"
proof -
  obtain h' k' where free: "ka_free K h k = (h', k')" by fastforce
  have valid: "is_valid h" using books_valid [OF assms(2,3)] by simp
  note live = free_live [OF assms(2,3) free_rested [OF free]]
  show "books (snd (free_state E h k)) (remove1 (rested h) hs)"
    using live free valid assms(1) by (simp add: free_state_def)
  show "\<not> is_valid (fst (free_state E h k))"
    using live free valid assms(1) by (simp add: free_state_def)
qed

lemma kv_exact_process:
  assumes "kv_interface E = K" and "kv_exact books w" and "can_start (sched w)" and "pc w = Filling"
    and "ready (request_seq_len (store (sched w) (hd (pending_queue (sched w))))) (kv_state (sched w))"
  shows "kv_exact books (w\<lparr>sched := process_one E (sched w)\<rparr>)"
proof -
  let ?p = "hd (pending_queue (sched w))" and ?s0 = "pop_pending (sched w)" and ?s' = "process_one E (sched w)"
  from assms(2) obtain hs where life: "lifecycle w" and none: "router (sched w) = None"
    and books: "books (kv_state (sched w)) hs" and hs: "mset hs = mset (caches (sched w))" by (auto simp: kv_exact_def)
  have s0: "router ?s0 = None" "kv_state ?s0 = kv_state (sched w)" "store ?s0 = store (sched w)"
    "active_requests ?s0 = active_requests (sched w)" using none by (simp_all add: pop_pending_def)
  have mem: "?p \<in> set (pending_queue (sched w))" using assms(3) by (simp add: can_start_def)
  then have wait: "waiting (store ?s0 ?p)" and notact: "?p \<notin> set (active_requests (sched w))"
    using lifecycleD(1,3) [OF life] s0 by (auto simp: in_system_def)
  obtain a k where alloc: "ka_allocate K (request_seq_len (store ?s0 ?p)) (kv_state ?s0) = (a, k)" by fastforce
  note start = start_request_kv [OF s0(1) wait, of E a k, folded process_one_def]
  have ready: "ready (request_seq_len (store ?s0 ?p)) (kv_state ?s0)" using assms(5) s0 by simp
  have exact: "kv_exact books (w\<lparr>sched := ?s'\<rparr>)" if "books (kv_state ?s') hs'" "mset hs' = mset (caches ?s')" for hs'
    using that start(1) alloc assms(1) lifecycle_process [OF life assms(3,4), of E] by (auto simp: kv_exact_def)
  from start(2) alloc assms(1) consider
      (ok) h where "a = Inr h" "started ?p ?s0 ?s'" "kv_state ?s' = k"
        "kv_cache (store ?s' ?p) = h\<lparr>current_len := sz (input_tokens (store ?s0 ?p))\<rparr>"
    | (same) "retired ?p Errored ?s0 ?s'" "kv_state ?s' = kv_state ?s0"
    | (err) e where "retired ?p Errored ?s0 ?s'" "a = Inl e" "kv_state ?s' = k"
    | (undo) h h' k' where "retired ?p Errored ?s0 ?s'" "a = Inr h" "free_state E h k = (h', k')"
        "kv_state ?s' = snd (free_state E h' k')"
    by auto
  then show ?thesis
  proof cases
    case ok
    have h: "current_len h = 0" "books k (h # hs)" using alloc_ok [OF _ ready, of hs h k] books s0 alloc ok(1) by auto
    have "caches ?s' = caches (sched w) @ [h]"
      using caches_append [of ?s' "sched w" ?p] ok(2,4) s0 notact h(1) by (simp add: started_def rested_id)
    then show ?thesis using exact [of "h # hs"] h(2) ok(3) hs by simp
  next
    case same
    have "caches ?s' = caches (sched w)"
      using caches_without [of ?s' ?p "sched w"] same(1) s0 notact by (simp add: retired_def)
    then show ?thesis using exact [of hs] books same(2) s0 hs by simp
  next
    case err
    have "caches ?s' = caches (sched w)"
      using caches_without [of ?s' ?p "sched w"] err(1) s0 notact by (simp add: retired_def)
    moreover have "books k hs" using alloc_error [OF _ ready, of hs] books s0 alloc err(2) by auto
    ultimately show ?thesis using exact [of hs] err(3) hs by simp
  next
    case undo
    have h: "current_len h = 0" "books k (h # hs)" using alloc_ok [OF _ ready, of hs h k] books s0 alloc undo(2) by auto
    have "books k' hs" "\<not> is_valid h'"
      using free_state_live [OF assms(1) h(2), of h] undo(3) h(1) by (simp_all add: rested_id)
    moreover have "caches ?s' = caches (sched w)"
      using caches_without [of ?s' ?p "sched w"] undo(1) s0 notact by (simp add: retired_def)
    ultimately show ?thesis using exact [of hs] undo(4) hs by (simp add: free_state_def)
  qed
qed

lemma kv_exact_decode:
  assumes "kv_interface E = K" and "kv_exact books w" and "pc w = Round (p # ps)"
  shows "kv_exact books (w\<lparr>sched := decode_one E p (sched w), pc := Round ps\<rparr>)"
proof -
  let ?s' = "decode_one E p (sched w)"
  from assms(2) obtain hs where life: "lifecycle w" and none: "router (sched w) = None"
    and books: "books (kv_state (sched w)) hs" and hs: "mset hs = mset (caches (sched w))" by (auto simp: kv_exact_def)
  have act: "p \<in> set (active_requests (sched w))" "distinct (active_requests (sched w))"
    using lifecycleD(1,8) [OF life] assms(3) by (auto simp: in_system_def)
  then have mem: "rested (kv_cache (store (sched w) p)) \<in> set hs"
    using mset_eq_setD [OF hs] by (auto simp: caches_def)
  have exact: "kv_exact books (w\<lparr>sched := ?s', pc := Round ps\<rparr>)"
    if "router ?s' = None" "books (kv_state ?s') hs'" "mset hs' = mset (caches ?s')" for hs'
    using that lifecycle_decode [OF life assms(3), of E] by (auto simp: kv_exact_def)
  have leave: "kv_exact books (w\<lparr>sched := ?s', pc := Round ps\<rparr>)"
    if "retired p q (sched w) ?s'" "router ?s' = None" "kv_state ?s' = snd (free_state E h (kv_state (sched w)))"
      "rested h = rested (kv_cache (store (sched w) p))" for q h
  proof -
    have "books (kv_state ?s') (remove1 (rested h) hs)"
      using free_state_live(1) [OF assms(1) books, of h] that(3) mem by (simp add: that(4))
    moreover have "mset (caches (sched w)) = add_mset (rested h) (mset (caches ?s'))"
      using caches_remove [OF act(2,1), of ?s'] that(1,4) by (simp add: retired_def)
    ultimately show ?thesis using exact that(2) hs by simp
  qed
  show ?thesis
  proof (cases rule: decode_one_effect [of p "sched w" E])
    case (continue tok)
    have "caches ?s' = caches (sched w)"
    proof (rule caches_cong)
      fix x
      show "rested (kv_cache (store ?s' x)) = rested (kv_cache (store (sched w) x))"
        using continue by (cases "x = p") (auto simp: quiet_def grown_def)
    qed (use continue in \<open>simp add: quiet_def\<close>)
    then show ?thesis using exact [of hs] continue books hs none by (simp add: grown_def settled_def)
  next
    case (complete s1 r)
    have "kv_state s1 = kv_state (sched w)" "router s1 = None"
      "rested (kv_cache (store s1 p)) = rested (kv_cache (store (sched w) p))"
      using complete(2) none by (auto simp: unchanged_cache_def grown_def settled_def)
    then show ?thesis
      using leave [of Completed "kv_cache (store s1 p)"] complete retired_quiet [OF complete(1) complete_request_retired]
      by (simp add: complete_request_kv)
  next
    case (fail s1 e)
    have "kv_state s1 = kv_state (sched w)" "router s1 = None"
      "rested (kv_cache (store s1 p)) = rested (kv_cache (store (sched w) p))"
      using fail(2) none by (auto simp: unchanged_cache_def settled_def)
    then show ?thesis
      using leave [of Errored "kv_cache (store s1 p)"] fail retired_quiet [OF fail(1) fail_request_retired]
      by (simp add: fail_request_kv)
  qed
qed

lemma kv_exact_step:
  assumes "sched_step E ready T w w'" and "kv_interface E = K" and "kv_exact books w"
  shows "kv_exact books w'"
proof -
  have life: "lifecycle w" using assms(3) by (simp add: kv_exact_def)
  from assms(1) life show ?thesis
  proof (cases rule: step_kv_cases)
    case fill
    then show ?thesis using kv_exact_process [OF assms(2,3)] by simp
  next
    case (decode p ps)
    then show ?thesis using kv_exact_decode [OF assms(2,3)] by simp
  next
    case rest
    have "caches (sched w') = caches (sched w)"
      using rest(3,4) by (intro caches_cong) (auto simp: core_same_def)
    then show ?thesis
      using assms(3) lifecycle_step [OF assms(1) life] rest(1,2) by (simp add: kv_exact_def)
  qed
qed

lemma kv_exact_reachable:
  assumes "reachable E ready T (initial_world cfg st k r g) w" and "kv_interface E = K" and "books k []"
  shows "kv_exact books w"
  using assms(1)
proof (induction rule: rtranclp_induct)
  case base
  show ?case
    using assms(3) lifecycle_initial [of cfg st k r g]
    by (auto simp: kv_exact_def initial_world_def new_scheduler_def caches_def)
qed (use kv_exact_step assms(2) in blast)

text \<open>An allocator without active requests is idle.\<close>

lemma kv_exact_idle: "kv_exact books w \<Longrightarrow> active_requests (sched w) = [] \<Longrightarrow> idle (kv_state (sched w))"
  using books_Nil by (auto simp: kv_exact_def caches_def)

end

section \<open>Both allocators implement the interface\<close>

lemma ca_free_rested: "ca_free C h s c = (h', s', c') \<Longrightarrow> ca_free C (rested h) s c = (rested h', s', c')"
  by (auto simp: ca_free_def rested_def is_valid_def release_handle_def split: if_splits)

lemma pa_free_rested: "pa_free C h s c = (h', s', c') \<Longrightarrow> pa_free C (rested h) s c = (rested h', s', c')"
  by (auto simp: pa_free_def rested_def is_valid_def Let_def split: if_splits option.splits prod.splits)

interpretation cs: scheduler_kv "contiguous_ops C" "ca_books C live" ca_ready ca_idle for C :: "'c cuda" and live
proof -
  have "kv_allocator (ka_allocate (contiguous_ops C)) (ka_free (contiguous_ops C)) (ca_books C live) ca_ready ca_idle"
    using ca.kv_allocator_axioms [of C live] by (simp add: contiguous_ops_def)
  then show "scheduler_kv (contiguous_ops C) (ca_books C live) ca_ready ca_idle"
  proof (rule scheduler_kv.intro)
    show "scheduler_kv_axioms (contiguous_ops C) (ca_books C live)"
    proof
      show "ka_free (contiguous_ops C) (rested h) k = (rested h', k')" if "ka_free (contiguous_ops C) h k = (h', k')" for h k h' k'
        using that ca_free_rested [of C h "fst k" "snd k" h' "fst k'" "snd k'"]
        by (auto simp: contiguous_ops_def split: prod.splits)
      show "is_valid h" if "ca_books C live k hs" "h \<in> set hs" for k hs h
        using that by (auto simp: ca_books_def split: prod.splits)
    qed
  qed
qed

interpretation ps: scheduler_kv "pooled_ops C" "pa_books C live" pa_ready pa_idle for C :: "'c cuda" and live
proof -
  have "kv_allocator (ka_allocate (pooled_ops C)) (ka_free (pooled_ops C)) (pa_books C live) pa_ready pa_idle"
    using pa.kv_allocator_axioms [of C live] by (simp add: pooled_ops_def)
  then show "scheduler_kv (pooled_ops C) (pa_books C live) pa_ready pa_idle"
  proof (rule scheduler_kv.intro)
    show "scheduler_kv_axioms (pooled_ops C) (pa_books C live)"
    proof
      show "ka_free (pooled_ops C) (rested h) k = (rested h', k')" if "ka_free (pooled_ops C) h k = (h', k')" for h k h' k'
        using that pa_free_rested [of C h "fst k" "snd k" h' "fst k'" "snd k'"]
        by (auto simp: pooled_ops_def split: prod.splits)
      show "is_valid h" if "pa_books C live k hs" "h \<in> set hs" for k hs h
        using that by (auto simp: pa_books_def split: prod.splits)
    qed
  qed
qed

section \<open>Properties\<close>




abbreviation demo_pa :: "(pooled \<times> bump) kv_ops" where
  "demo_pa \<equiv> pooled_ops bump_cuda"

lemma demo_pa_ready: "ka_can_allocate demo_pa 16 (fst demo_pooled, snd demo_pooled)" "pa_ready 16 (fst demo_pooled, snd demo_pooled)"
  by (simp_all add: pooled_eval pa_can_allocate_def pooled_ops_def)


end
