(* ===== verification/Scheduler_Liveness.thy ===== *)
theory Scheduler_Liveness
  imports Scheduler_Progress
begin

text \<open>
  Liveness of the decode loop: every pending and every active request ends. The measure is the number
  of tokens the requests may still produce; \<open>process_queue\<close> does not raise it and a round of decode
  steps lowers it.
\<close>

section \<open>The measure\<close>

definition tokens_left :: "'j request \<Rightarrow> nat" where
  "tokens_left r = nat (sint (max_tokens r)) - length (output_tokens r)"

abbreviation waiting_or_active :: "('j, 'r, 'k, 'g) scheduler \<Rightarrow> request_ptr list" where
  "waiting_or_active s \<equiv> pending_queue s @ active_requests s"

definition work_left :: "('j, 'r, 'k, 'g) scheduler \<Rightarrow> nat" where
  "work_left s = (\<Sum>p\<in>set (waiting_or_active s). tokens_left (store s p))"

definition live :: "('j, 'r, 'k, 'g) scheduler \<Rightarrow> bool" where
  "live s \<longleftrightarrow> running s \<and> 0 < max_active_requests (sch_config s) \<and> distinct (waiting_or_active s) \<and>
     (\<forall>p\<in>set (waiting_or_active s). 0 < tokens_left (store s p))"

text \<open>Progress between two states: requests leave only by ending, no other request is touched, no work is added.\<close>

definition advance :: "('j, 'r, 'k, 'g) scheduler \<Rightarrow> ('j, 'r, 'k, 'g) scheduler \<Rightarrow> bool" where
  "advance s s' \<longleftrightarrow> live s' \<and> set (waiting_or_active s') \<subseteq> set (waiting_or_active s) \<and>
     (\<forall>p\<in>set (waiting_or_active s) - set (waiting_or_active s'). terminal_state (state (store s' p))) \<and>
     (\<forall>p. p \<notin> set (waiting_or_active s) \<longrightarrow> store s' p = store s p) \<and> work_left s' \<le> work_left s"

lemma advance_refl: "live s \<Longrightarrow> advance s s"
  by (simp add: advance_def)

lemma advanceD:
  assumes "advance s s'"
  shows "live s'" and "set (waiting_or_active s') \<subseteq> set (waiting_or_active s)"
    and "p \<in> set (waiting_or_active s) \<Longrightarrow> p \<notin> set (waiting_or_active s') \<Longrightarrow> terminal_state (state (store s' p))"
    and "p \<notin> set (waiting_or_active s) \<Longrightarrow> store s' p = store s p" and "work_left s' \<le> work_left s"
  using assms by (simp_all add: advance_def)

lemma advance_trans:
  assumes "advance a b" and "advance b c"
  shows "advance a c"
proof -
  have "terminal_state (state (store c p))" if "p \<in> set (waiting_or_active a)" "p \<notin> set (waiting_or_active c)" for p
    using that advanceD(3,4) [OF assms(1), of p] advanceD(3,4) [OF assms(2), of p] advanceD(2) [OF assms(1)] by (cases "p \<in> set (waiting_or_active b)") auto
  moreover have "store c p = store a p" if "p \<notin> set (waiting_or_active a)" for p
    using that advanceD(3,4) [OF assms(1), of p] advanceD(3,4) [OF assms(2), of p] advanceD(2) [OF assms(1)] by auto
  moreover have "set (waiting_or_active c) \<subseteq> set (waiting_or_active a)" "work_left c \<le> work_left a"
    using advanceD(2,5) [OF assms(1)] advanceD(2,5) [OF assms(2)] by auto
  ultimately show ?thesis using advanceD(1) [OF assms(2)] unfolding advance_def by blast
qed

text \<open>A change to one request of the queues.\<close>

lemma work_split:
  assumes "p \<in> set (waiting_or_active s)"
  shows "work_left s = tokens_left (store s p) + (\<Sum>x\<in>set (waiting_or_active s) - {p}. tokens_left (store s x))"
  using assms unfolding work_left_def by (intro sum.remove) simp_all

lemma advance_retired:
  assumes "live s" and "p \<in> set (waiting_or_active s)" and "set (waiting_or_active s') = set (waiting_or_active s) - {p}"
    and "distinct (waiting_or_active s')" and "\<forall>x. x \<noteq> p \<longrightarrow> store s' x = store s x" and "terminal_state (state (store s' p))"
    and "running s' = running s" "sch_config s' = sch_config s"
  shows "advance s s' \<and> work_left s' < work_left s"
proof -
  have "work_left s' = (\<Sum>x\<in>set (waiting_or_active s) - {p}. tokens_left (store s x))"
    unfolding work_left_def assms(3) using assms(5) by (intro sum.cong) auto
  then have less: "work_left s' < work_left s" using work_split [OF assms(2)] assms(1,2) by (simp add: live_def)
  have "live s'" using assms unfolding live_def by (metis DiffD1 DiffD2 singletonI)
  moreover have "set (waiting_or_active s) - set (waiting_or_active s') = {p}" unfolding assms(3) using assms(2) by blast
  ultimately show ?thesis using assms(2,3,5,6) less unfolding advance_def by auto
qed

lemma advance_kept:
  assumes "live s" and "p \<in> set (waiting_or_active s)" and "set (waiting_or_active s') = set (waiting_or_active s)"
    and "distinct (waiting_or_active s')" and "\<forall>x. x \<noteq> p \<longrightarrow> store s' x = store s x"
    and "0 < tokens_left (store s' p)" and "tokens_left (store s' p) \<le> tokens_left (store s p)"
    and "running s' = running s" "sch_config s' = sch_config s"
  shows "advance s s' \<and> (tokens_left (store s' p) < tokens_left (store s p) \<longrightarrow> work_left s' < work_left s)"
proof -
  have "work_left s' = tokens_left (store s' p) + (\<Sum>x\<in>set (waiting_or_active s) - {p}. tokens_left (store s x))"
    unfolding work_split [of p s', unfolded assms(3), OF assms(2)] using assms(5) by (auto intro!: sum.cong)
  then have work: "work_left s' + tokens_left (store s p) = work_left s + tokens_left (store s' p)"
    using work_split [OF assms(2)] by simp
  have "live s'" using assms unfolding live_def by metis
  then show ?thesis using assms(2,3,5,7) work unfolding advance_def by auto
qed

section \<open>The steps of the loop\<close>

lemma free_resources_output: "output_tokens (store (free_resources E p s) x) = output_tokens (store s x)"
  by (auto simp: free_resources_def release_budget_def Let_def upd_def split: prod.splits option.splits)

lemma run_prefill_output: "output_tokens (store (snd (run_prefill E p s)) p) = output_tokens (store s p)"
  by (auto simp: run_prefill_def route_request_def allocate_cache_def settle_budget_def prefill_allocated_def set_timing_def
      Let_def free_resources_output split: prod.splits option.splits sum.splits)

lemma fail_request_state: "state (store (fail_request E p e s) p) = Errored"
  using fail_request_retired [of p s E e] by (simp add: retired_def)

lemma output_tokens_start:
  assumes "state (store (start_request E p s) p) = Decoding"
  shows "output_tokens (store (start_request E p s) p) = output_tokens (store s p)"
proof -
  obtain res s1 where pre: "run_prefill E p (tick (tick s)) = (res, s1)" by fastforce
  have "start_request E p s = activate E p s1"
    using assms pre by (auto simp: start_request_def fail_request_state split: if_splits sum.splits)
  then show ?thesis
    using run_prefill_output [of E p "tick (tick s)"] pre by (simp add: activate_def Let_def set_timing_def)
qed

lemma process_one_advance:
  assumes "live s" and "can_start s"
  shows "advance s (process_one E s)"
proof -
  from assms(2) obtain p ps where pend: "pending_queue s = p # ps" by (cases "pending_queue s") (auto simp: can_start_def)
  let ?s0 = "pop_pending s" and ?s' = "process_one E s"
  have s0: "store ?s0 = store s" "pending_queue ?s0 = ps" "active_requests ?s0 = active_requests s" "running ?s0 = running s"
    "sch_config ?s0 = sch_config s" using pend by (simp_all add: pop_pending_def)
  have s': "?s' = start_request E p ?s0" using pend by (simp add: process_one_def)
  have dist: "distinct (p # ps @ active_requests s)" using assms(1) pend by (simp add: live_def)
  have mem: "p \<in> set (waiting_or_active s)" using pend by simp
  from start_request_cases [of p ?s0 E] show ?thesis unfolding s' [symmetric]
  proof
    assume ok: "started p ?s0 ?s'"
    have "tokens_left (store ?s' p) = tokens_left (store s p)"
      using ok output_tokens_start [of E p ?s0] s0 by (simp add: started_def tokens_left_def same_identity_def s')
    moreover have "set (waiting_or_active ?s') = set (waiting_or_active s)" "distinct (waiting_or_active ?s')"
      using ok dist s0 pend unfolding started_def by auto
    ultimately show ?thesis
      using advance_kept [OF assms(1) mem, of ?s'] ok s0 assms(1) mem by (simp add: started_def live_def)
  next
    assume gone: "retired p Errored ?s0 ?s'"
    then have "set (waiting_or_active ?s') = set (waiting_or_active s) - {p}" "distinct (waiting_or_active ?s')"
      using dist s0 pend unfolding retired_def by (auto simp: distinct_removeAll)
    then show ?thesis
      using advance_retired [OF assms(1) mem, of ?s'] gone s0 by (simp add: retired_def terminal_state_def)
  qed
qed

lemma process_queue_advance: "live s \<Longrightarrow> advance s (process_queue E s) \<and> \<not> can_start (process_queue E s)"
proof (induction E s rule: process_queue.induct)
  case (1 E s)
  show ?case
  proof (cases "can_start s")
    case True
    then show ?thesis
      using 1 process_one_advance [OF "1.prems" True, of E] advanceD(1) advance_trans
      by (simp add: process_queue.simps [of E s]) blast
  qed (simp add: process_queue.simps [of E s] advance_refl 1)
qed

lemma remaining_grown:
  assumes "quiet p s s'" and "grown p tok s s'" and "within_limit (store s' p)" and "0 < tokens_left (store s p)"
  shows "0 < tokens_left (store s' p) \<and> tokens_left (store s' p) < tokens_left (store s p)"
proof -
  have out: "output_tokens (store s' p) = output_tokens (store s p) @ [tok]" "max_tokens (store s' p) = max_tokens (store s p)"
    using assms(1,2) by (simp_all add: grown_def quiet_def same_identity_def)
  have "0 < sint (max_tokens (store s' p)) \<longrightarrow> int (length (output_tokens (store s' p))) < sint (max_tokens (store s' p))"
    by (rule limit_kept [OF _ out(1) assms(3)]) (use assms(4) out(2) in \<open>auto simp: tokens_left_def\<close>)
  then show ?thesis using assms(4) out by (auto simp: tokens_left_def)
qed

lemma decode_one_advance:
  assumes "live s" and "p \<in> set (active_requests s)"
  shows "advance s (decode_one E p s) \<and> work_left (decode_one E p s) < work_left s"
    and "x \<noteq> p \<Longrightarrow> x \<in> set (active_requests (decode_one E p s)) \<longleftrightarrow> x \<in> set (active_requests s)"
proof -
  let ?s' = "decode_one E p s"
  have mem: "p \<in> set (waiting_or_active s)" and rem: "0 < tokens_left (store s p)" and dist: "distinct (waiting_or_active s)"
    and notp: "p \<notin> set (pending_queue s)"
    using assms by (auto simp: live_def)
  have gone: "(advance s ?s' \<and> work_left ?s' < work_left s) \<and>
      (x \<noteq> p \<longrightarrow> (x \<in> set (active_requests ?s') \<longleftrightarrow> x \<in> set (active_requests s)))"
    if ret: "retired p q s ?s'" and "terminal_state q" for q
  proof -
    have "set (waiting_or_active ?s') = set (waiting_or_active s) - {p}" "distinct (waiting_or_active ?s')"
      using ret dist notp by (auto simp: retired_def distinct_removeAll)
    then show ?thesis using advance_retired [OF assms(1) mem, of ?s'] that by (simp add: retired_def)
  qed
  have "(advance s ?s' \<and> work_left ?s' < work_left s) \<and>
      (x \<noteq> p \<longrightarrow> (x \<in> set (active_requests ?s') \<longleftrightarrow> x \<in> set (active_requests s)))"
  proof (cases rule: decode_one_effect [of p s E])
    case (continue tok)
    then show ?thesis
      using remaining_grown [OF continue rem] advance_kept [OF assms(1) mem, of ?s'] dist by (simp add: quiet_def)
  next
    case (complete s1 r)
    then show ?thesis
      using gone retired_quiet [OF complete(1) complete_request_retired [of p s1 E r]] by (simp add: terminal_state_def)
  next
    case (fail s1 e)
    then show ?thesis
      using gone retired_quiet [OF fail(1) fail_request_retired [of p s1 E e]] by (simp add: terminal_state_def)
  qed
  then show "advance s ?s' \<and> work_left ?s' < work_left s"
    and "x \<noteq> p \<Longrightarrow> x \<in> set (active_requests ?s') \<longleftrightarrow> x \<in> set (active_requests s)" by simp_all
qed

lemma decode_fold_advance:
  assumes "live s" and "set ps \<subseteq> set (active_requests s)" and "distinct ps"
  shows "advance s (fold (decode_one E) ps s) \<and> (ps \<noteq> [] \<longrightarrow> work_left (fold (decode_one E) ps s) < work_left s)"
  using assms
proof (induction ps arbitrary: s)
  case (Cons p ps)
  let ?s1 = "decode_one E p s"
  have one: "advance s ?s1" "work_left ?s1 < work_left s" using decode_one_advance(1) [of s p E] Cons.prems by auto
  have "set ps \<subseteq> set (active_requests ?s1)"
  proof
    fix x assume "x \<in> set ps"
    then have "x \<noteq> p" "x \<in> set (active_requests s)" using Cons.prems by auto
    then show "x \<in> set (active_requests ?s1)" using decode_one_advance(2) [of s p x E] Cons.prems by simp
  qed
  with Cons.IH [OF advanceD(1) [OF one(1)]] Cons.prems have "advance ?s1 (fold (decode_one E) ps ?s1)" by simp
  then show ?case using one advance_trans advanceD(5) by (fastforce intro: le_less_trans)
qed (simp add: advance_refl)

text \<open>A round of decode steps lowers the measure unless no request is active.\<close>

lemma decode_round_advance:
  assumes "live s"
  shows "advance s (decode_round E s)" and "active_requests s \<noteq> [] \<Longrightarrow> work_left (decode_round E s) < work_left s"
  using decode_fold_advance [OF assms, of "active_requests s" E] assms by (auto simp: decode_round_def live_def)

lemma work_left_0: "live s \<Longrightarrow> work_left s = 0 \<longleftrightarrow> waiting_or_active s = []"
  unfolding live_def work_left_def by (metis List.finite_set empty_iff list.set(1) list.set_intros(1) neq_Nil_conv not_less0 sum.empty sum_eq_0_iff)

lemma decode_loop_drains:
  assumes "live s" and "work_left s \<le> n"
  shows "advance s (decode_loop E n s) \<and> waiting_or_active (decode_loop E n s) = []"
  using assms
proof (induction n arbitrary: s)
  case 0
  then show ?case using advance_refl [of s] work_left_0 [of s] by simp
next
  case (Suc n)
  let ?s1 = "process_queue E s"
  have q: "advance s ?s1" "\<not> can_start ?s1" using process_queue_advance [OF Suc.prems(1)] by simp_all
  note live1 = advanceD(1) [OF q(1)] and d = decode_round_advance [OF advanceD(1) [OF q(1)], of E]
  have "work_left (decode_round E ?s1) \<le> n"
  proof (cases "active_requests ?s1 = []")
    case True
    then have "pending_queue ?s1 = []" using q(2) live1 by (auto simp: can_start_def live_def)
    then have "work_left ?s1 = 0" using work_left_0 [OF live1] True by simp
    then show ?thesis using advanceD(5) [OF d(1)] by simp
  next
    case False
    then show ?thesis using d(2) advanceD(5) [OF q(1)] Suc.prems(2) by simp
  qed
  from Suc.IH [OF advanceD(1) [OF d(1)] this] show ?case
    using Suc.prems(1) advance_trans [OF advance_trans [OF q(1) d(1)]] by (simp add: live_def)
qed

section \<open>Properties\<close>

text \<open>
  C3. Every request ends. From any state of a running scheduler that may run at least one request at a
  time, whose waiting and active requests are distinct and below their token limits, \<open>decode_loop\<close> ends
  all of them: after as many iterations as they may still produce tokens together, the queue and the
  active list are empty and each request is in a terminal state, whatever the runtime, the sampler, the
  clock and the allocator answer.
\<close>

theorem every_request_ends:
  assumes "running s" and "0 < max_active_requests (sch_config s)"
    and "distinct (pending_queue s @ active_requests s)"
    and "\<forall>p \<in> set (pending_queue s @ active_requests s). int (length (output_tokens (store s p))) < sint (max_tokens (store s p))"
    and "(\<Sum>p\<in>set (pending_queue s @ active_requests s). tokens_left (store s p)) \<le> n"
  shows "pending_queue (decode_loop E n s) = [] \<and> active_requests (decode_loop E n s) = [] \<and>
    (\<forall>p \<in> set (pending_queue s @ active_requests s). is_terminal (store (decode_loop E n s) p))"
proof -
  have "live s" using assms(1-4) unfolding live_def by (force simp: tokens_left_def)
  moreover have "work_left s \<le> n" using assms(5) by (simp add: work_left_def)
  ultimately show ?thesis
    using decode_loop_drains [of s n E] by (auto simp: advance_def is_terminal_def)
qed

theorem every_request_ends_witness:
  "active_requests (decode_loop (demo_env demo_ca) 16 (sched (demo_queued demo_ca demo_kv))) = [] \<and>
   is_terminal (store (decode_loop (demo_env demo_ca) 16 (sched (demo_queued demo_ca demo_kv))) 0)"
  using every_request_ends [of "sched (demo_queued demo_ca demo_kv)" 16 "demo_env demo_ca"] demo_store_fields [of 0]
  by (simp add: demo_queued_def demo_running_fields default_scheduler_config_def tokens_left_def fresh_request_def)

end
