(* ===== verification/Scheduler_Streaming.thy ===== *)
theory Scheduler_Streaming
  imports Scheduler_Progress
begin

text \<open>
  What the client of a streamed request reads. The token queue of a request is filled by the decode thread
  and emptied by an HTTP thread; the history of the events read, followed by those still queued, is
  compared with the tokens the scheduler has produced. \<open>feeds\<close> abstracts the steps of the scheduler to what
  they do to one request, and the theorem holds for every interleaving of \<open>sched_step\<close>.
\<close>

section \<open>What a step does to the stream of a request\<close>

definition token_event_of :: "('r, 'k, 'g) environment \<Rightarrow> int32 \<Rightarrow> token_event" where
  "token_event_of E tok = (token_event_init Token)\<lparr>ev_token_id := tok, ev_text := token_text E tok\<rparr>"

text \<open>The last event of a request that has ended.\<close>

definition final_event :: "'j request \<Rightarrow> token_event" where
  "final_event r =
     (if state r = Completed then (token_event_init Complete)\<lparr>ev_finish_reason := r_finish_reason r\<rparr>
      else (token_event_init Error)\<lparr>ev_error := r_error r\<rparr>)"

definition ended :: "'j request \<Rightarrow> bool" where
  "ended r \<longleftrightarrow> state r = Completed \<or> state r = Errored"

definition push_event_on :: "token_event \<Rightarrow> token_queue option \<Rightarrow> token_queue option" where
  "push_event_on ev = map_option (\<lambda>q. snd (tq_push ev q))"

text \<open>Nothing, a token, the end, or a rejection.\<close>

definition still :: "'j request \<Rightarrow> 'j request \<Rightarrow> bool" where
  "still r r' \<longleftrightarrow> output_tokens r' = output_tokens r \<and> token_queue r' = token_queue r \<and>
     (is_terminal r' \<longleftrightarrow> is_terminal r) \<and> (is_terminal r \<longrightarrow> state r' = state r \<and> final_event r' = final_event r)"

definition token_fed :: "('r, 'k, 'g) environment \<Rightarrow> 'j request \<Rightarrow> 'j request \<Rightarrow> bool" where
  "token_fed E r r' \<longleftrightarrow> (\<exists>tok. output_tokens r' = output_tokens r @ [tok] \<and>
     token_queue r' = push_event_on (token_event_of E tok) (token_queue r)) \<and> \<not> is_terminal r \<and> \<not> is_terminal r'"

definition end_fed :: "'j request \<Rightarrow> 'j request \<Rightarrow> bool" where
  "end_fed r r' \<longleftrightarrow> output_tokens r' = output_tokens r \<and>
     token_queue r' = map_option tq_close (push_event_on (final_event r') (token_queue r)) \<and> \<not> is_terminal r \<and> ended r'"

definition turned_away :: "'j request \<Rightarrow> 'j request \<Rightarrow> bool" where
  "turned_away r r' \<longleftrightarrow> output_tokens r' = output_tokens r \<and> token_queue r' = token_queue r \<and>
     \<not> is_terminal r \<and> state r' = Rejected"

inductive feeds :: "('r, 'k, 'g) environment \<Rightarrow> 'j request \<Rightarrow> 'j request \<Rightarrow> bool" for E where
  feeds_still: "still r r' \<Longrightarrow> feeds E r r'"
| feeds_token: "feeds E r r' \<Longrightarrow> token_fed E r' r'' \<Longrightarrow> feeds E r r''"
| feeds_end: "feeds E r r' \<Longrightarrow> end_fed r' r'' \<Longrightarrow> feeds E r r''"
| feeds_reject: "feeds E r r' \<Longrightarrow> turned_away r' r'' \<Longrightarrow> feeds E r r''"

lemma still_refl [simp]: "still r r"
  by (simp add: still_def)

lemma feeds_refl [simp]: "feeds E r r"
  by (rule feeds_still) simp

lemma still_trans: "still a b \<Longrightarrow> still b c \<Longrightarrow> still a c"
  by (auto simp: still_def)

lemma terminal_ended: "ended r \<Longrightarrow> is_terminal r"
  by (auto simp: ended_def is_terminal_def terminal_state_def)

section \<open>The operations\<close>

text \<open>Before the end of a request only the state, the tokens and the queue matter.\<close>

definition calm :: "'j request \<Rightarrow> 'j request \<Rightarrow> bool" where
  "calm r r' \<longleftrightarrow> output_tokens r' = output_tokens r \<and> token_queue r' = token_queue r \<and> \<not> is_terminal r'"

lemma calm_still: "calm r r' \<Longrightarrow> \<not> is_terminal r \<Longrightarrow> still r r'"
  by (simp add: calm_def still_def)

lemma free_resources_stream [frame, simp]:
  "output_tokens (store (free_resources E p s) p) = output_tokens (store s p)"
  "token_queue (store (free_resources E p s) p) = token_queue (store s p)"
  "r_finish_reason (store (free_resources E p s) p) = r_finish_reason (store s p)"
  "r_error (store (free_resources E p s) p) = r_error (store s p)"
  by (auto simp: free_resources_def release_budget_def Let_def split: prod.splits option.splits)

lemma run_prefill_stream:
  "output_tokens (store (snd (run_prefill E p s)) p) = output_tokens (store s p) \<and>
   token_queue (store (snd (run_prefill E p s)) p) = token_queue (store s p) \<and>
   state (store (snd (run_prefill E p s)) p) = Prefilling"
  by (auto simp: run_prefill_def prefill_allocated_def route_request_def allocate_cache_def settle_budget_def set_timing_def Let_def
      split: prod.splits sum.splits option.splits if_splits)

lemma complete_request_fed:
  assumes "\<not> is_terminal (store s p)" shows "end_fed (store s p) (store (complete_request E p reason s) p)"
  using assms by (auto simp: end_fed_def complete_request_def drop_request_def finish_queue_def set_timing_def Let_def ended_def
      final_event_def push_event_on_def option.map_comp o_def split: option.splits)

lemma fail_request_fed:
  assumes "\<not> is_terminal (store s p)" shows "end_fed (store s p) (store (fail_request E p e s) p)"
  using assms by (auto simp: end_fed_def fail_request_def drop_request_def finish_queue_def set_timing_def Let_def ended_def
      final_event_def push_event_on_def option.map_comp o_def split: option.splits)

lemma deliver_token_stream:
  assumes "deliver_token E p tok s = (b, s')"
  shows "output_tokens (store s' p) = output_tokens (store s p) \<and> state (store s' p) = state (store s p) \<and>
    token_queue (store s' p) = push_event_on (token_event_of E tok) (token_queue (store s p))"
  using assms by (auto simp: deliver_token_def emit_token_def check_stop_and_continue_def Let_def push_event_on_def token_event_of_def
      split: option.splits prod.splits if_splits)

lemma sample_next_store: "sample_next E p l prev s = (res, s') \<Longrightarrow> store s' = store s"
  by (auto simp: sample_next_def split: prod.splits)

lemma token_fedI:
  assumes "output_tokens r' = output_tokens r @ [tok]" and "token_queue r' = push_event_on (token_event_of E tok) (token_queue r)"
    and "state r' = state r" and "\<not> is_terminal r"
  shows "token_fed E r r'"
  using assms by (auto simp: token_fed_def is_terminal_def)

lemma first_token_fed:
  assumes "first_token E p s = (res, s')" and "\<not> is_terminal (store s p)"
  shows "case res of Inr b \<Rightarrow> token_fed E (store s p) (store s' p) | Inl e \<Rightarrow> still (store s p) (store s' p)"
proof (cases "prefill_logits (store s p) = []")
  case False
  let ?s1 = "upd p (\<lambda>r. r\<lparr>prefill_logits := []\<rparr>) s"
  let ?l = "\<lparr>logit_data = prefill_logits (store s p), logits_vocab_size = prefill_logits_vocab_size (store s p)\<rparr>"
  obtain r s2 where samp: "sample_next E p ?l [] ?s1 = (r, s2)" by fastforce
  note st = sample_next_store [OF samp]
  show ?thesis
  proof (cases r)
    case (Inl e)
    then show ?thesis using assms False samp st by (auto simp: first_token_def Let_def still_def is_terminal_def final_event_def)
  next
    case (Inr x)
    let ?s3 = "push_token p (sr_token_id x) s2"
    let ?s4 = "tick (set_timing p (\<lambda>t. t\<lparr>first_token_at := now E ?s3\<rparr>) ?s3)"
    let ?s5 = "measure_in (observe_in TIME_TO_FIRST_TOKEN (time_to_first_token_ms (timing (store ?s4 p)) / 1000)) ?s4"
    obtain b s6 where del: "deliver_token E p (sr_token_id x) ?s5 = (b, s6)" by fastforce
    have "res = Inr b" "s' = s6" using assms False samp Inr del by (simp_all add: first_token_def Let_def)
    moreover have "token_fed E (store s p) (store s6 p)"
      using deliver_token_stream [OF del] st assms(2)
      by (intro token_fedI [where tok = "sr_token_id x"]) (simp_all add: push_token_def set_timing_def)
    ultimately show ?thesis by simp
  qed
qed (use assms in \<open>auto simp: first_token_def\<close>)

lemma later_token_fed:
  assumes "later_token E p s = (res, s')" and "\<not> is_terminal (store s p)"
  shows "case res of Inr b \<Rightarrow> token_fed E (store s p) (store s' p) | Inl e \<Rightarrow> still (store s p) (store s' p)"
proof -
  obtain d t where dec: "rt_decode_step (runtime E) (decode_input_of (store s p)) (cancel_flag (store s p)) (rt_state s) = (d, t)"
    by fastforce
  show ?thesis
  proof (cases d)
    case (Inl e)
    then show ?thesis using assms dec by (auto simp: later_token_def)
  next
    case (Inr out)
    obtain r s2 where samp: "sample_next E p (dec_logits out) (output_tokens (store s p)) (s\<lparr>rt_state := t\<rparr>) = (r, s2)"
      by fastforce
    note st = sample_next_store [OF samp]
    show ?thesis
    proof (cases r)
      case (Inl e)
      then show ?thesis using assms dec Inr samp st by (auto simp: later_token_def)
    next
      case (Inr x)
      obtain b s6 where del: "deliver_token E p (sr_token_id x) (push_token p (sr_token_id x) s2) = (b, s6)" by fastforce
      have "res = Inr b" "s' = s6" using assms dec \<open>d = Inr out\<close> samp Inr del by (simp_all add: later_token_def)
      moreover have "token_fed E (store s p) (store s6 p)"
        using deliver_token_stream [OF del] st assms(2)
        by (intro token_fedI [where tok = "sr_token_id x"]) (simp_all add: push_token_def)
      ultimately show ?thesis by simp
    qed
  qed
qed

lemma run_decode_step_fed:
  assumes "run_decode_step E p s = (res, s')" and "\<not> is_terminal (store s p)" and "\<not> is_cancelled (store s p)"
  shows "case res of Inr b \<Rightarrow> token_fed E (store s p) (store s' p) | Inl e \<Rightarrow> still (store s p) (store s' p)"
  using assms first_token_fed [of E p s res s'] later_token_fed [of E p s res s']
  by (simp add: run_decode_step_def split: if_splits)

lemma feeds_then_end: "feeds E r (store s p) \<Longrightarrow> \<not> is_terminal (store s p) \<Longrightarrow> feeds E r (store (complete_request E p reason s) p)"
  "feeds E r (store s p) \<Longrightarrow> \<not> is_terminal (store s p) \<Longrightarrow> feeds E r (store (fail_request E p e s) p)"
  by (auto intro: feeds_end complete_request_fed fail_request_fed)

lemma still_end:
  "still r (store s p) \<Longrightarrow> \<not> is_terminal r \<Longrightarrow> feeds E r (store (complete_request E p reason s) p) \<and> feeds E r (store (fail_request E p e s) p)"
proof -
  assume "still r (store s p)" "\<not> is_terminal r"
  then have "feeds E r (store s p)" "\<not> is_terminal (store s p)" by (simp_all add: feeds_still) (simp add: still_def)
  then show ?thesis by (simp add: feeds_then_end)
qed

lemma decode_one_feeds:
  assumes "\<not> is_terminal (store s p)"
  shows "feeds E (store s p) (store (decode_one E p s) p)"
proof -
  obtain res s1 where run: "run_decode_step E p (tick (tick s)) = (res, s1)" by fastforce
  show ?thesis
  proof (cases "is_cancelled (store s p)")
    case True
    then show ?thesis using assms by (simp add: decode_one_def feeds_then_end)
  next
    case False
    note fed = run_decode_step_fed [OF run]
    show ?thesis
    proof (cases res)
      case (Inl e)
      then have "still (store s p) (store s1 p)" using fed assms False by simp
      then show ?thesis using run Inl False assms still_end [of "store s p" s1 p E] by (auto simp: decode_one_def feeds_then_end)
    next
      case (Inr b)
      then have t: "token_fed E (store s p) (store s1 p)" using fed assms False by simp
      then have "feeds E (store s p) (store s1 p)" "\<not> is_terminal (store s1 p)"
        by (auto intro: feeds_token [OF feeds_refl] simp: token_fed_def)
      then show ?thesis using run Inr False assms by (auto simp: decode_one_def feeds_then_end split: bool.splits)
    qed
  qed
qed

lemma start_request_feeds:
  assumes "\<not> is_terminal (store s p)"
  shows "feeds E (store s p) (store (start_request E p s) p)"
proof -
  obtain res s1 where run: "run_prefill E p (tick (tick s)) = (res, s1)" by fastforce
  then have s1: "calm (store s p) (store s1 p)"
    using run_prefill_stream [of E p "tick (tick s)"] by (simp add: calm_def is_terminal_def terminal_state_def)
  then have st: "still (store s p) (store s1 p)" using assms by (rule calm_still)
  have "calm (store s p) (store (activate E p s1) p)"
    using s1 by (simp add: calm_def activate_def Let_def set_timing_def is_terminal_def terminal_state_def)
  then have "feeds E (store s p) (store (activate E p s1) p)" using assms by (blast intro: calm_still feeds_still)
  then show ?thesis
    using run assms still_end [OF st] by (auto simp: start_request_def feeds_then_end split: sum.splits)
qed

section \<open>Steps of the scheduler\<close>

lemma cancel_still: "still r (cancel_request r)"
  by (simp add: still_def is_terminal_def final_event_def)

lemma registry_cancel_still: "still (st p) (registry_cancel i reg st p)"
  by (simp add: registry_cancel_def cancel_still split: option.splits)

lemma registry_cancel_all_still: "still (st p) (registry_cancel_all reg st p)"
proof (induction reg arbitrary: st)
  case (Cons x reg)
  obtain i q where x: "x = (i, q)" by fastforce
  let ?st = "if \<not> is_terminal (st q) then st(q := cancel_request (st q)) else st"
  have "still (st p) (?st p)" by (simp add: cancel_still)
  then show ?case using still_trans [OF _ Cons.IH [of ?st]] x by simp
qed simp

lemma enqueue_still:
  assumes "state (store s p) = Received" shows "still (store s p) (store (enqueue E p s) p)"
  using assms by (auto simp: still_def enqueue_def Let_def set_timing_def is_terminal_def terminal_state_def)

lemma reject_turned: "state (store s p) = Received \<Longrightarrow> turned_away (store s p) (store (reject p e s) p)"
  by (auto simp: turned_away_def reject_def Let_def is_terminal_def terminal_state_def)

lemma process_one_feeds:
  assumes "lifecycle w" and "can_start (sched w)" and "p = hd (pending_queue (sched w))"
  shows "feeds E (store (sched w) p) (store (process_one E (sched w)) p)"
proof -
  have "p \<in> set (pending_queue (sched w))" using assms(2,3) by (auto simp: can_start_def)
  then have "state (store (sched w) p) = Queued" using lifecycleD(3) [OF assms(1)] by simp
  then have "\<not> is_terminal (store (pop_pending (sched w)) p)" by (simp add: pop_pending_def is_terminal_def terminal_state_def)
  then show ?thesis using start_request_feeds [of "pop_pending (sched w)" p E] assms(3)
    by (simp add: process_one_def pop_pending_def)
qed

lemma process_one_other: "q \<noteq> hd (pending_queue s) \<Longrightarrow> store (process_one E s) q = store s q"
  using start_request_cases [of "hd (pending_queue s)" "pop_pending s" E]
  by (auto simp: process_one_def started_def retired_def pop_pending_def)

lemma decode_one_other: "q \<noteq> p \<Longrightarrow> store (decode_one E p s) q = store s q"
  using decode_one_cases [of p s E] by (auto simp: quiet_def retired_def)

text \<open>
  A step that neither replaces the request by a new one nor takes an event from its queue; every other
  step of the system is one.
\<close>

definition leaves_queue :: "'j request \<Rightarrow> 'j request \<Rightarrow> bool" where
  "leaves_queue r r' \<longleftrightarrow> (state r' = Received \<longrightarrow> r' = r) \<and>
     (\<forall>q q'. token_queue r = Some q \<longrightarrow> token_queue r' = Some q' \<longrightarrow> prefix (events q) (events q'))"

lemma pop_event_still:
  assumes "leaves_queue (store s p) (store (pop_event q s) p)"
  shows "store (pop_event q s) p = store s p"
proof (cases "p = q \<and> (\<exists>x a es. token_queue (store s p) = Some x \<and> events x = a # es)")
  case True
  then obtain x a es where x: "p = q" "token_queue (store s p) = Some x" "events x = a # es" by blast
  then have "prefix (a # es) es" using assms by (simp add: leaves_queue_def pop_event_def tq_pop_def)
  then have "length (a # es) \<le> length es" by (rule prefix_length_le)
  then show ?thesis by simp
next
  case False
  have "tq_pop x = (None, x)" if "p = q" "token_queue (store s p) = Some x" for x
    using False that by (cases "events x") (auto simp: tq_pop_def)
  then show ?thesis by (cases "token_queue (store s p)") (auto simp: pop_event_def)
qed

lemma sched_step_feeds:
  assumes "sched_step E ready T w w'" and life: "lifecycle w" and keep: "leaves_queue (store (sched w) p) (store (sched w') p)"
  shows "feeds E (store (sched w) p) (store (sched w') p)"
  using assms(1)
proof cases
  case (create q r)
  then show ?thesis using keep by (cases "p = q") (auto simp: leaves_queue_def fresh_request_def)
next
  case (submit_reject q e)
  then show ?thesis
    by (cases "p = q") (auto simp: new_to_def fresh_request_def reject_store intro: feeds_reject [OF feeds_refl] reject_turned)
next
  case (submit_enqueue q)
  then show ?thesis using lifecycleD(5) [OF life, of q]
    by (cases "p = q") (auto simp: fresh_request_def intro!: feeds_still enqueue_still)
next
  case (cancel_id i)
  then show ?thesis by (auto simp: cancel_def intro!: feeds_still registry_cancel_still)
next
  case (consume q)
  then show ?thesis using keep pop_event_still [of "sched w" p q] by simp
next
  case fill
  then show ?thesis using process_one_feeds [OF life] process_one_other [of p "sched w" E]
    by (cases "p = hd (pending_queue (sched w))") simp_all
next
  case (decode q ps)
  then have "\<not> is_terminal (store (sched w) q)"
    using lifecycleD(4,8) [OF life] by (auto simp: is_terminal_def terminal_state_def)
  then show ?thesis using decode decode_one_feeds [of "sched w" q E] decode_one_other [of p q E "sched w"]
    by (cases "p = q") simp_all
next
  case stop_join
  then show ?thesis by (auto simp: stop_finish_def intro!: feeds_still registry_cancel_all_still)
qed (auto simp: start_def stop_signal_def split: if_splits)

section \<open>What a client reads\<close>

definition stream_ok :: "('r, 'k, 'g) environment \<Rightarrow> size_t \<Rightarrow> token_event list \<Rightarrow> 'j request \<Rightarrow> bool" where
  "stream_ok E n h r \<longleftrightarrow> (\<exists>q. token_queue r = Some q \<and> max_size q = n \<and> length (events q) \<le> unat n \<and>
     (\<not> is_terminal r \<longrightarrow> \<not> closed q \<and> subseq (h @ events q) (map (token_event_of E) (output_tokens r)) \<and>
       (length (output_tokens r) \<le> unat n \<longrightarrow> h @ events q = map (token_event_of E) (output_tokens r))) \<and>
     (ended r \<longrightarrow> closed q \<and> subseq (h @ events q) (map (token_event_of E) (output_tokens r) @ [final_event r]) \<and>
       (length (output_tokens r) < unat n \<longrightarrow> h @ events q = map (token_event_of E) (output_tokens r) @ [final_event r])))"

text \<open>A push of an open queue appends the event or drops it, and drops it only when the queue is full.\<close>

lemma push_open:
  assumes "\<not> closed q" and "length (events q) \<le> unat (max_size q)"
  obtains (kept) "snd (tq_push ev q) = q\<lparr>events := events q @ [ev]\<rparr>" "length (events q) < unat (max_size q)"
  | (dropped) "snd (tq_push ev q) = q\<lparr>dropped_count := dropped_count q + 1\<rparr>" "length (events q) = unat (max_size q)"
proof -
  have "unat (sz (events q)) = length (events q)" using assms(2) by (rule unat_of_nat_size)
  then have "max_size q \<le> sz (events q) \<longleftrightarrow> length (events q) = unat (max_size q)"
    using assms(2) by (auto simp: word_le_nat_alt)
  then show thesis using assms kept dropped by (auto simp: tq_push_def split: if_splits)
qed

lemma subseq_snoc: "subseq xs ys \<Longrightarrow> subseq xs (ys @ [y])" "subseq xs ys \<Longrightarrow> subseq (xs @ [y]) (ys @ [y])"
  by (simp_all add: list_emb_prefix)

lemma stream_ok_token:
  assumes ok: "stream_ok E n h r" and fed: "token_fed E r r'"
  shows "stream_ok E n h r'"
proof -
  obtain tok where tok: "output_tokens r' = output_tokens r @ [tok]" "token_queue r' = push_event_on (token_event_of E tok) (token_queue r)"
      "\<not> is_terminal r" "\<not> is_terminal r'" using fed by (auto simp: token_fed_def)
  obtain q where q: "token_queue r = Some q" "max_size q = n" "length (events q) \<le> unat n" "\<not> closed q"
      "subseq (h @ events q) (map (token_event_of E) (output_tokens r))"
      "length (output_tokens r) \<le> unat n \<Longrightarrow> h @ events q = map (token_event_of E) (output_tokens r)"
    using ok tok(3) by (auto simp: stream_ok_def)
  have tq: "token_queue r' = Some (snd (tq_push (token_event_of E tok) q))" using tok(2) q(1) by (simp add: push_event_on_def)
  have "\<not> ended r'" using tok(4) terminal_ended by blast
  from q(4) q(3) [folded q(2)] show ?thesis
  proof (cases rule: push_open [of q "token_event_of E tok"])
    case kept
    then show ?thesis using q tq tok \<open>\<not> ended r'\<close> subseq_snoc(2) [OF q(5), of "token_event_of E tok"] by (simp add: stream_ok_def)
  next
    case dropped
    have "\<not> length (output_tokens r') \<le> unat n"
    proof
      assume "length (output_tokens r') \<le> unat n"
      then have "h @ events q = map (token_event_of E) (output_tokens r)" using q(6) tok(1) by simp
      from arg_cong [OF this, of length] show False using dropped q(2) tok(1) \<open>length (output_tokens r') \<le> unat n\<close> by simp
    qed
    then show ?thesis using q tq tok dropped \<open>\<not> ended r'\<close> subseq_snoc(1) [OF q(5)] by (simp add: stream_ok_def)
  qed
qed

lemma stream_ok_end:
  assumes ok: "stream_ok E n h r" and fed: "end_fed r r'"
  shows "stream_ok E n h r'"
proof -
  have e: "output_tokens r' = output_tokens r" "token_queue r' = map_option tq_close (push_event_on (final_event r') (token_queue r))"
      "\<not> is_terminal r" "is_terminal r'" using fed terminal_ended by (auto simp: end_fed_def)
  obtain q where q: "token_queue r = Some q" "max_size q = n" "length (events q) \<le> unat n" "\<not> closed q"
      "subseq (h @ events q) (map (token_event_of E) (output_tokens r))"
      "length (output_tokens r) \<le> unat n \<Longrightarrow> h @ events q = map (token_event_of E) (output_tokens r)"
    using ok e(3) by (auto simp: stream_ok_def)
  have tq: "token_queue r' = Some (tq_close (snd (tq_push (final_event r') q)))" using e(2) q(1) by (simp add: push_event_on_def)
  from q(4) q(3) [folded q(2)] show ?thesis
  proof (cases rule: push_open [of q "final_event r'"])
    case kept
    then show ?thesis using q tq e(1,3,4) subseq_snoc(2) [OF q(5), of "final_event r'"] by (simp add: stream_ok_def tq_close_def)
  next
    case dropped
    have "\<not> length (output_tokens r') < unat n"
    proof
      assume "length (output_tokens r') < unat n"
      then have "h @ events q = map (token_event_of E) (output_tokens r)" using q(6) e(1) by simp
      from arg_cong [OF this, of length] show False using dropped q(2) e(1) \<open>length (output_tokens r') < unat n\<close> by simp
    qed
    then show ?thesis using q tq e(1,3,4) dropped subseq_snoc(1) [OF q(5)] by (simp add: stream_ok_def tq_close_def)
  qed
qed

lemma stream_ok_still:
  assumes "stream_ok E n h r" and "still r r'" shows "stream_ok E n h r'"
proof (cases "is_terminal r")
  case True
  then have "state r' = state r" "final_event r' = final_event r" "output_tokens r' = output_tokens r" "token_queue r' = token_queue r"
    using assms(2) by (simp_all add: still_def)
  then show ?thesis using assms(1) by (simp add: stream_ok_def ended_def is_terminal_def)
next
  case False
  then have "\<not> is_terminal r'" "\<not> ended r'" "output_tokens r' = output_tokens r" "token_queue r' = token_queue r"
    using assms(2) terminal_ended [of r'] by (auto simp only: still_def)
  then show ?thesis using assms(1) False terminal_ended [of r] by (simp add: stream_ok_def) blast
qed

lemma stream_ok_reject: "stream_ok E n h r \<Longrightarrow> turned_away r r' \<Longrightarrow> stream_ok E n h r'"
  by (auto simp: stream_ok_def turned_away_def is_terminal_def terminal_state_def ended_def)

lemma stream_ok_feeds: "feeds E r r' \<Longrightarrow> stream_ok E n h r \<Longrightarrow> stream_ok E n h r'"
proof (induction rule: feeds.induct)
  case (feeds_still r r') then show ?case by (rule stream_ok_still [rotated])
next
  case (feeds_token r r' r'') then show ?case using stream_ok_token by blast
next
  case (feeds_end r r' r'') then show ?case using stream_ok_end by blast
next
  case (feeds_reject r r' r'') then show ?case using stream_ok_reject by blast
qed

text \<open>The event a read takes from the queue.\<close>

definition popped :: "'j request \<Rightarrow> token_event list" where
  "popped r = (case token_queue r of None \<Rightarrow> [] | Some q \<Rightarrow> (case fst (tq_pop q) of None \<Rightarrow> [] | Some e \<Rightarrow> [e]))"

inductive observed :: "('r, 'k, 'g) environment \<Rightarrow> (size_t \<Rightarrow> 'k \<Rightarrow> bool) \<Rightarrow> nat \<Rightarrow> request_ptr \<Rightarrow>
    ('j, 'r, 'k, 'g) world \<times> token_event list \<Rightarrow> ('j, 'r, 'k, 'g) world \<times> token_event list \<Rightarrow> bool" for E ready T p where
  reads: "observed E ready T p (w, h) (w\<lparr>sched := pop_event p (sched w)\<rparr>, h @ popped (store (sched w) p))"
| steps: "sched_step E ready T w w' \<Longrightarrow> leaves_queue (store (sched w) p) (store (sched w') p) \<Longrightarrow>
    observed E ready T p (w, h) (w', h)"

lemma stream_ok_pop: "stream_ok E n h (store s p) \<Longrightarrow> stream_ok E n (h @ popped (store s p)) (store (pop_event p s) p)"
proof -
  assume ok: "stream_ok E n h (store s p)"
  then obtain q where q: "token_queue (store s p) = Some q" by (auto simp: stream_ok_def)
  have same: "is_terminal (store (pop_event p s) p) = is_terminal (store s p)" "ended (store (pop_event p s) p) = ended (store s p)"
      "final_event (store (pop_event p s) p) = final_event (store s p)" "output_tokens (store (pop_event p s) p) = output_tokens (store s p)"
    by (simp_all add: pop_event_def is_terminal_def ended_def final_event_def)
  have tq: "token_queue (store (pop_event p s) p) = Some (snd (tq_pop q))" using q by (simp add: pop_event_def)
  have ev: "h @ popped (store s p) @ events (snd (tq_pop q)) = h @ events q" "closed (snd (tq_pop q)) = closed q"
      "max_size (snd (tq_pop q)) = max_size q" "length (events (snd (tq_pop q))) \<le> length (events q)"
    using q by (auto simp: popped_def tq_pop_def split: list.splits)
  have len: "length (events (snd (tq_pop q))) \<le> unat n" using ok q ev(4) by (auto simp: stream_ok_def intro: order_trans)
  then show ?thesis using ok q unfolding stream_ok_def same tq by (simp add: ev)
qed

lemma observed_reachable:
  assumes "(observed E ready T p)\<^sup>*\<^sup>* (w, h) (w', h')" shows "reachable E ready T w w'"
proof -
  have one: "observed E ready T p x y \<Longrightarrow> sched_step E ready T (fst x) (fst y)" for x y
    by (induction rule: observed.induct) (auto intro: consume)
  have "(observed E ready T p)\<^sup>*\<^sup>* x y \<Longrightarrow> reachable E ready T (fst x) (fst y)" for x y
    by (induction rule: rtranclp_induct) (auto dest: one intro: rtranclp.rtrancl_into_rtrancl)
  from this [OF assms] show ?thesis by simp
qed

lemma observed_step_ok:
  assumes "observed E ready T p x y" and "lifecycle (fst x)" and "stream_ok E n (snd x) (store (sched (fst x)) p)"
  shows "stream_ok E n (snd y) (store (sched (fst y)) p)"
  using assms
proof (induction rule: observed.induct)
  case (reads w h) then show ?case by (simp add: stream_ok_pop)
next
  case (steps w w' h)
  then show ?case using stream_ok_feeds [OF sched_step_feeds [OF steps.hyps(1) _ steps.hyps(2)]] by simp
qed

text \<open>
  C4. What a client of a streamed request has read, followed by what is still queued for it, is a part of
  the tokens the scheduler has produced for it, in order and with their texts; nothing is missing while
  the tokens fit the queue. When the request has completed or failed the queue is closed and ends with the
  one final event, which carries the finish reason or the error; it is there for certain when the tokens
  left room for it. This holds for every interleaving of clients, cancellations, shutdown and the decode
  thread.
\<close>

theorem client_reads_output:
  assumes "reachable E ready T (initial_world cfg st k r0 g) w0" and "fresh_request (store (sched w0) p)"
    and "token_queue (store (sched w0) p) = Some (mk_token_queue n)"
    and "(observed E ready T p)\<^sup>*\<^sup>* (w0, []) (w, read)" and "r = store (sched w) p"
  shows "\<exists>q toks. token_queue r = Some q \<and> toks = map (token_event_of E) (output_tokens r) \<and>
    (\<not> is_terminal r \<longrightarrow> \<not> closed q \<and> subseq (read @ events q) toks \<and>
      (length (output_tokens r) \<le> unat n \<longrightarrow> read @ events q = toks)) \<and>
    (state r = Completed \<or> state r = Errored \<longrightarrow> closed q \<and> subseq (read @ events q) (toks @ [final_event r]) \<and>
      (length (output_tokens r) < unat n \<longrightarrow> read @ events q = toks @ [final_event r]))"
proof -
  have "(observed E ready T p)\<^sup>*\<^sup>* x y \<Longrightarrow> x = (w0, []) \<Longrightarrow>
      reachable E ready T w0 (fst y) \<and> stream_ok E n (snd y) (store (sched (fst y)) p)" for x y
  proof (induction rule: rtranclp_induct)
    case base
    then show ?case using assms(2,3)
      by (auto simp: stream_ok_def mk_token_queue_def fresh_request_def is_terminal_def terminal_state_def ended_def)
  next
    case (step y z)
    then have y: "reachable E ready T w0 (fst y)" "stream_ok E n (snd y) (store (sched (fst y)) p)" by blast+
    have "reachable E ready T (fst y) (fst z)"
      using observed_reachable [of E ready T p "fst y" "snd y" "fst z" "snd z"] step.hyps(2) by auto
    moreover have "lifecycle (fst y)" using rtranclp_trans [OF assms(1) y(1)] by (rule lifecycle_reachable)
    ultimately show ?case using y observed_step_ok [OF step.hyps(2)] by auto
  qed
  from this [OF assms(4) refl] show ?thesis
    unfolding stream_ok_def ended_def assms(5) fst_conv snd_conv by blast
qed

section \<open>A request that is cancelled\<close>

lemma feeds_queue: "feeds E r r' \<Longrightarrow> token_queue r = Some q \<Longrightarrow> \<exists>q'. token_queue r' = Some q' \<and> prefix (events q) (events q')"
proof (induction rule: feeds.induct)
  case (feeds_still r r') then show ?case by (simp add: still_def)
next
  case (feeds_token r r' r'')
  then show ?case by (fastforce simp: token_fed_def push_event_on_def tq_push_def intro: prefix_order.trans)
next
  case (feeds_end r r' r'')
  then show ?case by (fastforce simp: end_fed_def push_event_on_def tq_push_def tq_close_def intro: prefix_order.trans)
next
  case (feeds_reject r r' r'') then show ?case by (simp add: turned_away_def)
qed

text \<open>So what the scheduler does to a request that it has taken in never takes an event from its queue.\<close>

lemma feeds_leaves_queue: "feeds E r r' \<Longrightarrow> state r' \<noteq> Received \<Longrightarrow> leaves_queue r r'"
  unfolding leaves_queue_def using feeds_queue [of E r r'] by fastforce

lemma start_request_outputs: "output_tokens (store (start_request E p s) p) = output_tokens (store s p)"
proof -
  have fail: "output_tokens (store (fail_request E p e t) p) = output_tokens (store t p)" for e t
    by (auto simp: fail_request_def drop_request_def finish_queue_def set_timing_def Let_def split: option.splits)
  show ?thesis using run_prefill_stream [of E p "tick (tick s)"]
    by (auto simp: start_request_def fail activate_def Let_def set_timing_def split: sum.splits prod.splits)
qed

lemma complete_request_final:
  "state (store (complete_request E p reason s) p) = Completed \<and> r_finish_reason (store (complete_request E p reason s) p) = reason \<and>
   output_tokens (store (complete_request E p reason s) p) = output_tokens (store s p)"
  by (auto simp: complete_request_def drop_request_def finish_queue_def set_timing_def Let_def split: option.splits)

definition demo_cancelled :: "(json, unit, contiguous \<times> bump, nat) world" where
  "demo_cancelled = (demo_started demo_ca demo_kv)\<lparr>sched := cancel (r_id (demo_store 0)) (sched (demo_started demo_ca demo_kv)),
     pc := Round [0]\<rparr>"

definition demo_completed :: "(json, unit, contiguous \<times> bump, nat) world" where
  "demo_completed = demo_cancelled\<lparr>sched := complete_request (demo_env demo_ca) 0 Stop (sched demo_cancelled), pc := Round []\<rparr>"

abbreviation demo_streaming_env :: "(unit, contiguous \<times> bump, nat) environment" where
  "demo_streaming_env \<equiv> demo_env demo_ca"

lemma demo_started_lifecycle: "lifecycle (demo_started demo_ca demo_kv)"
  using demo_ca_reachable(2) by (rule lifecycle_reachable)

lemma demo_started_request:
  "active_requests (sched (demo_started demo_ca demo_kv)) = [0]" "state (store (sched (demo_started demo_ca demo_kv)) 0) = Decoding"
  "r_id (store (sched (demo_started demo_ca demo_kv)) 0) = r_id (demo_store 0)"
  "cancel_token (store (sched (demo_started demo_ca demo_kv)) 0) = Some make_cancellation_token"
  "output_tokens (store (sched (demo_started demo_ca demo_kv)) 0) = []"
proof -
  obtain h k where "ka_allocate demo_ca 16 demo_kv = (Inr h, k)" using demo_ca_allocates by blast
  from demo_started_active(1) [OF this] show act: "active_requests (sched (demo_started demo_ca demo_kv)) = [0]" .
  then show "state (store (sched (demo_started demo_ca demo_kv)) 0) = Decoding"
    using lifecycleD(4) [OF demo_started_lifecycle] by simp
  let ?s = "pop_pending (sched (demo_queued demo_ca demo_kv))"
  have queued: "r_id (store ?s 0) = r_id (demo_store 0)" "cancel_token (store ?s 0) = Some make_cancellation_token"
    "output_tokens (store ?s 0) = []"
    by (simp_all add: pop_pending_def demo_queued_def demo_running_fields enqueue_def Let_def set_timing_def demo_store_def
        demo_request_def make_request_def)
  have run: "sched (demo_started demo_ca demo_kv) = start_request demo_streaming_env 0 ?s"
    by (simp add: demo_started_def process_one_def) (simp add: demo_queued_def demo_running_fields)
  have "same_identity (store ?s 0) (store (start_request demo_streaming_env 0 ?s) 0)"
    using start_request_cases [of 0 ?s demo_streaming_env] by (auto simp: started_def retired_def)
  then show "r_id (store (sched (demo_started demo_ca demo_kv)) 0) = r_id (demo_store 0)"
    "cancel_token (store (sched (demo_started demo_ca demo_kv)) 0) = Some make_cancellation_token"
    using queued by (simp_all add: run same_identity_def)
  show "output_tokens (store (sched (demo_started demo_ca demo_kv)) 0) = []" by (simp add: run start_request_outputs queued)
qed

lemma demo_cancelled_request:
  "is_cancelled (store (sched demo_cancelled) 0)" "state (store (sched demo_cancelled) 0) = Decoding"
  "output_tokens (store (sched demo_cancelled) 0) = []"
proof -
  have "get_request (r_id (demo_store 0)) (sched (demo_started demo_ca demo_kv)) = Some 0"
    using get_request_iff [OF demo_started_lifecycle] demo_started_request(1,3) by simp
  then have "store (sched demo_cancelled) 0 = cancel_request (store (sched (demo_started demo_ca demo_kv)) 0)"
    by (simp add: demo_cancelled_def cancel_def registry_cancel_def get_request_def registry_get_def)
  then show "is_cancelled (store (sched demo_cancelled) 0)" "state (store (sched demo_cancelled) 0) = Decoding"
    "output_tokens (store (sched demo_cancelled) 0) = []"
    using demo_started_request by (simp_all add: cancel_request_def is_cancelled_def token_cancel_eq make_cancellation_token_def
        token_is_cancelled_def)
qed

lemma observed_feeds:
  assumes "sched_step E ready T w w'" and "feeds E (store (sched w) p) (store (sched w') p)" and "state (store (sched w') p) \<noteq> Received"
  shows "observed E ready T p (w, h) (w', h)"
  using assms(1) feeds_leaves_queue [OF assms(2,3)] by (rule observed.steps)

lemma observed_same:
  assumes "sched_step E ready T w w'" and "store (sched w') p = store (sched w) p"
  shows "observed E ready T p (w, h) (w', h)"
  using assms by (intro observed.steps) (auto simp: leaves_queue_def)

lemma demo_observed:
  "(observed demo_streaming_env ca_ready 1 0)\<^sup>*\<^sup>* (demo_initial demo_kv, []) (demo_completed, [])"
proof -
  let ?step = "sched_step demo_streaming_env ca_ready 1" and ?obs = "observed demo_streaming_env ca_ready 1 0"
  let ?w = "demo_started demo_ca demo_kv" and ?q = "demo_queued demo_ca demo_kv"
  let ?c = "?w\<lparr>sched := cancel (r_id (demo_store 0)) (sched ?w)\<rparr>"
  note steps = demo_steps [of 1 demo_ca demo_kv ca_ready, OF zero_less_one demo_kv_ready]
  have 1: "?obs (demo_initial demo_kv, []) (demo_running demo_kv, [])"
    using steps(1) by (rule observed_same) (simp add: demo_running_def)
  have 2: "?obs (demo_running demo_kv, []) ((demo_running demo_kv)\<lparr>admitted := [0]\<rparr>, [])"
    using steps(2) by (rule observed_same) simp
  have 3: "?obs ((demo_running demo_kv)\<lparr>admitted := [0]\<rparr>, []) (?q, [])"
    by (rule observed_feeds [OF steps(3)], rule feeds_still)
      (use enqueue_still [of "sched (demo_running demo_kv)" 0 demo_streaming_env] demo_store_fields(1) [of 0] in
        \<open>simp_all add: demo_queued_def demo_running_fields fresh_request_def\<close>)
  have 4: "?obs (?q, []) (?w, [])"
  proof (rule observed_feeds [OF steps(4)])
    have "lifecycle ?q" using demo_ca_reachable(1) by (rule lifecycle_reachable)
    moreover have "can_start (sched ?q)" "hd (pending_queue (sched ?q)) = 0"
      by (simp_all add: can_start_def demo_queued_def demo_running_fields default_scheduler_config_def)
    ultimately show "feeds demo_streaming_env (store (sched ?q) 0) (store (sched ?w) 0)"
      using process_one_feeds [of ?q 0 demo_streaming_env] by (simp add: demo_started_def)
  qed (simp add: demo_started_request)
  have 5: "?obs (?w, []) (?c, [])"
    by (rule observed_feeds [OF sched_step.cancel_id], rule feeds_still)
      (use registry_cancel_still [of "store (sched ?w)" 0 "r_id (demo_store 0)" "registry (sched ?w)"] demo_cancelled_request(2) in
        \<open>simp_all add: cancel_def demo_cancelled_def\<close>)
  have 6: "?obs (?c, []) (demo_cancelled, [])"
  proof (rule observed_same)
    have "?step ?c (?c\<lparr>pc := Round (active_requests (sched ?c))\<rparr>)"
      by (rule sched_step.filled) (simp_all add: can_start_def cancel_def demo_started_fields, simp add: demo_started_def demo_queued_def demo_running_fields)
    then show "?step ?c demo_cancelled" by (simp add: demo_cancelled_def cancel_def demo_started_request)
  qed (simp add: demo_cancelled_def)
  have 7: "?obs (demo_cancelled, []) (demo_completed, [])"
  proof (rule observed_feeds)
    show "?step demo_cancelled demo_completed"
      using sched_step.decode [of demo_cancelled 0 "[]" demo_streaming_env ca_ready 1] demo_cancelled_request(1)
      by (simp add: demo_completed_def decode_one_def) (simp add: demo_cancelled_def)
    show "feeds demo_streaming_env (store (sched demo_cancelled) 0) (store (sched demo_completed) 0)"
      using feeds_then_end(1) [OF feeds_refl, of "sched demo_cancelled" 0 demo_streaming_env Stop] demo_cancelled_request(2)
      by (simp add: demo_completed_def is_terminal_def terminal_state_def)
    show "state (store (sched demo_completed) 0) \<noteq> Received" by (simp add: demo_completed_def complete_request_final)
  qed
  from 1 2 3 4 5 6 7 show ?thesis by (meson rtranclp.rtrancl_refl rtranclp.rtrancl_into_rtrancl)
qed

theorem client_reads_output_witness:
  "\<exists>q. token_queue (store (sched demo_completed) 0) = Some q \<and> closed q \<and>
     events q = [(token_event_init Complete)\<lparr>ev_finish_reason := Stop\<rparr>]"
proof -
  have "token_queue (store (sched (demo_initial demo_kv)) 0) = Some (mk_token_queue 1024)"
    "fresh_request (store (sched (demo_initial demo_kv)) 0)"
    using demo_store_fields(1) [of 0]
    by (simp_all add: demo_initial_def initial_world_def new_scheduler_def, simp add: demo_store_def)
  from client_reads_output [OF rtranclp.rtrancl_refl [of _ "demo_initial demo_kv", unfolded demo_initial_def] _ _ demo_observed [unfolded demo_initial_def] refl,
      folded demo_initial_def, OF this(2,1)]
  show ?thesis
    by (auto simp: demo_completed_def complete_request_final demo_cancelled_request final_event_def)
qed

end
