(* ===== verification/Scheduler_States.thy ===== *)
theory Scheduler_States
  imports Scheduler_Progress
begin

text \<open>
  The state machine of a request under the interleavings of the scheduler. \<open>next_state\<close> lists the transitions
  that are visible between two steps (a request passes \<^const>\<open>Prefilling\<close> inside the step that starts it).
\<close>

section \<open>Transitions\<close>

inductive next_state :: "request_state \<Rightarrow> request_state \<Rightarrow> bool" where
  "next_state Received Queued"
| "next_state Received Rejected"
| "next_state Queued Decoding"
| "next_state Queued Errored"
| "next_state Decoding Completed"
| "next_state Decoding Errored"

inductive_simps next_state_from [simp]:
  "next_state Received q" "next_state Queued q" "next_state Prefilling q" "next_state Decoding q"
  "next_state Completed q" "next_state Cancelled q" "next_state Errored q" "next_state Rejected q"

inductive_simps next_state_to_Cancelled [simp]: "next_state q Cancelled"

lemma terminal_final: "next_state\<^sup>*\<^sup>* a b \<Longrightarrow> terminal_state a \<Longrightarrow> b = a"
  by (induction rule: rtranclp_induct) (auto simp: terminal_state_def)

lemma never_cancelled: "next_state\<^sup>*\<^sup>* a b \<Longrightarrow> b = Cancelled \<Longrightarrow> a = Cancelled"
  by (induction rule: rtranclp_induct) auto

text \<open>A step of the system that does not give the address \<open>p\<close> to a new request.\<close>

definition keeps :: "('r, 'k, 'g) environment \<Rightarrow> (size_t \<Rightarrow> 'k \<Rightarrow> bool) \<Rightarrow> nat \<Rightarrow> request_ptr \<Rightarrow>
    ('j, 'r, 'k, 'g) world \<Rightarrow> ('j, 'r, 'k, 'g) world \<Rightarrow> bool" where
  "keeps E ready T p w w' \<longleftrightarrow> sched_step E ready T w w' \<and>
     \<not> (\<exists>r. fresh_request r \<and> p \<notin> set (in_system w) \<and> w' = w\<lparr>sched := upd p (\<lambda>_. r) (sched w)\<rparr>)"

section \<open>Steps\<close>

abbreviation state_at :: "('j, 'r, 'k, 'g) world \<Rightarrow> request_ptr \<Rightarrow> request_state" where
  "state_at w p \<equiv> state (store (sched w) p)"

lemma retired_state:
  "retired q x s s' \<Longrightarrow> next_state (state (store s q)) x \<Longrightarrow>
    state (store s' p) = state (store s p) \<or> next_state (state (store s p)) (state (store s' p))"
  by (cases "p = q") (auto simp: retired_def)

lemma process_state:
  assumes "lifecycle w" and "can_start (sched w)"
  shows "state (store (process_one E (sched w)) p) = state_at w p \<or>
    next_state (state_at w p) (state (store (process_one E (sched w)) p))"
proof -
  let ?q = "hd (pending_queue (sched w))" and ?s = "pop_pending (sched w)"
  have "?q \<in> set (pending_queue (sched w))" using assms(2) by (auto simp: can_start_def)
  then have q: "state (store ?s ?q) = Queued" using lifecycleD(3) [OF assms(1)] by (simp add: pop_pending_def)
  have s: "store ?s = store (sched w)" by (simp add: pop_pending_def)
  from start_request_cases [of ?q ?s E] show ?thesis
  proof
    assume "started ?q ?s (start_request E ?q ?s)"
    then show ?thesis using q s by (cases "p = ?q") (auto simp: started_def process_one_def)
  next
    assume "retired ?q Errored ?s (start_request E ?q ?s)"
    from retired_state [OF this, of p] show ?thesis using q s by (simp add: process_one_def)
  qed
qed

lemma decode_state:
  assumes "state (store s q) = Decoding"
  shows "state (store (decode_one E q s) p) = state (store s p) \<or> next_state (state (store s p)) (state (store (decode_one E q s) p))"
proof (cases rule: decode_one_effect [of q s E])
  case (continue tok)
  then show ?thesis by (cases "p = q") (auto simp: quiet_def grown_def settled_def)
next
  case (complete s1 r)
  then have "retired q Completed s (decode_one E q s)" using retired_quiet complete_request_retired by metis
  from retired_state [OF this, of p] assms show ?thesis by simp
next
  case (fail s1 e)
  then have "retired q Errored s (decode_one E q s)" using retired_quiet fail_request_retired by metis
  from retired_state [OF this, of p] assms show ?thesis by simp
qed

lemma state_core_same: "core_same r r' \<Longrightarrow> state r' = state r"
  by (simp add: core_same_def)

lemma state_step:
  assumes "keeps E ready T p w w'" and life: "lifecycle w"
  shows "state_at w' p = state_at w p \<or> next_state (state_at w p) (state_at w' p)"
proof -
  have step: "sched_step E ready T w w'" using assms(1) by (simp add: keeps_def)
  then show ?thesis
  proof cases
    case (create q r)
    then have "q \<noteq> p" using assms(1) by (auto simp: keeps_def)
    then show ?thesis using create by simp
  next
    case (submit_reject q e)
    then show ?thesis by (cases "p = q") (auto simp: new_to_def fresh_request_def reject_store reject_def Let_def)
  next
    case (submit_enqueue q)
    then have "state_at w q = Received" using lifecycleD(5) [OF life] by (simp add: fresh_request_def)
    then show ?thesis using submit_enqueue by (cases "p = q") auto
  next
    case (cancel_id i)
    then show ?thesis by (simp add: cancel_def state_core_same [OF core_same_registry_cancel])
  next
    case stop_join
    then show ?thesis by (simp add: stop_finish_def state_core_same [OF core_same_cancel_all])
  next
    case fill
    then show ?thesis using process_state [OF life, of E p] by simp
  next
    case (decode q qs)
    then have "state_at w q = Decoding" using lifecycleD(4,8) [OF life] by auto
    then show ?thesis using decode decode_state [of "sched w" q E p] by simp
  qed (auto simp: pop_event_def stop_signal_def start_def split: if_splits)
qed

section \<open>Runs\<close>



end
