(* ===== verification/Scheduler_Stop.thy ===== *)
theory Scheduler_Stop
  imports Scheduler_Streaming Scheduler_States
begin

text \<open>
  What \<open>stop\<close> leaves behind. It joins the decode thread and then cancels the requests that are still
  registered; only the decode thread would act on a cancellation, so these requests never end and
  their clients get no final event, until the scheduler is started again.
\<close>

section \<open>Steps without the decode thread\<close>

definition parked :: "('j, 'r, 'k, 'g) world \<Rightarrow> bool" where
  "parked w \<longleftrightarrow> pc w = Exited \<or> pc w = Absent"

definition parked_step :: "('r, 'k, 'g) environment \<Rightarrow> (size_t \<Rightarrow> 'k \<Rightarrow> bool) \<Rightarrow> nat \<Rightarrow>
    ('j, 'r, 'k, 'g) world \<Rightarrow> ('j, 'r, 'k, 'g) world \<Rightarrow> bool" where
  "parked_step E ready T w w' \<longleftrightarrow> sched_step E ready T w w' \<and> parked w'"

definition left_behind :: "request_ptr \<Rightarrow> ('j, 'r, 'k, 'g) world \<Rightarrow> bool" where
  "left_behind p w \<longleftrightarrow> p \<in> set (pending_queue (sched w) @ active_requests (sched w))"

text \<open>The state and the tokens are those of before; the token queue has lost the events that were read and has no new one.\<close>

definition drained_by :: "nat \<Rightarrow> token_queue option \<Rightarrow> token_queue option" where
  "drained_by n = map_option (\<lambda>q. q\<lparr>events := drop n (events q)\<rparr>)"

definition only_read :: "'j request \<Rightarrow> 'j request \<Rightarrow> bool" where
  "only_read r r' \<longleftrightarrow> state r' = state r \<and> output_tokens r' = output_tokens r \<and>
     (\<exists>n. token_queue r' = drained_by n (token_queue r))"

lemma drained_by_0: "drained_by 0 q = q"
  by (cases q) (simp_all add: drained_by_def)

lemma drained_by_add: "drained_by m (drained_by n q) = drained_by (n + m) q"
  by (cases q) (simp_all add: drained_by_def add.commute)

lemma only_read_refl [simp]: "only_read r r"
  using drained_by_0 unfolding only_read_def by metis

lemma only_read_trans: "only_read a b \<Longrightarrow> only_read b c \<Longrightarrow> only_read a c"
  unfolding only_read_def by (metis drained_by_add)

lemma only_read_same: "core_same r r' \<Longrightarrow> still r r' \<Longrightarrow> only_read r r'"
  unfolding only_read_def core_same_def still_def by (metis drained_by_0)

lemma only_read_cancel: "only_read (st p) (registry_cancel i reg st p)" "only_read (st p) (registry_cancel_all reg st p)"
  by (intro only_read_same core_same_registry_cancel registry_cancel_still core_same_cancel_all registry_cancel_all_still)+

lemma only_read_pop: "only_read (store s p) (store (pop_event q s) p)"
proof (cases "p = q")
  case True
  have "snd (tq_pop x) = x\<lparr>events := drop 1 (events x)\<rparr>" for x
    by (cases "events x") (simp_all add: tq_pop_def)
  then have "token_queue (store (pop_event q s) p) = drained_by 1 (token_queue (store s p))"
    using True by (cases "token_queue (store s p)") (simp_all add: pop_event_def drained_by_def)
  then show ?thesis using True by (auto simp: only_read_def pop_event_def)
qed (simp add: pop_event_def)

lemma pop_event_lists: "pending_queue (pop_event q s) = pending_queue s" "active_requests (pop_event q s) = active_requests s"
  by (simp_all add: pop_event_def)

lemma parked_step_leaves:
  assumes "parked_step E ready T w w'" and "parked w" and life: "lifecycle w" and p: "left_behind p w"
  shows "left_behind p w' \<and> only_read (store (sched w) p) (store (sched w') p)"
proof -
  have sys: "p \<in> set (in_system w)" "p \<notin> set (admitted w)"
    using p lifecycleD(1) [OF life] by (auto simp: left_behind_def in_system_def)
  have step: "sched_step E ready T w w'" and w': "parked w'" using assms(1) by (simp_all add: parked_step_def)
  from step show ?thesis
  proof cases
    case (create q r)
    then show ?thesis using sys p by (auto simp: left_behind_def)
  next
    case (submit_reject q e)
    then have "q \<noteq> p" using sys by (auto simp: new_to_def)
    then show ?thesis using submit_reject p by (simp add: left_behind_def reject_store reject_fields)
  next
    case (submit_enqueue q)
    then have "q \<noteq> p" using sys by auto
    then show ?thesis using submit_enqueue p by (simp add: left_behind_def)
  next
    case (cancel_id i)
    then show ?thesis using p by (simp add: left_behind_def cancel_def only_read_cancel)
  next
    case (consume q)
    then show ?thesis using p by (simp add: left_behind_def only_read_pop pop_event_lists)
  next
    case stop_join
    then show ?thesis using p by (simp add: left_behind_def stop_finish_def only_read_cancel)
  qed (use assms(2) w' p in \<open>auto simp: parked_def left_behind_def stop_signal_def\<close>)
qed

lemma parked_run:
  assumes "(parked_step E ready T)\<^sup>*\<^sup>* w w'" and "parked w" "lifecycle w" "left_behind p w"
  shows "parked w' \<and> lifecycle w' \<and> left_behind p w' \<and> only_read (store (sched w) p) (store (sched w') p)"
  using assms(1)
proof (induction rule: rtranclp_induct)
  case base
  then show ?case using assms(2-4) by simp
next
  case (step v v')
  have "parked v'" "lifecycle v'" using step lifecycle_step by (auto simp: parked_step_def)
  then show ?case using parked_step_leaves [OF step.hyps(2), of p] step.IH only_read_trans by blast
qed

section \<open>Runs\<close>

text \<open>A request is admitted while the scheduler runs and enqueued after the decode thread has left its loop.\<close>

definition demo_late :: "'k kv_ops \<Rightarrow> 'k \<Rightarrow> (json, unit, 'k, nat) world" where
  "demo_late K k = (demo_running k)\<lparr>sched := enqueue (demo_env K) 0 (stop_signal (sched (demo_running k))), pc := Exited\<rparr>"

lemma demo_late_reachable:
  assumes "T > 0" and "ka_can_allocate K 16 k" and "ready 16 k"
  shows "reachable (demo_env K) ready T (demo_initial k) (demo_late K k)"
proof -
  let ?R = "sched_step (demo_env K) ready T" and ?w = "(demo_running k)\<lparr>admitted := [0]\<rparr>"
  let ?v = "?w\<lparr>pc := Round [], sched := stop_signal (sched ?w)\<rparr>"
  note steps = demo_steps [of T K k ready, OF assms]
  have "?R ?w (?w\<lparr>pc := Round []\<rparr>)"
    using filled [of ?w "demo_env K" ready T] by (simp add: demo_running_fields can_start_def)
  moreover have "?R (?w\<lparr>pc := Round []\<rparr>) ?v"
    using stop_flag [of "?w\<lparr>pc := Round []\<rparr>" "demo_env K" ready T] by (simp add: demo_running_fields)
  moreover have "?R ?v (?v\<lparr>pc := Exited\<rparr>)"
    using exit [of ?v "demo_env K" ready T] by (simp add: stop_signal_def)
  moreover have "?R (?v\<lparr>pc := Exited\<rparr>) (demo_late K k)"
    using submit_enqueue [of 0 "?v\<lparr>pc := Exited\<rparr>" "demo_env K" ready T] by (simp add: demo_late_def demo_running_def demo_initial_def initial_world_def)
  ultimately show ?thesis using steps(1,2) by (meson r_into_rtranclp rtranclp.rtrancl_into_rtrancl)
qed

lemmas demo_ca_late = demo_late_reachable [of 1 demo_ca demo_kv ca_ready, OF zero_less_one demo_kv_ready, unfolded demo_initial_def]

section \<open>Property\<close>

text \<open>
  C9. Requests that still wait or run when the decode thread has ended never end, whatever clients do and although
  \<open>stop\<close> cancels them: until the scheduler is started again they stay in their list and state, and
  their clients find nothing in the token queue beyond the events it held.
\<close>

theorem stop_strands_requests:
  assumes "reachable E ready T (initial_world cfg st k r g) w" and "parked w" and "left_behind p w"
    and "(parked_step E ready T)\<^sup>*\<^sup>* w w'"
  shows "left_behind p w' \<and> \<not> is_terminal (store (sched w') p) \<and> only_read (store (sched w) p) (store (sched w') p)"
proof -
  have run: "lifecycle w'" "left_behind p w'" "only_read (store (sched w) p) (store (sched w') p)"
    using parked_run [OF assms(4,2) lifecycle_reachable [OF assms(1)] assms(3)] by auto
  then have "state (store (sched w') p) = Queued \<or> state (store (sched w') p) = Decoding"
    using lifecycleD(3,4) [OF run(1)] by (auto simp: left_behind_def)
  then show ?thesis using run by (auto simp: is_terminal_def terminal_state_def)
qed

theorem stop_strands_requests_witness:
  "\<not> is_terminal (store (stop_finish (sched (demo_late demo_ca demo_kv))) 0) \<and>
   is_cancelled (store (stop_finish (sched (demo_late demo_ca demo_kv))) 0)"
proof -
  let ?w = "demo_late demo_ca demo_kv" and ?w' = "(demo_late demo_ca demo_kv)\<lparr>sched := stop_finish (sched (demo_late demo_ca demo_kv)), pc := Absent\<rparr>"
  have pc: "parked ?w" and behind: "left_behind 0 ?w"
    by (simp_all add: demo_late_def parked_def left_behind_def)
  have "parked_step (demo_env demo_ca) ca_ready 1 ?w ?w'"
    using stop_join [of ?w "demo_env demo_ca" ca_ready 1] by (simp add: parked_step_def parked_def demo_late_def)
  then have "(parked_step (demo_env demo_ca) ca_ready 1)\<^sup>*\<^sup>* ?w ?w'" by (rule r_into_rtranclp)
  from stop_strands_requests [OF demo_ca_late pc behind this]
  have "\<not> is_terminal (store (stop_finish (sched ?w)) 0)" by simp
  moreover have "registry (sched ?w) = [(r_id (demo_store 0), 0)]" "state (store (sched ?w) 0) = Queued"
    "cancel_token (store (sched ?w) 0) = Some make_cancellation_token"
    by (simp_all add: demo_late_def stop_signal_def demo_running_def demo_initial_def initial_world_def new_scheduler_def registry_add_def
        enqueue_def Let_def set_timing_def demo_store_def)
  then have "is_cancelled (store (stop_finish (sched ?w)) 0)"
    by (simp add: stop_finish_def is_terminal_def terminal_state_def is_cancelled_def cancel_request_def token_cancel_def
        cancel_exchange_def cancel_drain_def token_is_cancelled_def make_cancellation_token_def)
  ultimately show ?thesis by blast
qed

end
