(* ===== verification/Scheduler_Gauges.thy ===== *)
theory Scheduler_Gauges
  imports Scheduler_Progress
begin

text \<open>
  The gauge of active requests. Starting a request adds one and ending it takes one away, but a request
  that fails before it becomes active is counted down without having been counted up. The
  difference between the gauge and the number of active requests is the number of failed starts.
\<close>

section \<open>The gauge under the operations\<close>

definition active_gauge :: "('j, 'r, 'k, 'g) scheduler \<Rightarrow> real" where
  "active_gauge s = gauge REQUESTS_ACTIVE (sch_metrics s)"

lemma gauge_names [simp]: "REQUESTS_ACTIVE \<noteq> QUEUE_DEPTH" "QUEUE_DEPTH \<noteq> REQUESTS_ACTIVE"
  by (simp_all add: REQUESTS_ACTIVE_def QUEUE_DEPTH_def)

lemma metrics_frame [frame, simp]:
  "sch_metrics (free_resources E p s) = sch_metrics s" "sch_metrics (set_timing p f s) = sch_metrics s"
  "sch_metrics (finish_queue p ev s) = sch_metrics s" "sch_metrics (settle_budget h dec p s) = sch_metrics s"
  "sch_metrics (snd (sample_next E p l prev s)) = sch_metrics s" "sch_metrics (push_token p tok s) = sch_metrics s"
  by (auto simp: free_resources_def release_budget_def set_timing_def finish_queue_def settle_budget_def sample_next_def push_token_def
      Let_def split: prod.splits option.splits)

lemma ends_lower_gauge:
  "active_gauge (complete_request E p reason s) = active_gauge s - 1" "active_gauge (fail_request E p e s) = active_gauge s - 1"
  by (auto simp: complete_request_def fail_request_def drop_request_def active_gauge_def Let_def split: option.splits)

lemma run_prefill_gauge:
  "run_prefill E p s = (res, s') \<Longrightarrow> active_gauge s' = active_gauge s + (case res of Inl e \<Rightarrow> 0 | Inr u \<Rightarrow> 1)"
  by (auto simp: run_prefill_def prefill_allocated_def route_request_def allocate_cache_def active_gauge_def Let_def
      split: prod.splits sum.splits option.splits if_splits)

lemma activate_gauge: "active_gauge (activate E p s) = active_gauge s"
  by (simp add: activate_def active_gauge_def Let_def)

lemma start_request_gauge:
  "started p s (start_request E p s) \<and> active_gauge (start_request E p s) = active_gauge s + 1 \<or>
   retired p Errored s (start_request E p s) \<and> active_gauge (start_request E p s) = active_gauge s - 1"
proof -
  have tick: "active_gauge (tick s) = active_gauge s" "active_gauge (tick (tick s)) = active_gauge s" by (simp_all add: active_gauge_def)
  have tt: "quiet p s (tick (tick s))" "quiet p s (tick s)" by (simp_all add: frame)
  have fail: "retired p Errored s (fail_request E p e s1)" if "quiet p s s1" for e s1
    using that fail_request_retired [of p s1 E e] by (rule retired_quiet)
  obtain res s1 where pre: "run_prefill E p (tick (tick s)) = (res, s1)" by fastforce
  then have q: "quiet p s s1" using quiet_run_prefill [OF tt(1), of E] by simp
  show ?thesis
    using tt fail activate_started q pre run_prefill_gauge [OF pre]
    by (auto simp: start_request_def ends_lower_gauge activate_gauge tick split: sum.splits)
qed

lemma deliver_gauge: "deliver_token E p tok s = (b, s') \<Longrightarrow> active_gauge s' = active_gauge s"
  by (auto simp: deliver_token_def emit_token_def check_stop_and_continue_def active_gauge_def Let_def
      split: option.splits prod.splits if_splits)

lemma sample_metrics: "sample_next E p l prev s = (res, s') \<Longrightarrow> sch_metrics s' = sch_metrics s"
  by (auto simp: sample_next_def split: prod.splits)

lemma first_token_gauge:
  assumes "first_token E p s = (res, s')" shows "active_gauge s' = active_gauge s"
proof (cases "prefill_logits (store s p) = []")
  case False
  let ?s1 = "upd p (\<lambda>r. r\<lparr>prefill_logits := []\<rparr>) s"
  let ?l = "\<lparr>logit_data = prefill_logits (store s p), logits_vocab_size = prefill_logits_vocab_size (store s p)\<rparr>"
  obtain r s2 where samp: "sample_next E p ?l [] ?s1 = (r, s2)" by fastforce
  note st = sample_metrics [OF samp]
  show ?thesis
  proof (cases r)
    case (Inl e)
    then show ?thesis using assms False samp st by (auto simp: first_token_def Let_def active_gauge_def)
  next
    case (Inr x)
    let ?s3 = "push_token p (sr_token_id x) s2"
    let ?s4 = "tick (set_timing p (\<lambda>t. t\<lparr>first_token_at := now E ?s3\<rparr>) ?s3)"
    let ?s5 = "measure_in (observe_in TIME_TO_FIRST_TOKEN (time_to_first_token_ms (timing (store ?s4 p)) / 1000)) ?s4"
    obtain b s6 where del: "deliver_token E p (sr_token_id x) ?s5 = (b, s6)" by fastforce
    have "s' = s6" using assms False samp Inr del by (simp add: first_token_def Let_def)
    then show ?thesis using deliver_gauge [OF del] st by (simp add: active_gauge_def)
  qed
qed (use assms in \<open>simp add: first_token_def\<close>)

lemma later_token_gauge: "later_token E p s = (res, s') \<Longrightarrow> active_gauge s' = active_gauge s"
  by (auto simp: later_token_def active_gauge_def split: sum.splits prod.splits dest!: sample_metrics deliver_gauge [unfolded active_gauge_def])

lemma decode_step_gauge: "run_decode_step E p s = (res, s') \<Longrightarrow> active_gauge s' = active_gauge s"
  by (auto simp: run_decode_step_def first_token_gauge later_token_gauge split: if_splits)

lemma decode_one_gauge:
  "quiet p s (decode_one E p s) \<and> active_gauge (decode_one E p s) = active_gauge s \<or>
   (\<exists>q. retired p q s (decode_one E p s)) \<and> active_gauge (decode_one E p s) = active_gauge s - 1"
proof -
  have tt: "quiet p s (tick (tick s))" "quiet p s (tick s)" "quiet p s s" by (simp_all add: frame quiet_def)
  have tick: "active_gauge (tick s) = active_gauge s" "active_gauge (tick (tick s)) = active_gauge s" by (simp_all add: active_gauge_def)
  have fail: "\<exists>q. retired p q s (fail_request E p e s1)" if "quiet p s s1" for e s1
    using retired_quiet [OF that fail_request_retired [of p s1 E e]] by (rule exI)
  have complete: "\<exists>q. retired p q s (complete_request E p r s1)" if "quiet p s s1" for r s1
    using retired_quiet [OF that complete_request_retired [of p s1 E r]] by (rule exI)
  obtain res s1 where dec: "run_decode_step E p (tick (tick s)) = (res, s1)" by fastforce
  then have q: "quiet p s s1" using quiet_run_decode_step [OF tt(1), of E] by simp
  show ?thesis
    using tt fail complete q dec decode_step_gauge [OF dec] tick
    by (auto simp: decode_one_def ends_lower_gauge split: sum.splits bool.splits)
qed

section \<open>The drift\<close>

definition gauge_drift :: "('j, 'r, 'k, 'g) world \<Rightarrow> real" where
  "gauge_drift w = active_gauge (sched w) - real (length (active_requests (sched w)))"

text \<open>The step takes the first request from the queue and does not make it active.\<close>

definition failed_start :: "('j, 'r, 'k, 'g) world \<Rightarrow> ('j, 'r, 'k, 'g) world \<Rightarrow> bool" where
  "failed_start w w' \<longleftrightarrow> pending_queue (sched w) \<noteq> [] \<and> pending_queue (sched w') = tl (pending_queue (sched w)) \<and>
     active_requests (sched w') = active_requests (sched w)"

lemma enqueue_gauge: "active_gauge (enqueue E p s) = active_gauge s"
  by (simp add: enqueue_def active_gauge_def Let_def)

lemma tl_neq: "xs \<noteq> [] \<Longrightarrow> xs \<noteq> tl xs"
  by (cases xs) auto

lemma drift_step:
  assumes "sched_step E ready T w w'" and life: "lifecycle w"
  shows "gauge_drift w' = gauge_drift w - (if failed_start w w' then 1 else 0)"
  using assms(1)
proof cases
  case (submit_reject p e)
  then show ?thesis using tl_neq [of "pending_queue (sched w)"]
    by (auto simp: gauge_drift_def failed_start_def reject_def active_gauge_def Let_def)
next
  case (submit_enqueue p)
  then have "pending_queue (sched w') \<noteq> tl (pending_queue (sched w))" by (auto dest: arg_cong [of _ _ length])
  then have "\<not> failed_start w w'" by (simp add: failed_start_def)
  then show ?thesis using submit_enqueue by (simp add: gauge_drift_def enqueue_gauge)
next
  case fill
  let ?p = "hd (pending_queue (sched w))" and ?s = "pop_pending (sched w)"
  have pend: "pending_queue (sched w) \<noteq> []" using fill by (simp add: can_start_def)
  have p: "?p \<notin> set (active_requests (sched w))"
    using lifecycleD(1) [OF life] pend by (auto simp: in_system_def dest: hd_in_set)
  have s: "active_gauge ?s = active_gauge (sched w)" "active_requests ?s = active_requests (sched w)"
    "pending_queue ?s = tl (pending_queue (sched w))" by (simp_all add: pop_pending_def active_gauge_def)
  have run: "sched w' = start_request E ?p ?s" using fill by (simp add: process_one_def)
  from start_request_gauge [of ?p ?s E] show ?thesis
    using run s pend p by (auto simp: gauge_drift_def failed_start_def started_def retired_def)
next
  case (decode p ps)
  have act: "p \<in> set (active_requests (sched w))" "distinct (active_requests (sched w))"
    using lifecycleD(1,8) [OF life] decode by (auto simp: in_system_def)
  have "length (removeAll p (active_requests (sched w))) = length (active_requests (sched w)) - 1"
    using act by (simp add: distinct_remove1_removeAll [symmetric] length_remove1)
  moreover have "length (active_requests (sched w)) > 0" using act by auto
  ultimately have len: "real (length (removeAll p (active_requests (sched w)))) = real (length (active_requests (sched w))) - 1"
    by linarith
  have "pending_queue (sched w') = pending_queue (sched w)" using decode by (simp add: decode_one_config)
  then have "\<not> failed_start w w'" using tl_neq [of "pending_queue (sched w)"] by (auto simp: failed_start_def)
  then show ?thesis using decode_one_gauge [of p "sched w" E] decode len
    by (auto simp: gauge_drift_def quiet_def retired_def)
qed (use tl_neq [of "pending_queue (sched w)"] in
  \<open>auto simp: gauge_drift_def failed_start_def active_gauge_def cancel_def pop_event_def start_def stop_signal_def stop_finish_def
    split: if_splits\<close>)

text \<open>
  C24. The gauge of active requests never exceeds their number, and the difference only grows: it stays the
  same in every step of the system except a start that fails (a timeout in the queue, no memory, an error
  of the prefill), which lowers the gauge by one for good.
\<close>

theorem active_gauge_drifts:
  assumes "reachable E ready T (initial_world cfg st k r g) w" and "sched_step E ready T w w'"
  shows "active_gauge (sched w) \<le> real (length (active_requests (sched w))) \<and>
    gauge_drift w' = gauge_drift w - (if failed_start w w' then 1 else 0)"
proof -
  have "gauge_drift w \<le> 0"
    using assms(1)
  proof (induction rule: rtranclp_induct)
    case base
    show ?case by (simp add: gauge_drift_def active_gauge_def initial_world_def new_scheduler_def empty_registry_def gauge_def)
  next
    case (step y z)
    then show ?case using drift_step [OF step.hyps(2) lifecycle_reachable [OF step.hyps(1)]] by auto
  qed
  then show ?thesis using drift_step [OF assms(2) lifecycle_reachable [OF assms(1)]] by (simp add: gauge_drift_def)
qed

theorem active_gauge_drifts_witness:
  "active_gauge (sched (demo_started demo_ca demo_kv)) = active_gauge (sched (demo_queued demo_ca demo_kv)) + 1"
proof -
  obtain h k where "ka_allocate demo_ca 16 demo_kv = (Inr h, k)" using demo_ca_allocates by blast
  note active = demo_started_active(1) [OF this]
  note steps = demo_steps [of 1 demo_ca demo_kv ca_ready, OF zero_less_one demo_kv_ready]
  from active_gauge_drifts [OF demo_ca_reachable(1) steps(4)] show ?thesis
    by (simp add: gauge_drift_def failed_start_def active demo_started_fields) (simp add: demo_queued_def demo_running_fields)
qed

end
