(* ===== verification/Shutdown.thy ===== *)
theory Shutdown
  imports Prelude
begin

text \<open>
  The shutdown request of \<^verbatim>\<open>src/main.cpp\<close>: the flag, the mutex and the condition variable through which a signal
  handler wakes \<open>main\<close>. A handler is one call of \<open>request_shutdown\<close>. It runs on a thread of its own (the console
  handler of Windows) or on top of the main thread, which it then interrupts (a POSIX signal).
\<close>

section \<open>The threads\<close>

text \<open>The main thread: before the lock, evaluating the predicate, about to wait, waiting, awake again, past the wait.\<close>

datatype main_pc = Before_wait | Checking | Falling | Sleeping | Awake | Past_wait

text \<open>A call of \<open>request_shutdown\<close>: not made, before the lock, holding it, after the store, returned.\<close>

datatype handler_pc = Unborn | Wants_lock | Holds_lock | Stored | Returned

datatype lock_owner = Main_thread | Handler nat

record shutdown_world =
  sd_requested :: bool
  sd_mutex :: "lock_owner option"
  sd_main :: main_pc
  sd_handlers :: "nat \<Rightarrow> handler_pc"
  sd_interrupt :: "nat option"

definition shutdown_init :: shutdown_world where
  "shutdown_init = \<lparr>sd_requested = False, sd_mutex = None, sd_main = Before_wait, sd_handlers = (\<lambda>h. Unborn), sd_interrupt = None\<rparr>"

text \<open>The cases of \<open>console_handler\<close> and \<open>signal_handler\<close> that request the shutdown.\<close>

datatype console_event = CTRL_C_EVENT | CTRL_BREAK_EVENT | CTRL_CLOSE_EVENT | CTRL_LOGOFF_EVENT | CTRL_SHUTDOWN_EVENT | Other_event

definition console_handler :: "console_event \<Rightarrow> bool" where
  "console_handler ctrl_type = (case ctrl_type of Other_event \<Rightarrow> False | _ \<Rightarrow> True)"

datatype posix_signal = SIGINT | SIGTERM | Other_signal

definition signal_handler :: "posix_signal \<Rightarrow> bool" where
  "signal_handler sig \<longleftrightarrow> sig = SIGINT \<or> sig = SIGTERM"

section \<open>Steps\<close>

definition awaken :: "main_pc \<Rightarrow> main_pc" where
  "awaken m = (if m = Sleeping then Awake else m)"

definition resume :: "nat \<Rightarrow> nat option \<Rightarrow> nat option" where
  "resume h i = (if i = Some h then None else i)"

inductive main_step :: "shutdown_world \<Rightarrow> shutdown_world \<Rightarrow> bool" where
  lock: "sd_main w \<in> {Before_wait, Awake} \<Longrightarrow> sd_mutex w = None \<Longrightarrow>
    main_step w (w\<lparr>sd_main := Checking, sd_mutex := Some Main_thread\<rparr>)"
| leave: "sd_main w = Checking \<Longrightarrow> sd_requested w \<Longrightarrow> main_step w (w\<lparr>sd_main := Past_wait, sd_mutex := None\<rparr>)"
| fall: "sd_main w = Checking \<Longrightarrow> \<not> sd_requested w \<Longrightarrow> main_step w (w\<lparr>sd_main := Falling\<rparr>)"
| sleep: "sd_main w = Falling \<Longrightarrow> main_step w (w\<lparr>sd_main := Sleeping, sd_mutex := None\<rparr>)"
| spurious: "sd_main w = Sleeping \<Longrightarrow> main_step w (w\<lparr>sd_main := Awake\<rparr>)"

inductive request_shutdown :: "nat \<Rightarrow> shutdown_world \<Rightarrow> shutdown_world \<Rightarrow> bool" where
  acquire: "sd_handlers w h = Wants_lock \<Longrightarrow> sd_mutex w = None \<Longrightarrow>
    request_shutdown h w (w\<lparr>sd_handlers := (sd_handlers w)(h := Holds_lock), sd_mutex := Some (Handler h)\<rparr>)"
| request: "sd_handlers w h = Holds_lock \<Longrightarrow>
    request_shutdown h w (w\<lparr>sd_requested := True, sd_handlers := (sd_handlers w)(h := Stored), sd_mutex := None\<rparr>)"
| notify: "sd_handlers w h = Stored \<Longrightarrow>
    request_shutdown h w (w\<lparr>sd_handlers := (sd_handlers w)(h := Returned), sd_main := awaken (sd_main w),
      sd_interrupt := resume h (sd_interrupt w)\<rparr>)"

text \<open>An interrupted main thread does not move until its handler has returned.\<close>

inductive shutdown_step :: "shutdown_world \<Rightarrow> shutdown_world \<Rightarrow> bool" where
  main_thread: "sd_interrupt w = None \<Longrightarrow> main_step w w' \<Longrightarrow> shutdown_step w w'"
| handler: "request_shutdown h w w' \<Longrightarrow> shutdown_step w w'"
| console: "sd_handlers w h = Unborn \<Longrightarrow> console_handler ev \<Longrightarrow>
    shutdown_step w (w\<lparr>sd_handlers := (sd_handlers w)(h := Wants_lock)\<rparr>)"
| posix: "sd_handlers w h = Unborn \<Longrightarrow> signal_handler sig \<Longrightarrow> sd_interrupt w = None \<Longrightarrow>
    shutdown_step w (w\<lparr>sd_handlers := (sd_handlers w)(h := Wants_lock), sd_interrupt := Some h\<rparr>)"

section \<open>No wake-up is lost\<close>

definition main_locked :: "shutdown_world \<Rightarrow> bool" where
  "main_locked w \<longleftrightarrow> sd_main w = Checking \<or> sd_main w = Falling"

definition holders :: "(nat \<Rightarrow> handler_pc) \<Rightarrow> nat set" where
  "holders f = {h. f h = Holds_lock}"

fun lock_ok :: "lock_owner option \<Rightarrow> bool \<Rightarrow> nat set \<Rightarrow> bool" where
  "lock_ok None l H = (\<not> l \<and> H = {})"
| "lock_ok (Some Main_thread) l H = (l \<and> H = {})"
| "lock_ok (Some (Handler k)) l H = (\<not> l \<and> H = {k})"

definition lock_inv :: "shutdown_world \<Rightarrow> bool" where
  "lock_inv w \<longleftrightarrow> lock_ok (sd_mutex w) (main_locked w) (holders (sd_handlers w))"

lemma holders_upd:
  "holders (f(h := Holds_lock)) = insert h (holders f)"
  "c \<noteq> Holds_lock \<Longrightarrow> holders (f(h := c)) = holders f - {h}"
  "f h \<noteq> Holds_lock \<Longrightarrow> h \<notin> holders f"
  by (auto simp: holders_def)

lemma lock_okD:
  "lock_ok m True H \<Longrightarrow> m = Some Main_thread \<and> H = {}" "lock_ok m l H \<Longrightarrow> h \<in> H \<Longrightarrow> m = Some (Handler h) \<and> H = {h} \<and> \<not> l"
  by (cases "(m, l, H)" rule: lock_ok.cases; simp)+

definition wake_inv :: "shutdown_world \<Rightarrow> bool" where
  "wake_inv w \<longleftrightarrow>
     (sd_main w = Falling \<longrightarrow> \<not> sd_requested w) \<and> (sd_main w = Past_wait \<longrightarrow> sd_requested w) \<and>
     (sd_requested w \<longrightarrow> sd_main w = Sleeping \<longrightarrow> (\<exists>h. sd_handlers w h = Stored))"

definition interrupt_inv :: "shutdown_world \<Rightarrow> bool" where
  "interrupt_inv w \<longleftrightarrow> (\<forall>h. sd_interrupt w = Some h \<longrightarrow> sd_handlers w h \<noteq> Unborn \<and> sd_handlers w h \<noteq> Returned)"

definition shutdown_inv :: "shutdown_world \<Rightarrow> bool" where
  "shutdown_inv w \<longleftrightarrow> lock_inv w \<and> wake_inv w \<and> interrupt_inv w"

lemma lock_inv_main:
  assumes "main_step w w'" and inv: "lock_inv w" shows "lock_inv w'"
  using assms(1) by cases (use inv lock_okD(1) in \<open>force simp: lock_inv_def main_locked_def\<close>)+

lemma lock_inv_request:
  assumes "request_shutdown h w w'" and inv: "lock_inv w" shows "lock_inv w'"
  using assms(1)
proof cases
  case acquire
  then show ?thesis using inv by (simp add: lock_inv_def main_locked_def holders_upd)
next
  case request
  then have "h \<in> holders (sd_handlers w)" by (simp add: holders_def)
  from lock_okD(2) [OF inv [unfolded lock_inv_def] this] request show ?thesis
    by (simp add: lock_inv_def main_locked_def holders_upd)
next
  case notify
  then have "h \<notin> holders (sd_handlers w)" "main_locked w' = main_locked w"
    by (auto simp: holders_def main_locked_def awaken_def)
  with notify inv show ?thesis by (simp add: lock_inv_def holders_upd)
qed

lemma lock_inv_call:
  assumes "lock_inv w" and "sd_handlers w h = Unborn"
  shows "lock_inv (w\<lparr>sd_handlers := (sd_handlers w)(h := Wants_lock)\<rparr>)"
    "lock_inv (w\<lparr>sd_handlers := (sd_handlers w)(h := Wants_lock), sd_interrupt := i\<rparr>)"
proof -
  have "h \<notin> holders (sd_handlers w)" using assms(2) by (simp add: holders_def)
  then show "lock_inv (w\<lparr>sd_handlers := (sd_handlers w)(h := Wants_lock)\<rparr>)"
    "lock_inv (w\<lparr>sd_handlers := (sd_handlers w)(h := Wants_lock), sd_interrupt := i\<rparr>)"
    using assms(1) by (simp_all add: lock_inv_def main_locked_def holders_upd)
qed

lemma wake_inv_main:
  assumes "main_step w w'" and inv: "wake_inv w" shows "wake_inv w'"
  using assms(1) by cases (use inv in \<open>auto simp: wake_inv_def\<close>)

lemma stored_others: "f h \<noteq> Stored \<Longrightarrow> (\<exists>k. f k = Stored) \<Longrightarrow> \<exists>k. (f(h := c)) k = Stored"
  by (metis fun_upd_apply)

lemma wake_inv_request:
  assumes "request_shutdown h w w'" and inv: "wake_inv w" "lock_inv w" shows "wake_inv w'"
  using assms(1)
proof cases
  case acquire
  then show ?thesis using inv stored_others [of "sd_handlers w" h Holds_lock] by (simp add: wake_inv_def)
next
  case request
  then have "h \<in> holders (sd_handlers w)" by (simp add: holders_def)
  from lock_okD(2) [OF inv(2) [unfolded lock_inv_def] this] request show ?thesis by (auto simp: wake_inv_def main_locked_def)
next
  case notify
  then show ?thesis using inv(1) by (simp add: wake_inv_def awaken_def)
qed

lemma interrupt_inv_step:
  "main_step w w' \<Longrightarrow> interrupt_inv w \<Longrightarrow> interrupt_inv w'"
  "request_shutdown h w w' \<Longrightarrow> interrupt_inv w \<Longrightarrow> interrupt_inv w'"
  by (auto simp: interrupt_inv_def resume_def elim!: main_step.cases request_shutdown.cases split: if_splits)

lemma shutdown_inv_step: "shutdown_step w w' \<Longrightarrow> shutdown_inv w \<Longrightarrow> shutdown_inv w'"
proof (induction rule: shutdown_step.induct)
  case (console w h ev)
  then show ?case using stored_others [of "sd_handlers w" h Wants_lock]
    by (auto simp: shutdown_inv_def lock_inv_call wake_inv_def interrupt_inv_def)
next
  case (posix w h sig)
  then show ?case using stored_others [of "sd_handlers w" h Wants_lock]
    by (auto simp: shutdown_inv_def lock_inv_call wake_inv_def interrupt_inv_def)
qed (auto simp: shutdown_inv_def dest: lock_inv_main lock_inv_request wake_inv_main wake_inv_request interrupt_inv_step)

lemma shutdown_inv_init: "shutdown_inv shutdown_init"
  by (simp add: shutdown_inv_def lock_inv_def main_locked_def holders_def wake_inv_def interrupt_inv_def shutdown_init_def)

lemma shutdown_inv_reachable: "shutdown_step\<^sup>*\<^sup>* shutdown_init w \<Longrightarrow> shutdown_inv w"
  by (induction rule: rtranclp_induct) (auto intro: shutdown_inv_init shutdown_inv_step)

lemma main_leaves:
  assumes "sd_requested w" and "sd_mutex w = None \<or> sd_main w = Checking"
    and "sd_main w \<in> {Before_wait, Checking, Awake, Past_wait}"
  shows "\<exists>w'. main_step\<^sup>*\<^sup>* w w' \<and> sd_main w' = Past_wait"
proof -
  let ?left = "\<lambda>v. v\<lparr>sd_main := Past_wait, sd_mutex := None\<rparr>"
  have last: "main_step v (?left v)" if "sd_requested v" "sd_main v = Checking" for v
    using that by (intro main_step.leave)
  consider "sd_main w = Past_wait" | "sd_main w = Checking" | "sd_main w \<in> {Before_wait, Awake}" "sd_mutex w = None"
    using assms(2,3) by auto
  then show ?thesis
  proof cases
    case 1
    then show ?thesis by blast
  next
    case 2
    with last [of w] assms(1) have "main_step\<^sup>*\<^sup>* w (?left w)" by blast
    then show ?thesis by (intro exI conjI) (assumption, simp)
  next
    case 3
    let ?v = "w\<lparr>sd_main := Checking, sd_mutex := Some Main_thread\<rparr>"
    have "main_step\<^sup>*\<^sup>* w (?left ?v)"
      using main_step.lock [OF 3] last [of ?v] assms(1) by (simp add: converse_rtranclp_into_rtranclp)
    then show ?thesis by (intro exI conjI) (assumption, simp)
  qed
qed

text \<open>A POSIX signal that interrupts main while it holds the mutex: the handler waits for the thread it runs on.\<close>

definition self_locked :: "nat \<Rightarrow> shutdown_world \<Rightarrow> bool" where
  "self_locked h w \<longleftrightarrow> main_locked w \<and> sd_interrupt w = Some h \<and> sd_handlers w h = Wants_lock"

lemma self_locked_step:
  assumes "shutdown_step w w'" and "self_locked h w" and "lock_inv w"
  shows "self_locked h w' \<and> sd_main w' = sd_main w"
proof -
  have free: "sd_mutex w = Some Main_thread" "holders (sd_handlers w) = {}"
    using assms(2,3) lock_okD(1) [of "sd_mutex w"] by (auto simp: self_locked_def lock_inv_def)
  have by_handler: "self_locked h w' \<and> sd_main w' = sd_main w" if "request_shutdown k w w'" for k
    using that assms(2) free
    by cases (auto simp: self_locked_def main_locked_def awaken_def resume_def holders_def)
  from assms(1) show ?thesis
    by cases (use by_handler assms(2) in \<open>auto simp: self_locked_def main_locked_def\<close>)
qed

section \<open>Runs\<close>

text \<open>Main waits and a console event is handled to its end; and a signal that comes while main holds the mutex.\<close>

definition demo_waiting :: shutdown_world where
  "demo_waiting = shutdown_init\<lparr>sd_main := Sleeping\<rparr>"

definition demo_handled :: shutdown_world where
  "demo_handled = shutdown_init\<lparr>sd_requested := True, sd_main := Awake, sd_handlers := (\<lambda>h. Unborn)(0 := Returned)\<rparr>"

definition demo_interrupted :: shutdown_world where
  "demo_interrupted = shutdown_init\<lparr>sd_mutex := Some Main_thread, sd_main := Checking,
     sd_handlers := (\<lambda>h. Unborn)(0 := Wants_lock), sd_interrupt := Some 0\<rparr>"

lemma demo_locks: "shutdown_step\<^sup>*\<^sup>* shutdown_init (shutdown_init\<lparr>sd_main := Checking, sd_mutex := Some Main_thread\<rparr>)"
  by (intro r_into_rtranclp main_thread main_step.lock) (simp_all add: shutdown_init_def)

lemma demo_waiting_reachable: "shutdown_step\<^sup>*\<^sup>* shutdown_init demo_waiting"
proof -
  let ?c = "shutdown_init\<lparr>sd_main := Checking, sd_mutex := Some Main_thread\<rparr>"
  have "shutdown_step ?c (?c\<lparr>sd_main := Falling\<rparr>)"
    by (intro main_thread main_step.fall) (simp_all add: shutdown_init_def)
  moreover have "shutdown_step (?c\<lparr>sd_main := Falling\<rparr>) demo_waiting"
    using main_thread [OF _ main_step.sleep, of "?c\<lparr>sd_main := Falling\<rparr>"] by (simp add: demo_waiting_def shutdown_init_def)
  ultimately show ?thesis using demo_locks by (meson rtranclp.rtrancl_into_rtrancl)
qed

lemma demo_handled_reachable: "shutdown_step\<^sup>*\<^sup>* shutdown_init demo_handled"
proof -
  let ?w = "\<lambda>r c m. demo_waiting\<lparr>sd_requested := r, sd_handlers := (\<lambda>h. Unborn)(0 := c), sd_mutex := m\<rparr>"
  have "shutdown_step demo_waiting (?w False Wants_lock None)"
    using shutdown_step.console [of demo_waiting 0 CTRL_C_EVENT]
    by (simp add: demo_waiting_def shutdown_init_def console_handler_def)
  moreover have "shutdown_step (?w False Wants_lock None) (?w False Holds_lock (Some (Handler 0)))"
    using handler [OF request_shutdown.acquire, of "?w False Wants_lock None" 0] by (simp add: demo_waiting_def shutdown_init_def)
  moreover have "shutdown_step (?w False Holds_lock (Some (Handler 0))) (?w True Stored None)"
    using handler [OF request_shutdown.request, of "?w False Holds_lock (Some (Handler 0))" 0]
    by (simp add: demo_waiting_def shutdown_init_def)
  moreover have "shutdown_step (?w True Stored None) demo_handled"
    using handler [OF request_shutdown.notify, of "?w True Stored None" 0]
    by (simp add: demo_waiting_def demo_handled_def shutdown_init_def awaken_def resume_def)
  ultimately show ?thesis using demo_waiting_reachable by (meson rtranclp.rtrancl_into_rtrancl)
qed

lemma demo_interrupted_reachable: "shutdown_step\<^sup>*\<^sup>* shutdown_init demo_interrupted"
proof -
  let ?c = "shutdown_init\<lparr>sd_main := Checking, sd_mutex := Some Main_thread\<rparr>"
  have "shutdown_step ?c demo_interrupted"
    using shutdown_step.posix [of ?c 0 SIGINT] by (simp add: demo_interrupted_def shutdown_init_def signal_handler_def)
  then show ?thesis using demo_locks by (meson rtranclp.rtrancl_into_rtrancl)
qed

section \<open>Properties\<close>

text \<open>
  C33. No shutdown request is lost: main passes its wait only when the shutdown was requested, and once it was
  requested and every handler has returned, main is not left waiting and its own next steps take it past the wait.
\<close>

theorem shutdown_wakes_main:
  assumes "shutdown_step\<^sup>*\<^sup>* shutdown_init w"
  shows "(sd_main w = Past_wait \<longrightarrow> sd_requested w) \<and>
    (sd_requested w \<and> (\<forall>h. sd_handlers w h = Unborn \<or> sd_handlers w h = Returned) \<longrightarrow>
      sd_main w \<noteq> Sleeping \<and> sd_interrupt w = None \<and> (\<exists>w'. main_step\<^sup>*\<^sup>* w w' \<and> sd_main w' = Past_wait))"
proof -
  note inv = shutdown_inv_reachable [OF assms]
  have "sd_main w \<noteq> Sleeping \<and> sd_interrupt w = None \<and> (\<exists>w'. main_step\<^sup>*\<^sup>* w w' \<and> sd_main w' = Past_wait)"
    if req: "sd_requested w" and quiet: "\<forall>h. sd_handlers w h = Unborn \<or> sd_handlers w h = Returned"
  proof -
    have idle: "sd_handlers w h \<noteq> Stored" "sd_handlers w h \<noteq> Holds_lock" for h using quiet by (metis handler_pc.distinct)+
    have awake: "sd_main w \<noteq> Sleeping" "sd_main w \<noteq> Falling" using inv req idle by (auto simp: shutdown_inv_def wake_inv_def)
    have "sd_interrupt w = None" using inv quiet by (cases "sd_interrupt w") (auto simp: shutdown_inv_def interrupt_inv_def)
    moreover have "sd_mutex w = None \<or> sd_main w = Checking"
      using inv idle awake by (cases "(sd_mutex w, main_locked w, holders (sd_handlers w))" rule: lock_ok.cases)
        (auto simp: shutdown_inv_def lock_inv_def main_locked_def holders_def)
    ultimately show ?thesis using awake req by (cases "sd_main w") (auto intro: main_leaves)
  qed
  then show ?thesis using inv by (auto simp: shutdown_inv_def wake_inv_def)
qed

theorem shutdown_wakes_main_witness:
  "sd_requested demo_handled \<and> (\<exists>w'. main_step\<^sup>*\<^sup>* demo_handled w' \<and> sd_main w' = Past_wait)"
  using shutdown_wakes_main [OF demo_handled_reachable] by (simp add: demo_handled_def shutdown_init_def)

text \<open>
  C34. A POSIX signal that interrupts main while it holds the mutex hangs the program: whatever the other
  handlers do, main stays where it is, the handler keeps waiting for the mutex, and the shutdown never starts.
\<close>

theorem signal_handler_hangs:
  assumes "shutdown_step\<^sup>*\<^sup>* shutdown_init w" and "main_locked w" "sd_interrupt w = Some h" "sd_handlers w h = Wants_lock"
    and "shutdown_step\<^sup>*\<^sup>* w w'"
  shows "sd_main w' = sd_main w \<and> sd_main w' \<noteq> Past_wait \<and> sd_handlers w' h = Wants_lock"
proof -
  have "self_locked h w' \<and> sd_main w' = sd_main w \<and> lock_inv w'"
    using assms(5)
  proof (induction rule: rtranclp_induct)
    case base
    then show ?case using assms(2-4) shutdown_inv_reachable [OF assms(1)] by (simp add: self_locked_def shutdown_inv_def)
  next
    case (step v v')
    have "shutdown_step\<^sup>*\<^sup>* shutdown_init v'" using assms(1) step.hyps by (meson rtranclp.rtrancl_into_rtrancl rtranclp_trans)
    then have "lock_inv v'" using shutdown_inv_reachable by (simp add: shutdown_inv_def)
    then show ?case using self_locked_step [OF step.hyps(2)] step.IH by metis
  qed
  then show ?thesis by (auto simp: self_locked_def main_locked_def)
qed

theorem signal_handler_hangs_witness:
  "sd_main demo_interrupted = Checking \<and> \<not> (\<exists>w'. shutdown_step\<^sup>*\<^sup>* demo_interrupted w' \<and> sd_main w' = Past_wait)"
proof -
  have "main_locked demo_interrupted" "sd_interrupt demo_interrupted = Some 0" "sd_handlers demo_interrupted 0 = Wants_lock"
    by (simp_all add: demo_interrupted_def main_locked_def)
  from signal_handler_hangs [OF demo_interrupted_reachable this] show ?thesis by (auto simp: demo_interrupted_def)
qed

end
