(* ===== verification/Routes.thy ===== *)
theory Routes
  imports Request_Registry Request_Validator Prompt_Builder Stop_Checker
begin

text \<open>
  \<^verbatim>\<open>src/api/routes.cpp\<close>: the HTTP handlers. The HTTP library is not part of the repository: a response is
  what the handler sets on it, a sink is a function on a state \<open>'w\<close>. Parsing and printing JSON text are
  the fields of \<open>json_text\<close>; printing throws when a string is not valid UTF-8. An exception that leaves
  a handler is its text in \<^const>\<open>Inl\<close>. Log lines are not modelled.
\<close>

section \<open>Responses\<close>

record 'j json_text =
  jt_parse :: "string \<Rightarrow> 'j json_result"
  jt_dump :: "'j \<Rightarrow> string json_result"

text \<open>\<open>res_status\<close> is \<^const>\<open>None\<close> until the handler sets it: the library then answers 200.\<close>

record http_response =
  res_status :: "int option"
  res_headers :: "(string \<times> string) list"
  res_content :: "(string \<times> string) option"

definition empty_response :: http_response where
  "empty_response = \<lparr>res_status = None, res_headers = [], res_content = None\<rparr>"

definition set_header :: "string \<Rightarrow> string \<Rightarrow> http_response \<Rightarrow> http_response" where
  "set_header k v res = res\<lparr>res_headers := res_headers res @ [(k, v)]\<rparr>"

definition set_content :: "string \<Rightarrow> string \<Rightarrow> http_response \<Rightarrow> http_response" where
  "set_content body kind res = res\<lparr>res_content := Some (body, kind)\<rparr>"

definition add_cors_headers :: "http_response \<Rightarrow> http_response" where
  "add_cors_headers res =
     set_header ''Access-Control-Max-Age'' ''86400''
      (set_header ''Access-Control-Allow-Headers'' ''Content-Type, Authorization''
        (set_header ''Access-Control-Allow-Methods'' ''GET, POST, OPTIONS''
          (set_header ''Access-Control-Allow-Origin'' ''*'' res)))"

definition send_json :: "'j json_text \<Rightarrow> 'j \<Rightarrow> http_response \<Rightarrow> http_response json_result" where
  "send_json T j res = try_then (jt_dump T j) (\<lambda>body. Inr (set_content body ''application/json'' res))"

definition send_error :: "'j json_api \<Rightarrow> 'j json_text \<Rightarrow> int \<Rightarrow> error_response \<Rightarrow> http_response \<Rightarrow> http_response json_result" where
  "send_error J T status err res = send_json T (error_response_to_json J err) (res\<lparr>res_status := Some status\<rparr>)"

definition error_response_of :: "error \<Rightarrow> string option \<Rightarrow> error_response" where
  "error_response_of e param = \<lparr>err_type = ''error'', err_code = code e, err_message = message e, err_param = param\<rparr>"

definition generate_completion_id :: "uint64 \<Rightarrow> string" where
  "generate_completion_id w = ''chatcmpl-'' @ pad_left 16 (nat_to_hex (unat w))"

section \<open>Routing table\<close>

datatype endpoint = Preflight | Chat_completions | List_models | Health_check | Metrics_export

definition route_table :: "(string \<times> string \<times> endpoint) list" where
  "route_table =
     [(''OPTIONS'', ''/v1/chat/completions'', Preflight), (''OPTIONS'', ''/v1/models'', Preflight),
      (''POST'', ''/v1/chat/completions'', Chat_completions), (''GET'', ''/v1/models'', List_models),
      (''GET'', ''/health'', Health_check), (''GET'', ''/metrics'', Metrics_export)]"

definition list_models :: "'j json_api \<Rightarrow> 'j json_text \<Rightarrow> int64 \<Rightarrow> string \<Rightarrow> http_response \<Rightarrow> http_response json_result" where
  "list_models J T timestamp model_name res =
     send_json T (j_object J [(''object'', j_string J ''list''), (''data'', j_array J
       [j_object J [(''id'', j_string J model_name), (''object'', j_string J ''model''),
          (''created'', j_int J (sint timestamp)), (''owned_by'', j_string J ''organization'')]])]) res"

definition health_check :: "'j json_api \<Rightarrow> 'j json_text \<Rightarrow> bool \<Rightarrow> string \<Rightarrow> http_response \<Rightarrow> http_response json_result" where
  "health_check J T scheduler_running model_name res =
     send_json T (j_object J [(''status'', j_string J (if scheduler_running then ''healthy'' else ''unhealthy'')),
         (''model'', j_string J model_name),
         (''scheduler'', j_string J (if scheduler_running then ''running'' else ''stopped''))])
       (res\<lparr>res_status := Some (if scheduler_running then 200 else 503)\<rparr>)"

definition metrics_handler :: "string \<Rightarrow> http_response \<Rightarrow> http_response" where
  "metrics_handler prometheus_output res = set_content prometheus_output ''text/plain; version=0.0.4'' res"

section \<open>Preparing a chat request\<close>

text \<open>A rejection is a status with the error body.\<close>

type_synonym rejection = "int \<times> error_response"

definition parse_chat :: "'j json_api \<Rightarrow> 'j json_text \<Rightarrow> string \<Rightarrow> 'j chat_completion_request json_result" where
  "parse_chat J T body = try_then (jt_parse T body) (request_from_json J)"

definition context_error :: "string \<Rightarrow> rejection" where
  "context_error msg = (400, \<lparr>err_type = ''invalid_request_error'', err_code = ''context_length_exceeded'',
     err_message = msg, err_param = Some ''messages''\<rparr>)"

text \<open>The check of the prompt length; \<open>prompt_tokens + max_tokens\<close> is a sum of \<open>int32_t\<close>.\<close>

definition fit_context :: "validation_config \<Rightarrow> int32 \<Rightarrow> 'j chat_completion_request \<Rightarrow>
    rejection + 'j chat_completion_request" where
  "fit_context cfg n q =
     (let limit = opt_or (req_max_tokens q) (default_max_tokens cfg); total_required = n + limit
      in if sint n > sint (max_context_length cfg)
         then Inl (context_error (''Prompt contains '' @ int32_to_string n @
                '' tokens which exceeds the maximum context length of '' @ int32_to_string (max_context_length cfg)))
         else if sint total_required > sint (max_context_length cfg)
         then (let room = max_context_length cfg - n
               in if sint room < 1
                  then Inl (context_error ''Prompt uses all available context. No room for completion.'')
                  else Inr (q\<lparr>req_max_tokens := Some room\<rparr>))
         else Inr q)"

text \<open>From the body to the request and its prompt; \<^const>\<open>None\<close> only when the tokenizer does not return.\<close>

definition prepare_chat :: "'j json_api \<Rightarrow> 'j json_text \<Rightarrow> validation_config \<Rightarrow> tokenizer option \<Rightarrow> prompt_builder_config \<Rightarrow>
    string \<Rightarrow> (rejection + 'j chat_completion_request \<times> built_prompt) option" where
  "prepare_chat J T cfg tok pcfg body =
     (case parse_chat J T body of
        Inl what \<Rightarrow> Some (Inl (400, \<lparr>err_type = ''invalid_request_error'', err_code = ''parse_error'',
          err_message = ''Failed to parse request: '' @ what, err_param = None\<rparr>))
      | Inr q \<Rightarrow>
          (case validate cfg q of
             Inl e \<Rightarrow> Some (Inl (400, error_response_of e None))
           | Inr _ \<Rightarrow>
               (let q1 = apply_defaults cfg q
                in case build tok pcfg (messages q1) (add_generation_prompt pcfg) of
                  None \<Rightarrow> None
                | Some (Inl e) \<Rightarrow> Some (Inl (400, error_response_of e None))
                | Some (Inr p) \<Rightarrow>
                    (case fit_context cfg (to_int32 (sz (token_ids p))) q1 of
                       Inl rej \<Rightarrow> Some (Inl rej)
                     | Inr q2 \<Rightarrow> Some (Inr (q2, p))))))"

text \<open>The scheduler request; both branches give it a token queue of the default capacity.\<close>

definition chat_request :: "uint64 \<Rightarrow> uint64 \<Rightarrow> time_point \<Rightarrow> string \<Rightarrow> 'j chat_completion_request \<Rightarrow> built_prompt \<Rightarrow> 'j request" where
  "chat_request timestamp random_part now trace q p =
     (make_request timestamp random_part now q)\<lparr>trace_id := trace, input_tokens := token_ids p,
        formatted_prompt := formatted_text p, cancel_token := Some make_cancellation_token,
        token_queue := Some (mk_token_queue 1024), is_streaming := stream q\<rparr>"

section \<open>Waiting for a result\<close>

text \<open>
  One iteration of a polling loop: the event popped from the token queue, or a timeout of the wait with
  whether the request is then terminal and the time since the start (or since the last event).
\<close>

datatype poll = Got token_event int64 | Waited bool time_point

text \<open>
  The loop of the blocking branch, over the polls of a run: the error it ends with and whether it has
  cancelled the request; \<^const>\<open>None\<close> while it still waits.
\<close>

fun await_result :: "uint32 \<Rightarrow> poll list \<Rightarrow> (error option \<times> bool) option" where
  "await_result secs [] = None"
| "await_result secs (Waited ended elapsed # ps) =
     (if ended then Some (None, False)
      else if secs > 0 \<and> elapsed > seconds secs then Some (Some (timeout ''Request timed out''), True)
      else await_result secs ps)"
| "await_result secs (Got e _ # ps) =
     (case ev_type e of
        Token \<Rightarrow> await_result secs ps
      | Complete \<Rightarrow> Some (None, False)
      | Error \<Rightarrow> Some (ev_error e, False))"

definition error_status :: "error \<Rightarrow> int" where
  "error_status e = (if code e = ''timeout'' then 504 else if code e = ''resource_exhausted'' then 503 else 500)"

definition chat_response_of :: "string \<Rightarrow> int64 \<Rightarrow> string \<Rightarrow> 'j request \<Rightarrow> 'j chat_completion_response" where
  "chat_response_of i created model_name r =
     \<lparr>resp_id = i, resp_object = ''chat.completion'', resp_created = created, resp_model = model_name,
      choices = [\<lparr>choice_index = 0, choice_message = \<lparr>msg_role = Assistant, content = output_text r, msg_name = None,
         tool_calls = None, tool_call_id = None\<rparr>, choice_finish = r_finish_reason r\<rparr>],
      resp_usage = \<lparr>prompt_tokens = prompt_tokens_count r, completion_tokens = completion_tokens_count r,
         total_tokens = total_tokens_count r\<rparr>\<rparr>"

text \<open>The end of the blocking branch, with the error of the wait and the request as the scheduler left it.\<close>

definition finish_blocking :: "'j json_api \<Rightarrow> 'j json_text \<Rightarrow> string \<Rightarrow> int64 \<Rightarrow> string \<Rightarrow> error option \<Rightarrow> 'j request \<Rightarrow>
    http_response \<Rightarrow> http_response json_result" where
  "finish_blocking J T i created model_name err r res =
     (case (case err of Some e \<Rightarrow> Some e | None \<Rightarrow> r_error r) of
        Some e \<Rightarrow> send_error J T (error_status e) (error_response_of e None) res
      | None \<Rightarrow> send_json T (response_to_json J (chat_response_of i created model_name r)) res)"

definition submit_failed :: "'j json_api \<Rightarrow> 'j json_text \<Rightarrow> error \<Rightarrow> http_response \<Rightarrow> http_response json_result" where
  "submit_failed J T e res = send_error J T 503 (error_response_of e None) res"

section \<open>The handler of a chat completion\<close>

record route_context =
  ctx_model_name :: string
  stream_idle_timeout_sec :: uint32
  response_timeout_sec :: uint32

definition default_route_context :: "string \<Rightarrow> route_context" where
  "default_route_context name = \<lparr>ctx_model_name = name, stream_idle_timeout_sec = 30, response_timeout_sec = 300\<rparr>"

text \<open>What the handler does with a body: answer at once, leave the answer to a provider, or submit and wait.\<close>

datatype 'j chat_outcome = Answered http_response | Streams http_response "'j request" | Waits http_response "'j request"

definition stream_headers :: "http_response \<Rightarrow> http_response" where
  "stream_headers res =
     set_header ''Connection'' ''keep-alive'' (set_header ''Cache-Control'' ''no-cache''
       (set_header ''Content-Type'' ''text/event-stream'' res))"

definition chat_completions :: "'j json_api \<Rightarrow> 'j json_text \<Rightarrow> validation_config \<Rightarrow> tokenizer option \<Rightarrow> prompt_builder_config \<Rightarrow>
    uint64 \<times> uint64 \<times> uint64 \<Rightarrow> time_point \<Rightarrow> string \<Rightarrow> http_response \<Rightarrow> 'j chat_outcome json_result option" where
  "chat_completions J T cfg tok pcfg stamps now body res =
     (let (w, timestamp, random_part) = stamps; i = generate_completion_id w
      in case prepare_chat J T cfg tok pcfg body of
           None \<Rightarrow> None
         | Some (Inl (status, err)) \<Rightarrow> Some (try_then (send_error J T status err res) (\<lambda>res'. Inr (Answered res')))
         | Some (Inr (q, p)) \<Rightarrow>
             (let r = chat_request timestamp random_part now i q p
              in Some (Inr (if stream q then Streams (stream_headers res) r else Waits res r))))"

text \<open>The blocking branch after \<open>submit\<close>, once the wait is over; the request is what the scheduler made of it.\<close>

definition answer_blocking :: "'j json_api \<Rightarrow> 'j json_text \<Rightarrow> route_context \<Rightarrow> string \<Rightarrow> int64 \<Rightarrow> unit result \<Rightarrow> poll list \<Rightarrow>
    'j request \<Rightarrow> http_response \<Rightarrow> http_response json_result option" where
  "answer_blocking J T ctx i created submitted polls r res =
     (case submitted of
        Inl e \<Rightarrow> Some (submit_failed J T e res)
      | Inr _ \<Rightarrow>
          (case await_result (response_timeout_sec ctx) polls of
             None \<Rightarrow> None
           | Some (err, _) \<Rightarrow> Some (finish_blocking J T i created (ctx_model_name ctx) err r res)))"

section \<open>Streaming\<close>

definition sse_frame :: "string \<Rightarrow> string" where
  "sse_frame data = ''data: '' @ data @ nl @ nl"

definition done_frame :: string where
  "done_frame = sse_frame ''[DONE]''"

definition stream_chunk :: "string \<Rightarrow> string \<Rightarrow> int64 \<Rightarrow> 'j delta \<Rightarrow> finish_reason option \<Rightarrow> 'j chat_completion_chunk" where
  "stream_chunk i model_name created d fin =
     \<lparr>chunk_id = i, chunk_object = ''chat.completion.chunk'', chunk_created = created, chunk_model = model_name,
      chunk_choices = [\<lparr>sc_index = 0, sc_delta = d, sc_finish = fin\<rparr>]\<rparr>"

definition empty_delta :: "'j delta" where
  "empty_delta = \<lparr>delta_role = None, delta_content = None, delta_tool_calls = None\<rparr>"

text \<open>The bytes of an event: \<open>"data: " + j.dump() + "\n\n"\<close>.\<close>

definition chunk_frame :: "'j json_api \<Rightarrow> 'j json_text \<Rightarrow> 'j chat_completion_chunk \<Rightarrow> string json_result" where
  "chunk_frame J T c = try_then (jt_dump T (chunk_to_json J c)) (\<lambda>s. Inr (sse_frame s))"

definition error_frame :: "'j json_api \<Rightarrow> 'j json_text \<Rightarrow> string \<Rightarrow> string \<Rightarrow> string \<Rightarrow> string json_result" where
  "error_frame J T msg kind c =
     try_then (jt_dump T (j_object J [(''error'', j_object J [(''message'', j_string J msg), (''type'', j_string J kind),
        (''code'', j_string J c)])])) (\<lambda>s. Inr (sse_frame s))"

text \<open>
  The sink and whether the client has been found gone, in which case \<open>safe_write\<close> has cancelled the
  request.
\<close>

record 'w stream_state =
  sink :: 'w
  request_cancelled :: bool

definition safe_write :: "(string \<Rightarrow> 'w \<Rightarrow> bool \<times> 'w) \<Rightarrow> string \<Rightarrow> 'w stream_state \<Rightarrow> bool \<times> 'w stream_state" where
  "safe_write wr data st =
     (case wr data (sink st) of (ok, w) \<Rightarrow>
        (ok, st\<lparr>sink := w, request_cancelled := request_cancelled st \<or> \<not> ok\<rparr>))"

text \<open>Two last writes whose results are ignored, and the end of the loop.\<close>

datatype stream_end = Still_polling | Stream_done | Client_gone | Escaped string

definition write_last :: "(string \<Rightarrow> 'w \<Rightarrow> bool \<times> 'w) \<Rightarrow> string json_result \<Rightarrow> 'w stream_state \<Rightarrow> stream_end \<times> 'w stream_state" where
  "write_last wr frame st =
     (case frame of
        Inl what \<Rightarrow> (Escaped what, st)
      | Inr data \<Rightarrow> (Stream_done, snd (safe_write wr done_frame (snd (safe_write wr data st)))))"

fun stream_loop :: "'j json_api \<Rightarrow> 'j json_text \<Rightarrow> (string \<Rightarrow> 'w \<Rightarrow> bool \<times> 'w) \<Rightarrow> route_context \<Rightarrow> string \<Rightarrow> poll list \<Rightarrow>
    'w stream_state \<Rightarrow> stream_end \<times> 'w stream_state" where
  "stream_loop J T wr ctx i [] st = (Still_polling, st)"
| "stream_loop J T wr ctx i (Waited ended idle # ps) st =
     (if ended then (Stream_done, st)
      else if stream_idle_timeout_sec ctx > 0 \<and> idle > seconds (stream_idle_timeout_sec ctx)
      then write_last wr (error_frame J T ''Stream idle timeout - no tokens received'' ''timeout'' ''stream_idle_timeout'')
             (st\<lparr>request_cancelled := True\<rparr>)
      else stream_loop J T wr ctx i ps st)"
| "stream_loop J T wr ctx i (Got e created # ps) st =
     (case ev_type e of
        Token \<Rightarrow>
          if ev_text e = '''' then stream_loop J T wr ctx i ps st
          else (case chunk_frame J T (stream_chunk i (ctx_model_name ctx) created
                       (empty_delta\<lparr>delta_content := Some (ev_text e)\<rparr>) None) of
                  Inl what \<Rightarrow> (Escaped what, st)
                | Inr data \<Rightarrow>
                    (case safe_write wr data st of (ok, st') \<Rightarrow>
                       if ok then stream_loop J T wr ctx i ps st' else (Client_gone, st')))
      | Complete \<Rightarrow>
          write_last wr (chunk_frame J T (stream_chunk i (ctx_model_name ctx) created empty_delta
            (Some (ev_finish_reason e)))) st
      | Error \<Rightarrow>
          write_last wr (case ev_error e of
             Some err \<Rightarrow> error_frame J T (message err) ''error'' (code err)
           | None \<Rightarrow> error_frame J T ''Internal error'' ''error'' ''internal_error'') st)"

text \<open>
  The content provider: the chunk with the role, the submission, the loop. It returns whether the client
  stayed; \<open>submit\<close> answers \<open>submitted\<close>.
\<close>

definition stream_provider :: "'j json_api \<Rightarrow> 'j json_text \<Rightarrow> (string \<Rightarrow> 'w \<Rightarrow> bool \<times> 'w) \<Rightarrow> route_context \<Rightarrow> string \<Rightarrow> int64 \<Rightarrow>
    unit result \<Rightarrow> poll list \<Rightarrow> 'w stream_state \<Rightarrow> (bool json_result option) \<times> 'w stream_state" where
  "stream_provider J T wr ctx i created submitted polls st =
     (case chunk_frame J T (stream_chunk i (ctx_model_name ctx) created (empty_delta\<lparr>delta_role := Some Assistant\<rparr>) None) of
        Inl what \<Rightarrow> (Some (Inl what), st)
      | Inr data \<Rightarrow>
          (case safe_write wr data st of (ok, st1) \<Rightarrow>
             if \<not> ok then (Some (Inr False), st1)
             else (case submitted of
                Inl e \<Rightarrow> (Some (Inr False), st1)
              | Inr _ \<Rightarrow>
                  (case stream_loop J T wr ctx i polls st1 of
                     (Still_polling, st2) \<Rightarrow> (None, st2)
                   | (Escaped what, st2) \<Rightarrow> (Some (Inl what), st2)
                   | (Stream_done, st2) \<Rightarrow> (Some (Inr True), st2)
                   | (Client_gone, st2) \<Rightarrow> (Some (Inr False), st2)))))"

section \<open>A prepared request\<close>

lemma sint_plus_nowrap:
  fixes a b :: "32 word"
  assumes "- (2 ^ 31) \<le> sint a + sint b" and "sint a + sint b < 2 ^ 31"
  shows "sint (a + b) = sint a + sint b"
  using assms by (simp add: sint_word_ariths signed_take_bit_int_eq_self)

lemma sint_minus_nowrap:
  fixes a b :: "32 word"
  assumes "- (2 ^ 31) \<le> sint a - sint b" and "sint a - sint b < 2 ^ 31"
  shows "sint (a - b) = sint a - sint b"
  using assms by (simp add: sint_word_ariths signed_take_bit_int_eq_self)

lemma fit_context_room:
  assumes "fit_context cfg n q = Inr q'" and "req_max_tokens q = Some m" and "1 \<le> sint m" "sint m \<le> sint (max_completion_tokens cfg)"
    and "0 \<le> sint n" and "sint (max_context_length cfg) + sint (max_completion_tokens cfg) < 2 ^ 31"
  shows "\<exists>m'. q' = q\<lparr>req_max_tokens := Some m'\<rparr> \<and> 1 \<le> sint m' \<and> sint m' \<le> sint (max_completion_tokens cfg) \<and>
    sint n + sint m' \<le> sint (max_context_length cfg)"
proof -
  let ?c = "max_context_length cfg"
  have ctx: "sint n \<le> sint ?c" using assms(1) by (auto simp: fit_context_def Let_def split: if_splits)
  have sum: "sint (n + m) = sint n + sint m" by (rule sint_plus_nowrap) (use assms ctx in linarith)+
  have room: "sint (?c - n) = sint ?c - sint n"
    by (rule sint_minus_nowrap) (use assms ctx sint_lt [of ?c] in \<open>simp_all, linarith?\<close>)
  show ?thesis
  proof (cases "sint n + sint m > sint ?c")
    case True
    then have "q' = q\<lparr>req_max_tokens := Some (?c - n)\<rparr>" "1 \<le> sint (?c - n)"
      using assms(1,2) ctx sum by (auto simp: fit_context_def Let_def opt_or_def split: if_splits)
    then show ?thesis using True room assms(4) by (intro exI [of _ "?c - n"]) simp
  next
    case False
    then have "q' = q" using assms(1,2) ctx sum by (auto simp: fit_context_def Let_def opt_or_def split: if_splits)
    then show ?thesis using False assms(2-4) by (intro exI [of _ m]) simp
  qed
qed

text \<open>The configuration a validator can serve: its default limit is in range and no sum of limits overflows.\<close>

definition limits_ok :: "validation_config \<Rightarrow> bool" where
  "limits_ok cfg \<longleftrightarrow> 1 \<le> sint (default_max_tokens cfg) \<and> sint (default_max_tokens cfg) \<le> sint (max_completion_tokens cfg) \<and>
     sint (max_context_length cfg) + sint (max_completion_tokens cfg) < 2 ^ 31"

lemma defaults_max_tokens:
  assumes "validate cfg q = Inr u" and "limits_ok cfg"
  shows "\<exists>m. req_max_tokens (apply_defaults cfg q) = Some m \<and> 1 \<le> sint m \<and> sint m \<le> sint (max_completion_tokens cfg)"
  using assms by (cases "req_max_tokens q") (auto simp: validate_def result_iff apply_defaults_def Let_def limits_ok_def)

text \<open>
  C10. A request that passes the preparation of the chat handler is well formed for the scheduler: it is in
  its initial state with an open, empty token queue, its prompt is the one the builder made, it may
  produce at least one token, at most the completion limit, and prompt and completion together fit the
  context.
\<close>

theorem prepared_request_fits:
  assumes "prepare_chat J T cfg tok pcfg body = Some (Inr (q, p))" and "limits_ok cfg"
    and "length (token_ids p) < 2 ^ 31" and "r = chat_request ts rp now i q p"
  shows "1 \<le> sint (max_tokens r) \<and> sint (max_tokens r) \<le> sint (max_completion_tokens cfg) \<and>
    int (length (input_tokens r)) + sint (max_tokens r) \<le> sint (max_context_length cfg) \<and>
    input_tokens r = token_ids p \<and> formatted_prompt r = formatted_text p \<and>
    state r = Received \<and> output_tokens r = [] \<and> kv_cache r = empty_handle \<and> \<not> is_cancelled r \<and>
    token_queue r = Some (mk_token_queue 1024)"
proof -
  from assms(1) obtain q0 u where q0: "parse_chat J T body = Inr q0" "validate cfg q0 = Inr u"
    and fit: "fit_context cfg (to_int32 (sz (token_ids p))) (apply_defaults cfg q0) = Inr q"
    by (auto simp: prepare_chat_def Let_def split: sum.splits option.splits)
  obtain m where m: "req_max_tokens (apply_defaults cfg q0) = Some m" "1 \<le> sint m" "sint m \<le> sint (max_completion_tokens cfg)"
    using defaults_max_tokens [OF q0(2) assms(2)] by blast
  have n: "sint (to_int32 (sz (token_ids p))) = int (length (token_ids p))" using sint_int32_size [OF assms(3)] .
  obtain m' where m': "q = (apply_defaults cfg q0)\<lparr>req_max_tokens := Some m'\<rparr>" "1 \<le> sint m'"
      "sint m' \<le> sint (max_completion_tokens cfg)" "int (length (token_ids p)) + sint m' \<le> sint (max_context_length cfg)"
    using fit_context_room [OF fit m] n assms(2) by (auto simp: limits_ok_def)
  show ?thesis
    using m' by (simp add: assms(4) chat_request_def make_request_def opt_or_def is_cancelled_def
        make_cancellation_token_def token_is_cancelled_def)
qed

section \<open>What a stream contains\<close>

text \<open>A printer that never throws, and a sink that keeps what it is given.\<close>

definition prints :: "'j json_text \<Rightarrow> ('j \<Rightarrow> string) \<Rightarrow> bool" where
  "prints T txt \<longleftrightarrow> (\<forall>j. jt_dump T j = Inr (txt j))"

definition keep_all :: "string \<Rightarrow> string list \<Rightarrow> bool \<times> string list" where
  "keep_all data w = (True, w @ [data])"

text \<open>A poll that ends nothing: a token, or a wait on a request that goes on and is not idle for too long.\<close>

fun undecided :: "uint32 \<Rightarrow> poll \<Rightarrow> bool" where
  "undecided secs (Waited ended t) \<longleftrightarrow> \<not> ended \<and> \<not> (secs > 0 \<and> t > seconds secs)"
| "undecided secs (Got e _) \<longleftrightarrow> ev_type e = Token"

fun token_frames :: "'j json_api \<Rightarrow> ('j \<Rightarrow> string) \<Rightarrow> string \<Rightarrow> string \<Rightarrow> poll list \<Rightarrow> string list" where
  "token_frames J txt i name [] = []"
| "token_frames J txt i name (Waited _ _ # ps) = token_frames J txt i name ps"
| "token_frames J txt i name (Got e created # ps) =
     (if ev_text e = '''' then []
      else [sse_frame (txt (chunk_to_json J (stream_chunk i name created (empty_delta\<lparr>delta_content := Some (ev_text e)\<rparr>) None)))]) @
     token_frames J txt i name ps"

definition terminal_frame :: "'j json_api \<Rightarrow> ('j \<Rightarrow> string) \<Rightarrow> string \<Rightarrow> string \<Rightarrow> token_event \<Rightarrow> int64 \<Rightarrow> string" where
  "terminal_frame J txt i name e created =
     (if ev_type e = Complete
      then sse_frame (txt (chunk_to_json J (stream_chunk i name created empty_delta (Some (ev_finish_reason e)))))
      else (let err = (case ev_error e of Some err \<Rightarrow> err | None \<Rightarrow> internal ''Internal error'')
            in sse_frame (txt (j_object J [(''error'', j_object J [(''message'', j_string J (message err)),
                 (''type'', j_string J ''error''), (''code'', j_string J (code err))])]))))"

lemma prints_dump: "prints T txt \<Longrightarrow> jt_dump T j = Inr (txt j)"
  by (simp add: prints_def)

lemma chunk_frame_prints: "prints T txt \<Longrightarrow> chunk_frame J T c = Inr (sse_frame (txt (chunk_to_json J c)))"
  by (simp add: chunk_frame_def prints_def)

lemma stream_loop_undecided:
  assumes "prints T txt" and "\<forall>x \<in> set pre. undecided (stream_idle_timeout_sec ctx) x"
  shows "stream_loop J T keep_all ctx i (pre @ ps) \<lparr>sink = w, request_cancelled = c\<rparr> =
    stream_loop J T keep_all ctx i ps \<lparr>sink = w @ token_frames J txt i (ctx_model_name ctx) pre, request_cancelled = c\<rparr>"
  using assms(2)
proof (induction pre arbitrary: w)
  case (Cons x pre)
  then show ?case
    by (cases x) (auto simp: chunk_frame_prints [OF assms(1)] safe_write_def keep_all_def)
qed simp

lemma stream_loop_terminal:
  assumes "prints T txt" and "ev_type e \<noteq> Token"
  shows "stream_loop J T keep_all ctx i (Got e created # ps) \<lparr>sink = w, request_cancelled = c\<rparr> =
    (Stream_done, \<lparr>sink = w @ [terminal_frame J txt i (ctx_model_name ctx) e created, done_frame], request_cancelled = c\<rparr>)"
proof -
  have last: "write_last keep_all (Inr data) st = (Stream_done, st\<lparr>sink := sink st @ [data, done_frame]\<rparr>)" for data st
    by (simp add: write_last_def safe_write_def keep_all_def)
  consider "ev_type e = Complete" | "ev_type e = Error" using assms(2) by (cases "ev_type e") simp_all
  then show ?thesis
  proof cases
    case 1
    then show ?thesis by (simp add: chunk_frame_prints [OF assms(1)] last terminal_frame_def)
  next
    case 2
    then show ?thesis
      by (cases "ev_error e")
        (simp_all add: error_frame_def prints_dump [OF assms(1)] last terminal_frame_def internal_def mk_error_def)
  qed
qed


section \<open>A client that leaves\<close>

text \<open>A sink that logs every attempt with its outcome.\<close>

definition logging :: "(string \<Rightarrow> 'w \<Rightarrow> bool \<times> 'w) \<Rightarrow> string \<Rightarrow> 'w \<times> (string \<times> bool) list \<Rightarrow> bool \<times> 'w \<times> (string \<times> bool) list" where
  "logging wr data w = (case wr data (fst w) of (ok, w') \<Rightarrow> (ok, w', snd w @ [(data, ok)]))"

text \<open>
  What the loop adds to the log: successful writes, then either nothing, or the one failure that ended it,
  or the last two writes; after a failure the request is cancelled.
\<close>

definition log_grows :: "('w \<times> (string \<times> bool) list) stream_state \<Rightarrow> stream_end \<Rightarrow> ('w \<times> (string \<times> bool) list) stream_state \<Rightarrow> bool" where
  "log_grows st fin st' \<longleftrightarrow> (\<exists>a b. snd (sink st') = snd (sink st) @ a @ b \<and> (\<forall>x \<in> set a. snd x) \<and> length b \<le> 2 \<and>
     ((\<exists>x \<in> set b. \<not> snd x) \<longrightarrow> request_cancelled st') \<and>
     (fin = Client_gone \<longrightarrow> (\<exists>d. b = [(d, False)])))"

lemma log_grows_same: "fin \<noteq> Client_gone \<Longrightarrow> sink st' = sink st \<Longrightarrow> log_grows st fin st'"
  unfolding log_grows_def by (intro exI [of _ "[]"]) simp

lemma log_grows_last:
  assumes "sink st1 = sink st"
  shows "log_grows st (fst (write_last (logging wr) frame st1)) (snd (write_last (logging wr) frame st1))"
proof (cases frame)
  case (Inl what)
  then show ?thesis using assms by (simp add: write_last_def log_grows_same)
next
  case (Inr data)
  obtain ok w where 1: "wr data (fst (sink st1)) = (ok, w)" by fastforce
  obtain ok' w' where 2: "wr done_frame w = (ok', w')" by fastforce
  show ?thesis
    unfolding log_grows_def using Inr 1 2 assms
    by (intro exI [of _ "[]"] exI [of _ "[(data, ok), (done_frame, ok')]"]) (simp add: write_last_def safe_write_def logging_def)
qed

lemma log_grows_write:
  assumes "safe_write (logging wr) data st = (True, st1)" and "log_grows st1 fin st'"
  shows "log_grows st fin st'"
proof -
  have "snd (sink st1) = snd (sink st) @ [(data, True)]"
    using assms(1) by (auto simp: safe_write_def logging_def split: prod.splits)
  moreover from assms(2) obtain a b where "snd (sink st') = snd (sink st1) @ a @ b" "\<forall>x \<in> set a. snd x" "length b \<le> 2"
      "(\<exists>x \<in> set b. \<not> snd x) \<longrightarrow> request_cancelled st'" "fin = Client_gone \<longrightarrow> (\<exists>d. b = [(d, False)])"
    by (auto simp: log_grows_def)
  ultimately show ?thesis unfolding log_grows_def by (intro exI [of _ "(data, True) # a"] exI [of _ b]) simp
qed

lemma log_grows_gone:
  "safe_write (logging wr) data st = (False, st1) \<Longrightarrow> log_grows st Client_gone st1 \<and> request_cancelled st1"
  unfolding log_grows_def
  by (intro conjI exI [of _ "[]"] exI [of _ "[(data, False)]"]) (auto simp: safe_write_def logging_def split: prod.splits)

lemma stream_loop_log:
  "stream_loop J T (logging wr) ctx i ps st = (fin, st') \<Longrightarrow> log_grows st fin st'"
proof (induction ps arbitrary: st)
  case (Cons x ps)
  show ?case
  proof (cases x)
    case (Waited ended idle)
    then show ?thesis
      using Cons log_grows_last [of "st\<lparr>request_cancelled := True\<rparr>" st wr
          "error_frame J T ''Stream idle timeout - no tokens received'' ''timeout'' ''stream_idle_timeout''"]
      by (auto simp: log_grows_same split: if_splits)
  next
    case (Got e created)
    have last: "log_grows st fin st'" if "write_last (logging wr) frame st = (fin, st')" for frame
      using log_grows_last [of st st wr frame] that by simp
    show ?thesis
      using Cons Got last
      by (cases "ev_type e") (auto simp: log_grows_same split: if_splits sum.splits prod.splits
          dest: log_grows_gone log_grows_write)
  qed
qed (auto simp: log_grows_same)

lemma log_grows_empty:
  assumes "log_grows \<lparr>sink = (w, []), request_cancelled = False\<rparr> fin st'"
  shows "\<exists>a b. snd (sink st') = a @ b \<and> (\<forall>x \<in> set a. snd x) \<and> length b \<le> 2 \<and>
    ((\<exists>x \<in> set b. \<not> snd x) \<longrightarrow> request_cancelled st') \<and> (fin = Client_gone \<longrightarrow> (\<exists>d. b = [(d, False)]))"
  using assms by (simp add: log_grows_def)

text \<open>
  C25. A client that leaves, whatever the sink: every write before the last two attempts succeeded, so
  nothing is sent after a failed write except the end marker of a finished stream; a failed write cancels
  the request; and when the provider reports a lost client after a successful submission, the last
  attempt is the failed one.
\<close>

theorem stream_stops_at_lost_client:
  assumes "stream_provider J T (logging wr) ctx i created (Inr ()) polls \<lparr>sink = (w, []), request_cancelled = False\<rparr> = (answer, st')"
  shows "\<exists>a b. snd (sink st') = a @ b \<and> (\<forall>x \<in> set a. snd x) \<and> length b \<le> 2 \<and>
    ((\<exists>x \<in> set b. \<not> snd x) \<longrightarrow> request_cancelled st') \<and> (answer = Some (Inr False) \<longrightarrow> (\<exists>d. b = [(d, False)]))"
proof -
  let ?st = "\<lparr>sink = (w, []), request_cancelled = False\<rparr>"
  let ?c = "chunk_frame J T (stream_chunk i (ctx_model_name ctx) created (empty_delta\<lparr>delta_role := Some Assistant\<rparr>) None)"
  show ?thesis
  proof (cases ?c)
    case (Inl what)
    then show ?thesis using assms by (intro exI [of _ "[]"]) (auto simp: stream_provider_def)
  next
    case (Inr data)
    obtain ok st1 where w1: "safe_write (logging wr) data ?st = (ok, st1)" by fastforce
    show ?thesis
    proof (cases ok)
      case False
      then have "log_grows ?st Client_gone st1" using log_grows_gone [of wr data ?st st1] w1 by simp
      then show ?thesis using log_grows_empty [of w Client_gone st1] assms Inr w1 False by (auto simp: stream_provider_def)
    next
      case True
      obtain fin st2 where loop: "stream_loop J T (logging wr) ctx i polls st1 = (fin, st2)" by fastforce
      have "log_grows ?st fin st2"
        using log_grows_write [of wr data ?st st1 fin st2] stream_loop_log [OF loop] w1 True by simp
      then show ?thesis
        using log_grows_empty [of w fin st2] assms Inr w1 True loop by (cases fin) (auto simp: stream_provider_def)
    qed
  qed
qed

section \<open>The blocking answer\<close>

lemma await_result_undecided:
  "\<forall>x \<in> set pre. undecided secs x \<Longrightarrow> await_result secs (pre @ ps) = await_result secs ps"
proof (induction pre)
  case (Cons x pre)
  then show ?case by (cases x) auto
qed simp

text \<open>The error that a decisive poll leads to, given the request as the scheduler left it.\<close>

fun verdict :: "error option \<Rightarrow> poll \<Rightarrow> error option" where
  "verdict recorded (Waited ended t) = (if ended then recorded else Some (timeout ''Request timed out''))"
| "verdict recorded (Got e _) = (if ev_type e = Complete \<or> ev_error e = None then recorded else ev_error e)"

lemma await_result_decided:
  assumes "\<not> undecided secs x"
  shows "\<exists>err c. await_result secs (x # ps) = Some (err, c) \<and>
    (case err of Some e \<Rightarrow> Some e | None \<Rightarrow> recorded) = verdict recorded x"
proof (cases x)
  case (Got e ts)
  then show ?thesis using assms by (cases "ev_type e") (auto split: option.splits)
next
  case (Waited ended t)
  then show ?thesis using assms by (cases ended) auto
qed

definition json_answer :: "string \<Rightarrow> http_response \<Rightarrow> http_response" where
  "json_answer body res = res\<lparr>res_content := Some (body, ''application/json'')\<rparr>"

lemma send_error_prints:
  "prints T txt \<Longrightarrow> send_error J T status err res =
     Inr (json_answer (txt (error_response_to_json J err)) (res\<lparr>res_status := Some status\<rparr>))"
  by (simp add: send_error_def send_json_def set_content_def prints_dump json_answer_def)

lemma send_json_prints: "prints T txt \<Longrightarrow> send_json T j res = Inr (json_answer (txt j) res)"
  by (simp add: send_json_def set_content_def prints_dump json_answer_def)


section \<open>Witnesses\<close>

text \<open>A printer for the reference JSON values, without escapes, and a parser that knows one body.\<close>

fun show_json :: "json \<Rightarrow> string" where
  "show_json JNull = ''null''"
| "show_json (JBool b) = (if b then ''true'' else ''false'')"
| "show_json (JInt i) = (if i < 0 then ''-'' @ nat_to_string (nat (- i)) else nat_to_string (nat i))"
| "show_json (JDouble x) = fixed 6 x"
| "show_json (JString s) = CHR 0x22 # s @ [CHR 0x22]"
| "show_json (JArray js) = ''['' @ concat (map (\<lambda>j. show_json j @ '','') js) @ '']''"
| "show_json (JObject ps) = ''{'' @ concat (map (\<lambda>p. fst p @ '':'' @ show_json (snd p) @ '','') ps) @ ''}''"

definition demo_body :: json where
  "demo_body = JObject [(''model'', JString ''qwen2.5-32b-instruct''),
     (''messages'', JArray [JObject [(''role'', JString ''user''), (''content'', JString ''hi'')]]),
     (''max_tokens'', JInt 8000)]"

definition demo_text :: "json json_text" where
  "demo_text = \<lparr>jt_parse = (\<lambda>_. Inr demo_body), jt_dump = (\<lambda>j. Inr (show_json j))\<rparr>"

lemma demo_prints: "prints demo_text show_json"
  by (simp add: prints_def demo_text_def)

lemma demo_build:
  assumes "msg_role m = User" and "content m = ''hi''"
  shows "\<exists>p. build (Some (minimal_tokenizer no_files)) default_prompt_config [m] True = Some (Inr p) \<and> length (token_ids p) = 21"
proof -
  let ?t = "minimal_tokenizer no_files"
  have q: "qwen_specials ?t" "initialized ?t" by (simp_all add: minimal_tokenizer_fields)
  have p: "\<forall>m' \<in> set [m]. plain ?t (content m')" "plain ?t ''''"
    using q(1) assms by (simp_all add: plain_def qwen_specials_def sublist_Cons_right)
  have "tokenize ?t (build_formatted_prompt default_prompt_config [m] True) = Some (prompt_tokens_of ?t [m] True)"
    using tokenize_frames [OF q(1) p(2,1), of True]
    by (simp add: build_formatted_with_system default_prompt_config_def with_system_def tokenize_chunk_def)
  moreover have "length (prompt_tokens_of ?t [m] True) = 21"
    using assms by (simp add: prompt_tokens_of_def frame_tokens_def minimal_chunk role_to_string_def nl_def)
  ultimately show ?thesis using q(2) by (simp add: build_def encode_def Let_def default_prompt_config_def)
qed

definition small_context :: validation_config where
  "small_context = default_validation_config\<lparr>max_context_length := 1000\<rparr>"

text \<open>A body that asks for 8000 tokens on a context of 1000.\<close>

lemma demo_prepare:
  "\<exists>q p. prepare_chat json_ref demo_text small_context (Some (minimal_tokenizer no_files)) default_prompt_config ''''
     = Some (Inr (q, p)) \<and> length (token_ids p) = 21 \<and> req_max_tokens q = Some 979"
proof -
  let ?m = "\<lparr>msg_role = User, content = ''hi'', msg_name = None, tool_calls = None, tool_call_id = None\<rparr> :: json chat_message"
  obtain p where p: "build (Some (minimal_tokenizer no_files)) default_prompt_config [?m] True = Some (Inr p)"
      "length (token_ids p) = 21" using demo_build [of ?m] by auto
  let ?q = "\<lparr>req_model = ''qwen2.5-32b-instruct'', messages = [?m], req_temperature = None, req_top_p = None,
     req_max_tokens = Some 8000, req_stop = None, stream = False, req_seed = None, tools = None, presence_penalty = None,
     frequency_penalty = None, user = None\<rparr>"
  have "parse_chat json_ref demo_text '''' = Inr ?q"
    by (simp add: parse_chat_def demo_text_def demo_body_def request_from_json_def json_ref_def json_at_def json_members_def
        json_string_of_def json_value_def json_int_of_def json_bool_of_def opt_field_def stop_from_json_def tools_from_json_def
        message_from_json_def string_to_role_def)
  moreover have "validate small_context ?q = Inr ()"
    by (simp add: validate_def result_iff small_context_def default_validation_config_def lower_def tolower_def)
  ultimately show ?thesis
    using p by (simp add: prepare_chat_def apply_defaults_def fit_context_def opt_or_def small_context_def
        default_validation_config_def Let_def default_prompt_config_def)
qed

theorem prepared_request_fits_witness:
  "\<exists>q p. let r = chat_request 1 2 3 ''trace'' q p in
     prepare_chat json_ref demo_text small_context (Some (minimal_tokenizer no_files)) default_prompt_config '''' = Some (Inr (q, p)) \<and>
     max_tokens r = 979 \<and> int (length (input_tokens r)) + sint (max_tokens r) \<le> 1000"
proof -
  obtain q p where prep: "prepare_chat json_ref demo_text small_context (Some (minimal_tokenizer no_files)) default_prompt_config ''''
      = Some (Inr (q, p))" "length (token_ids p) = 21" "req_max_tokens q = Some 979" using demo_prepare by blast
  have "limits_ok small_context" by (simp add: limits_ok_def small_context_def default_validation_config_def)
  then show ?thesis
    using prepared_request_fits [OF prep(1) _ _ refl, of 1 2 3 "''trace''"] prep
    by (auto simp: Let_def small_context_def chat_request_def make_request_def opt_or_def)
qed

definition demo_event :: "token_event_type \<Rightarrow> string \<Rightarrow> token_event" where
  "demo_event k txt = (token_event_init k)\<lparr>ev_text := txt, ev_finish_reason := Stop\<rparr>"

lemma demo_event_fields: "ev_type (demo_event k txt) = k" "ev_text (demo_event k txt) = txt" "ev_error (demo_event k txt) = None"
  by (simp_all add: demo_event_def token_event_init_def)


text \<open>A client that reads two frames and goes.\<close>

definition two_frames :: "string \<Rightarrow> nat \<Rightarrow> bool \<times> nat" where
  "two_frames data n = (n < 2, Suc n)"

theorem stream_stops_at_lost_client_witness:
  "\<exists>st' a b. stream_provider json_ref demo_text (logging two_frames) (default_route_context ''m'') ''id'' 0 (Inr ())
       [Got (demo_event Token ''a'') 1, Got (demo_event Token ''b'') 2, Got (demo_event Token ''c'') 3]
       \<lparr>sink = (0, []), request_cancelled = False\<rparr> = (Some (Inr False), st') \<and>
     snd (sink st') = a @ b \<and> length b = 1 \<and> request_cancelled st'"
proof -
  let ?run = "stream_provider json_ref demo_text (logging two_frames) (default_route_context ''m'') ''id'' 0 (Inr ())
       [Got (demo_event Token ''a'') 1, Got (demo_event Token ''b'') 2, Got (demo_event Token ''c'') 3]
       \<lparr>sink = (0, []), request_cancelled = False\<rparr>"
  have run: "\<exists>st'. ?run = (Some (Inr False), st')"
    by (simp add: stream_provider_def chunk_frame_prints [OF demo_prints] safe_write_def logging_def two_frames_def
        demo_event_fields)
  then obtain st' where st': "?run = (Some (Inr False), st')" by blast
  from stream_stops_at_lost_client [OF st'] show ?thesis using st' by fastforce
qed


end
