(* ===== verification/Null_Backend.thy ===== *)
theory Null_Backend
  imports Sampler
begin

text \<open>
  \<^verbatim>\<open>src/backend/null_backend.cpp\<close>: the runtime that \<open>main\<close> installs. It answers with made-up logits:
  a strong preference for the next token of a preset sequence, or ten random entries among the first
  1001 and sometimes the end-of-sequence token. Writing outside the logits, and resizing them to a
  negative length, is \<^const>\<open>None\<close>. The simulated delays are left out.
\<close>

section \<open>State\<close>

record 'g null_backend =
  nb_config :: model_config
  nb_loaded :: bool
  nb_rng :: 'g
  output_sequence :: "int32 list"
  output_index :: size_t

definition NULL_EOS :: int32 where "NULL_EOS = 151645"
definition NULL_PAD :: int32 where "NULL_PAD = 151643"

definition new_null_backend :: "'g std_random \<Rightarrow> 'g null_backend" where
  "new_null_backend R = \<lparr>nb_config = default_model_config, nb_loaded = False, nb_rng = seed_rng R 42,
     output_sequence = [], output_index = 0\<rparr>"

definition nb_initialize :: "model_config \<Rightarrow> 'g null_backend \<Rightarrow> unit result \<times> 'g null_backend" where
  "nb_initialize cfg s = (Inr (), s\<lparr>nb_config := cfg\<rparr>)"

definition nb_load_model :: "'g null_backend \<Rightarrow> unit result \<times> 'g null_backend" where
  "nb_load_model s = (Inr (), s\<lparr>nb_loaded := True\<rparr>)"

definition nb_unload_model :: "'g null_backend \<Rightarrow> 'g null_backend" where
  "nb_unload_model s = s\<lparr>nb_loaded := False\<rparr>"

definition nb_vocab_size :: "'g null_backend \<Rightarrow> int32" where
  "nb_vocab_size s = mc_vocab_size (nb_config s)"

definition nb_set_seed :: "'g std_random \<Rightarrow> uint64 \<Rightarrow> 'g null_backend \<Rightarrow> 'g null_backend" where
  "nb_set_seed R seed s = s\<lparr>nb_rng := seed_rng R (ucast seed), output_index := 0\<rparr>"

definition nb_set_output_sequence :: "int32 list \<Rightarrow> 'g null_backend \<Rightarrow> 'g null_backend" where
  "nb_set_output_sequence toks s = s\<lparr>output_sequence := toks, output_index := 0\<rparr>"

section \<open>Logits\<close>

text \<open>\<open>logits.data[i] = v\<close>\<close>

definition write_logit :: "int \<Rightarrow> real \<Rightarrow> real list \<Rightarrow> real list option" where
  "write_logit i v ls = (if 0 \<le> i \<and> i < int (length ls) then Some (ls[nat i := v]) else None)"

text \<open>The loop of ten draws, from its \<open>i\<close>-th iteration on.\<close>

fun random_logits :: "'g std_random \<Rightarrow> nat \<Rightarrow> nat \<Rightarrow> real list \<Rightarrow> 'g \<Rightarrow> (real list \<times> 'g) option" where
  "random_logits R i 0 ls g = Some (ls, g)"
| "random_logits R i (Suc n) ls g =
     (case draw_int R 0 1000 g of (t, g') \<Rightarrow>
        (case write_logit t (5 - real i * (1/2)) ls of
           None \<Rightarrow> None
         | Some ls' \<Rightarrow> random_logits R (Suc i) n ls' g'))"

definition generate_fake_logits :: "'g std_random \<Rightarrow> int32 \<Rightarrow> 'g null_backend \<Rightarrow> (logits \<times> 'g null_backend) option" where
  "generate_fake_logits R preferred s =
     (let v = mc_vocab_size (nb_config s); base = replicate (nat (sint v)) (- 10)
      in if sint v < 0 then None
         else if sint preferred \<ge> 0 \<and> sint preferred < sint v
         then (case write_logit (sint preferred) 10 base of
                 None \<Rightarrow> None | Some ls \<Rightarrow> Some (\<lparr>logit_data = ls, logits_vocab_size = v\<rparr>, s))
         else (case random_logits R 0 10 base (nb_rng s) of
                 None \<Rightarrow> None
               | Some (ls, g) \<Rightarrow>
                   (case draw_unit R g of (x, g') \<Rightarrow>
                      (case if x < 1/100 then write_logit (sint NULL_EOS) 10 ls else Some ls of
                         None \<Rightarrow> None
                       | Some ls' \<Rightarrow> Some (\<lparr>logit_data = ls', logits_vocab_size = v\<rparr>, s\<lparr>nb_rng := g'\<rparr>)))))"

section \<open>Prefill and decode\<close>

definition nb_prefill :: "'g std_random \<Rightarrow> prefill_input \<Rightarrow> bool option \<Rightarrow> 'g null_backend \<Rightarrow>
    (prefill_output result \<times> 'g null_backend) option" where
  "nb_prefill R inp cancelled s =
     (if \<not> nb_loaded s then Some (Inl (internal ''Model not loaded''), s)
      else if cancelled = Some True then Some (Inl (internal ''Request cancelled''), s)
      else case generate_fake_logits R (- 1) s of
        None \<Rightarrow> None
      | Some (l, s') \<Rightarrow> Some (Inr \<lparr>pf_logits = l, processed_tokens = pf_seq_len inp\<rparr>, s'))"

text \<open>The next token of the preset sequence, or -1.\<close>

definition next_preferred :: "'g null_backend \<Rightarrow> int32 \<times> 'g null_backend" where
  "next_preferred s =
     (if output_sequence s \<noteq> [] \<and> output_index s < sz (output_sequence s)
      then (output_sequence s ! unat (output_index s), s\<lparr>output_index := output_index s + 1\<rparr>)
      else (- 1, s))"

definition nb_decode_step :: "'g std_random \<Rightarrow> decode_input \<Rightarrow> bool option \<Rightarrow> 'g null_backend \<Rightarrow>
    (decode_output result \<times> 'g null_backend) option" where
  "nb_decode_step R inp cancelled s =
     (if \<not> nb_loaded s then Some (Inl (internal ''Model not loaded''), s)
      else if cancelled = Some True then Some (Inl (internal ''Request cancelled''), s)
      else case next_preferred s of (preferred, s1) \<Rightarrow>
        (case generate_fake_logits R preferred s1 of
           None \<Rightarrow> None
         | Some (l, s') \<Rightarrow> Some (Inr \<lparr>dec_logits = l\<rparr>, s')))"

text \<open>\<open>decode_batch\<close> stops at the first error and forgets the outputs before it.\<close>

fun nb_decode_batch :: "'g std_random \<Rightarrow> decode_input list \<Rightarrow> bool option \<Rightarrow> 'g null_backend \<Rightarrow>
    (decode_output list result \<times> 'g null_backend) option" where
  "nb_decode_batch R [] cancelled s = Some (Inr [], s)"
| "nb_decode_batch R (inp # inps) cancelled s =
     (case nb_decode_step R inp cancelled s of
        None \<Rightarrow> None
      | Some (Inl e, s1) \<Rightarrow> Some (Inl e, s1)
      | Some (Inr out, s1) \<Rightarrow>
          (case nb_decode_batch R inps cancelled s1 of
             None \<Rightarrow> None
           | Some (Inl e, s2) \<Rightarrow> Some (Inl e, s2)
           | Some (Inr outs, s2) \<Rightarrow> Some (Inr (out # outs), s2)))"

text \<open>The backend as the runtime of the scheduler, where it has a result.\<close>

definition null_runtime :: "'g std_random \<Rightarrow> 'g null_backend model_runtime" where
  "null_runtime R = \<lparr>rt_prefill = (\<lambda>inp c s. the (nb_prefill R inp c s)),
     rt_decode_step = (\<lambda>inp c s. the (nb_decode_step R inp c s))\<rparr>"

section \<open>Inside the vocabulary\<close>

lemma write_logit_Some [result_iff]:
  "write_logit i v ls = Some ls' \<longleftrightarrow> 0 \<le> i \<and> i < int (length ls) \<and> ls' = ls[nat i := v]"
  by (auto simp: write_logit_def)

lemma random_logits_total:
  assumes "random_laws R" and "1000 < length ls"
  shows "\<exists>ls' g'. random_logits R i n ls g = Some (ls', g') \<and> length ls' = length ls"
  using assms(2)
proof (induction n arbitrary: i ls g)
  case (Suc n)
  obtain t g1 where d: "draw_int R 0 1000 g = (t, g1)" by fastforce
  have "0 \<le> t" "t \<le> 1000" using assms(1) d unfolding random_laws_def by (metis fst_conv zero_le_numeral)+
  then have "write_logit t (5 - real i * (1/2)) ls = Some (ls[nat t := 5 - real i * (1/2)])"
    using Suc.prems by (simp add: write_logit_def)
  then show ?case using Suc.IH [of "ls[nat t := 5 - real i * (1/2)]" "Suc i" g1] Suc.prems d by simp
qed simp

lemma sint_NULL_EOS: "sint NULL_EOS = 151645"
  by (simp add: NULL_EOS_def)

lemma generate_total:
  assumes "random_laws R" and "sint NULL_EOS < sint (mc_vocab_size (nb_config s))"
  shows "\<exists>l s'. generate_fake_logits R preferred s = Some (l, s') \<and>
    length (logit_data l) = nat (sint (mc_vocab_size (nb_config s))) \<and> logits_vocab_size l = mc_vocab_size (nb_config s) \<and>
    nb_config s' = nb_config s \<and> nb_loaded s' = nb_loaded s"
proof -
  let ?v = "sint (mc_vocab_size (nb_config s))"
  let ?base = "replicate (nat ?v) (- 10 :: real)"
  have big: "151645 < ?v" using assms(2) by (simp add: sint_NULL_EOS)
  then have "1000 < length ?base" by simp
  from random_logits_total [OF assms(1) this, of 0 10 "nb_rng s"]
  obtain ls g where rl: "random_logits R 0 10 ?base (nb_rng s) = Some (ls, g)" "length ls = nat ?v" by auto
  obtain x g' where u: "draw_unit R g = (x, g')" by fastforce
  show ?thesis
    using big rl u by (auto simp: generate_fake_logits_def Let_def write_logit_def sint_NULL_EOS)
qed

lemma next_preferred_config [simp]:
  "nb_config (snd (next_preferred s)) = nb_config s" "nb_loaded (snd (next_preferred s)) = nb_loaded s"
  by (simp_all add: next_preferred_def)

text \<open>
  A loaded null backend whose vocabulary reaches past the end-of-sequence token never writes outside
  its logits: every prefill and decode step that is not cancelled returns one logit per token.
\<close>

theorem null_backend_in_bounds:
  assumes "random_laws R" and "nb_loaded s" and "151645 < sint (nb_vocab_size s)" and "c \<noteq> Some True"
  shows "(\<exists>out s'. nb_prefill R pin c s = Some (Inr out, s') \<and> nb_loaded s' \<and> nb_config s' = nb_config s \<and>
      length (logit_data (pf_logits out)) = nat (sint (nb_vocab_size s)) \<and> processed_tokens out = pf_seq_len pin) \<and>
    (\<exists>out s'. nb_decode_step R din c s = Some (Inr out, s') \<and> nb_loaded s' \<and> nb_config s' = nb_config s \<and>
      length (logit_data (dec_logits out)) = nat (sint (nb_vocab_size s)))"
proof -
  have v: "sint NULL_EOS < sint (mc_vocab_size (nb_config s))" using assms(3) by (simp add: sint_NULL_EOS nb_vocab_size_def)
  obtain preferred s1 where nxt: "next_preferred s = (preferred, s1)" by fastforce
  then have s1: "nb_config s1 = nb_config s" "nb_loaded s1 = nb_loaded s"
    using next_preferred_config [of s] by simp_all
  show ?thesis
    using generate_total [OF assms(1) v, of "- 1"] generate_total [OF assms(1), of s1 preferred] v s1 nxt assms(2,4)
    by (auto simp: nb_prefill_def nb_decode_step_def nb_vocab_size_def)
qed

section \<open>Replaying a sequence\<close>

lemma max_element_peak:
  assumes "i < n"
  shows "max_element ((replicate n (- 10))[i := 10]) = i"
proof -
  let ?ls = "(replicate n (- 10 :: real))[i := 10]"
  have "?ls ! i \<le> ?ls ! max_element ?ls" using assms by (intro max_element_ge) simp
  moreover have "?ls \<noteq> []" using assms by (metis length_0_conv length_list_update length_replicate not_less0)
  then have "max_element ?ls < n" using max_element_less [of ?ls] by simp
  ultimately show ?thesis using assms by (cases "max_element ?ls = i") (auto simp: nth_list_update)
qed

lemma generate_preferred:
  assumes "0 \<le> sint t" and "sint t < sint (mc_vocab_size (nb_config s))"
  shows "\<exists>l. generate_fake_logits R t s = Some (l, s) \<and> sr_token_id (sample_greedy l) = t"
proof -
  let ?v = "sint (mc_vocab_size (nb_config s))"
  let ?l = "\<lparr>logit_data = (replicate (nat ?v) (- 10))[nat (sint t) := 10], logits_vocab_size = mc_vocab_size (nb_config s)\<rparr>"
  have "generate_fake_logits R t s = Some (?l, s)" using assms by (simp add: generate_fake_logits_def Let_def write_logit_def)
  moreover have "max_element (logit_data ?l) = nat (sint t)" using assms max_element_peak [of "nat (sint t)" "nat ?v"] by simp
  moreover have "(of_nat (nat (sint t)) :: int32) = of_int (sint t)" using assms(1) by (rule of_nat_nat)
  ultimately show ?thesis by (simp add: sample_greedy_def Let_def)
qed

text \<open>Decode steps whose token is chosen greedily.\<close>

fun greedy_run :: "'g std_random \<Rightarrow> nat \<Rightarrow> decode_input \<Rightarrow> 'g null_backend \<Rightarrow> int32 list option" where
  "greedy_run R 0 inp s = Some []"
| "greedy_run R (Suc n) inp s =
     (case nb_decode_step R inp None s of
        Some (Inr out, s') \<Rightarrow> map_option ((#) (sr_token_id (sample_greedy (dec_logits out)))) (greedy_run R n inp s')
      | _ \<Rightarrow> None)"

lemma greedy_run_from:
  assumes "nb_loaded s" and "output_sequence s = toks" and "output_index s = of_nat k" and "k + n = length toks"
    and "length toks < 2 ^ 64" and "\<forall>t \<in> set toks. 0 \<le> sint t \<and> sint t < sint (nb_vocab_size s)"
  shows "greedy_run R n inp s = Some (drop k toks)"
  using assms
proof (induction n arbitrary: k s)
  case (Suc n)
  let ?s1 = "s\<lparr>output_index := of_nat (Suc k)\<rparr>"
  have k: "k < length toks" "unat (of_nat k :: size_t) = k" using Suc.prems(4,5) by (simp_all add: unat_of_nat)
  have "unat (of_nat (length toks) :: size_t) = length toks" using Suc.prems(5) by (simp add: unat_of_nat)
  then have nxt: "next_preferred s = (toks ! k, ?s1)"
    using Suc.prems(2,3) k by (auto simp: next_preferred_def word_less_nat_alt add.commute)
  have "toks ! k \<in> set toks" using k by simp
  then obtain l where l: "generate_fake_logits R (toks ! k) ?s1 = Some (l, ?s1)" "sr_token_id (sample_greedy l) = toks ! k"
    using generate_preferred [of "toks ! k" ?s1 R] Suc.prems(6) by (auto simp: nb_vocab_size_def)
  have "greedy_run R n inp ?s1 = Some (drop (Suc k) toks)"
    using Suc.IH [of ?s1 "Suc k"] Suc.prems by (simp add: nb_vocab_size_def)
  then show ?case
    using l nxt Suc.prems(1) k by (simp add: nb_decode_step_def Cons_nth_drop_Suc)
qed simp

text \<open>
  With a preset output sequence inside the vocabulary, greedy sampling of successive decode steps
  reproduces exactly the sequence.
\<close>

theorem null_backend_replays:
  assumes "nb_loaded s" and "length toks < 2 ^ 64" and "\<forall>t \<in> set toks. 0 \<le> sint t \<and> sint t < sint (nb_vocab_size s)"
  shows "greedy_run R (length toks) inp (nb_set_output_sequence toks s) = Some toks"
  using greedy_run_from [of "nb_set_output_sequence toks s" toks 0 "length toks" R inp] assms
  by (simp add: nb_set_output_sequence_def nb_vocab_size_def)

section \<open>Witnesses\<close>

definition demo_null :: "nat null_backend" where
  "demo_null = snd (nb_load_model (new_null_backend counter_random))"

definition demo_decode_input :: decode_input where
  "demo_decode_input = \<lparr>dec_token = 0, dec_kv_cache = empty_handle, current_pos = 0\<rparr>"

lemma demo_null_fields: "nb_loaded demo_null" "nb_vocab_size demo_null = 152064"
  by (simp_all add: demo_null_def nb_load_model_def new_null_backend_def nb_vocab_size_def default_model_config_def)

theorem null_backend_in_bounds_witness:
  "\<exists>out s'. nb_decode_step counter_random demo_decode_input None demo_null = Some (Inr out, s') \<and>
     length (logit_data (dec_logits out)) = 152064"
  using null_backend_in_bounds [OF counter_random_laws demo_null_fields(1), of None undefined demo_decode_input] demo_null_fields
  by auto

theorem null_backend_replays_witness:
  "greedy_run counter_random 3 demo_decode_input (nb_set_output_sequence [9906, 11, 1879] demo_null) = Some [9906, 11, 1879]"
  using null_backend_replays [OF demo_null_fields(1), of "[9906, 11, 1879]" counter_random demo_decode_input] demo_null_fields
  by (simp add: numeral_3_eq_3)

end
