(* ===== verification/Server_Main.thy ===== *)
theory Server_Main
  imports Routes Scheduler Null_Backend
begin

text \<open>
  \<^verbatim>\<open>src/main.cpp\<close>: the configuration, the command line, the environment and the start of the server.
  The JSON library, the file system and the environment are parameters. Messages on the error stream and
  log lines are left out; an early \<open>return 1\<close> is \<open>Exit 1\<close>.
\<close>

section \<open>Configuration\<close>

record api_config =
  host :: string
  port :: int32
  num_threads :: int32
  max_request_size :: size_t
  read_timeout_sec :: int32
  write_timeout_sec :: int32
  enable_cors :: bool
  api_model_name :: string

record logger_config =
  log_level :: string
  log_output :: string
  log_file_path :: string
  json_format :: bool
  max_file_size :: size_t
  max_files :: size_t

record server_configuration =
  sc_api :: api_config
  sc_scheduler :: scheduler_config
  sc_model :: model_config
  sc_kv_cache :: kv_allocator_config
  sc_kv_pool :: pooled_allocator_config
  use_pooled_allocator :: bool
  sc_gpu :: device_manager_config
  sc_logging :: logger_config

definition default_api_config :: api_config where
  "default_api_config = \<lparr>host = ''0.0.0.0'', port = 8080, num_threads = 4, max_request_size = 10485760,
     read_timeout_sec = 300, write_timeout_sec = 300, enable_cors = True, api_model_name = ''qwen2.5-32b-instruct''\<rparr>"

definition default_logger_config :: logger_config where
  "default_logger_config = \<lparr>log_level = ''info'', log_output = ''console'', log_file_path = ''server.log'',
     json_format = True, max_file_size = 104857600, max_files = 5\<rparr>"

definition default_server_configuration :: server_configuration where
  "default_server_configuration = \<lparr>sc_api = default_api_config, sc_scheduler = default_scheduler_config,
     sc_model = default_model_config, sc_kv_cache = default_kv_config,
     sc_kv_pool = \<lparr>slot_size_tokens = 16384, num_slots = 8, allow_overflow = True\<rparr>,
     use_pooled_allocator = True, sc_gpu = default_device_config, sc_logging = default_logger_config\<rparr>"

fun first_negative :: "int32 list \<Rightarrow> int32 option" where
  "first_negative [] = None"
| "first_negative (d # ds) = (if sint d < 0 then Some d else first_negative ds)"

text \<open>The empty string means valid.\<close>

definition validate_config :: "server_configuration \<Rightarrow> bool \<Rightarrow> string" where
  "validate_config cfg require_model_path =
     (let p = sint (port (sc_api cfg))
      in if p \<le> 0 \<or> p > 65535 then ''Invalid port: '' @ int_to_string p @ '' (must be 1-65535)''
         else if max_queue_size (sc_scheduler cfg) = 0 then ''max_queue_size must be > 0''
         else if max_active_requests (sc_scheduler cfg) = 0 then ''max_active_requests must be > 0''
         else if sint (mc_max_seq_len (sc_model cfg)) \<le> 0 then ''max_seq_len must be > 0''
         else if sint (mc_vocab_size (sc_model cfg)) \<le> 0 then ''vocab_size must be > 0''
         else if require_model_path \<and> model_path (sc_model cfg) = '''' then ''model.path is required''
         else case first_negative (dm_device_ids (sc_gpu cfg)) of
           Some d \<Rightarrow> ''Invalid gpu.device_id: '' @ int32_to_string d
         | None \<Rightarrow> (case first_negative (cfg_device_ids (sc_kv_cache cfg)) of
             Some d \<Rightarrow> ''Invalid kv_cache.device_id: '' @ int32_to_string d
           | None \<Rightarrow> ''''))"

section \<open>The configuration file\<close>

text \<open>The further calls of the JSON library that \<open>load_config\<close> makes.\<close>

record 'j config_json = "'j json_api" +
  cj_value_int32 :: "'j \<Rightarrow> string \<Rightarrow> int32 \<Rightarrow> int32 json_result"
  cj_value_size :: "'j \<Rightarrow> string \<Rightarrow> size_t \<Rightarrow> size_t json_result"
  cj_get_int32s :: "'j \<Rightarrow> int32 list json_result"

text \<open>\<open>if (j.contains(k)) { auto& s = j[k]; ... }\<close>\<close>

definition in_section :: "('j, 'm) config_json_scheme \<Rightarrow> 'j \<Rightarrow> string \<Rightarrow> ('j \<Rightarrow> 'c json_result) \<Rightarrow> 'c \<Rightarrow> 'c json_result" where
  "in_section J j k f c = (if j_contains J j k then try_then (j_at J j k) f else Inr c)"

definition load_api :: "'j config_json \<Rightarrow> 'j \<Rightarrow> api_config \<Rightarrow> api_config json_result" where
  "load_api J s a =
     try_then (j_value_string J s ''host'' (host a)) (\<lambda>h.
     try_then (cj_value_int32 J s ''port'' (port a)) (\<lambda>p.
     try_then (j_value_string J s ''model_name'' (api_model_name a)) (\<lambda>n.
     Inr (a\<lparr>host := h, port := p, api_model_name := n\<rparr>))))"

definition load_scheduler :: "'j config_json \<Rightarrow> 'j \<Rightarrow> scheduler_config \<Rightarrow> scheduler_config json_result" where
  "load_scheduler J s a =
     try_then (cj_value_size J s ''max_queue_size'' (max_queue_size a)) (\<lambda>q.
     try_then (cj_value_size J s ''max_active_requests'' (max_active_requests a)) (\<lambda>n.
     Inr (a\<lparr>max_queue_size := q, max_active_requests := n\<rparr>)))"

definition load_model_section :: "'j config_json \<Rightarrow> 'j \<Rightarrow> model_config \<Rightarrow> model_config json_result" where
  "load_model_section J s a =
     try_then (j_value_string J s ''path'' (model_path a)) (\<lambda>p.
     try_then (cj_value_int32 J s ''max_seq_len'' (mc_max_seq_len a)) (\<lambda>l.
     try_then (cj_value_int32 J s ''vocab_size'' (mc_vocab_size a)) (\<lambda>v.
     try_then (j_value_bool J s ''tensor_parallel'' (mc_tensor_parallel a)) (\<lambda>t.
     Inr (a\<lparr>model_path := p, mc_max_seq_len := l, mc_vocab_size := v, mc_tensor_parallel := t\<rparr>)))))"

definition load_gpu :: "'j config_json \<Rightarrow> 'j \<Rightarrow> device_manager_config \<Rightarrow> device_manager_config json_result" where
  "load_gpu J s a =
     in_section J s ''device_ids'' (\<lambda>v. try_then (cj_get_int32s J v) (\<lambda>ids. Inr (a\<lparr>dm_device_ids := ids\<rparr>))) a"

definition load_kv_cache :: "'j config_json \<Rightarrow> 'j \<Rightarrow> server_configuration \<Rightarrow> server_configuration json_result" where
  "load_kv_cache J s cfg =
     (let kv = sc_kv_cache cfg; pool = sc_kv_pool cfg
      in try_then (cj_value_size J s ''max_memory_bytes'' (max_total_memory kv)) (\<lambda>m.
         try_then (in_section J s ''device_ids'' (cj_get_int32s J) (cfg_device_ids kv)) (\<lambda>ids.
         try_then (j_value_string J s ''allocator'' ''pooled'') (\<lambda>kind.
         try_then (cj_value_size J s ''pool_slot_size_tokens'' (slot_size_tokens pool)) (\<lambda>sl.
         try_then (cj_value_size J s ''pool_num_slots'' (num_slots pool)) (\<lambda>n.
         try_then (j_value_bool J s ''pool_allow_overflow'' (allow_overflow pool)) (\<lambda>ov.
         Inr (cfg\<lparr>sc_kv_cache := kv\<lparr>max_total_memory := m, cfg_device_ids := ids\<rparr>,
                sc_kv_pool := \<lparr>slot_size_tokens = sl, num_slots = n, allow_overflow = ov\<rparr>,
                use_pooled_allocator := kind = ''pooled''\<rparr>)))))))) "

definition load_logging :: "'j config_json \<Rightarrow> 'j \<Rightarrow> logger_config \<Rightarrow> logger_config json_result" where
  "load_logging J s a =
     try_then (j_value_string J s ''level'' (log_level a)) (\<lambda>l.
     try_then (j_value_string J s ''output'' (log_output a)) (\<lambda>out.
     try_then (j_value_bool J s ''json_format'' (json_format a)) (\<lambda>f.
     Inr (a\<lparr>log_level := l, log_output := out, json_format := f\<rparr>))))"

definition load_sections :: "'j config_json \<Rightarrow> 'j \<Rightarrow> server_configuration json_result" where
  "load_sections J j =
     (let c0 = default_server_configuration
      in try_then (in_section J j ''api'' (\<lambda>s. try_then (load_api J s (sc_api c0)) (\<lambda>a. Inr (c0\<lparr>sc_api := a\<rparr>))) c0) (\<lambda>c1.
         try_then (in_section J j ''scheduler'' (\<lambda>s. try_then (load_scheduler J s (sc_scheduler c1)) (\<lambda>a. Inr (c1\<lparr>sc_scheduler := a\<rparr>))) c1) (\<lambda>c2.
         try_then (in_section J j ''model'' (\<lambda>s. try_then (load_model_section J s (sc_model c2)) (\<lambda>a. Inr (c2\<lparr>sc_model := a\<rparr>))) c2) (\<lambda>c3.
         try_then (in_section J j ''gpu'' (\<lambda>s. try_then (load_gpu J s (sc_gpu c3)) (\<lambda>a. Inr (c3\<lparr>sc_gpu := a\<rparr>))) c3) (\<lambda>c4.
         try_then (in_section J j ''kv_cache'' (\<lambda>s. load_kv_cache J s c4) c4) (\<lambda>c5.
         in_section J j ''logging'' (\<lambda>s. try_then (load_logging J s (sc_logging c5)) (\<lambda>a. Inr (c5\<lparr>sc_logging := a\<rparr>))) c5))))))"

text \<open>
  \<open>load_config\<close>; \<^const>\<open>Inl\<close> is \<open>success = false\<close>, on which \<open>main\<close> drops the configuration read so far. A path
  that cannot be opened gives the defaults.
\<close>

definition load_config :: "'j config_json \<Rightarrow> 'j json_text \<Rightarrow> (string \<Rightarrow> string option) \<Rightarrow> string \<Rightarrow> server_configuration json_result" where
  "load_config J T read_file config_path =
     (if config_path = '''' then Inr default_server_configuration
      else case read_file config_path of
        None \<Rightarrow> Inr default_server_configuration
      | Some text \<Rightarrow> try_then (jt_parse T text) (load_sections J))"

section \<open>Command line and environment\<close>

datatype arguments = Show_help | Show_version | Unknown_option string | Config_path string

fun parse_arguments :: "string list \<Rightarrow> string \<Rightarrow> arguments" where
  "parse_arguments [] config_path = Config_path config_path"
| "parse_arguments (arg # args) config_path =
     (if arg = ''--help'' \<or> arg = ''-h'' then Show_help
      else if arg = ''--version'' \<or> arg = ''-v'' then Show_version
      else if arg = '''' \<or> hd arg \<noteq> CHR ''-'' then parse_arguments args arg
      else Unknown_option arg)"

text \<open>\<open>std::stoi\<close> in base ten: blanks, a sign, digits; the number and the characters read.\<close>

datatype stoi_error = Invalid_argument | Out_of_range

definition is_space :: "char \<Rightarrow> bool" where
  "is_space c \<longleftrightarrow> (let n = of_char c :: nat in n = 32 \<or> 9 \<le> n \<and> n \<le> 13)"

definition is_digit :: "char \<Rightarrow> bool" where
  "is_digit c \<longleftrightarrow> (let n = of_char c :: nat in 48 \<le> n \<and> n \<le> 57)"

definition digits_value :: "string \<Rightarrow> nat" where
  "digits_value ds = foldl (\<lambda>n c. n * 10 + (of_char c - 48)) 0 ds"

definition stoi :: "string \<Rightarrow> stoi_error + int32 \<times> nat" where
  "stoi s =
     (let blanks = takeWhile is_space s; rest = dropWhile is_space s;
          sign = (if rest \<noteq> [] \<and> (hd rest = CHR ''-'' \<or> hd rest = CHR ''+'') then 1 else 0 :: nat);
          ds = takeWhile is_digit (drop sign rest);
          v = (if rest \<noteq> [] \<and> hd rest = CHR ''-'' then - int (digits_value ds) else int (digits_value ds))
      in if ds = [] then Inl Invalid_argument
         else if v < - (2 ^ 31) \<or> v > 2 ^ 31 - 1 then Inl Out_of_range
         else Inr (word_of_int v, length blanks + sign + length ds))"

text \<open>The overrides; \<^const>\<open>None\<close> is \<open>return 1\<close>.\<close>

definition override_environment :: "(string \<Rightarrow> string option) \<Rightarrow> server_configuration \<Rightarrow> server_configuration option" where
  "override_environment getenv cfg =
     (let cfg1 = (case getenv ''QWEN_HOST'' of
            None \<Rightarrow> cfg | Some h \<Rightarrow> cfg\<lparr>sc_api := (sc_api cfg)\<lparr>host := h\<rparr>\<rparr>)
      in case getenv ''QWEN_PORT'' of
           None \<Rightarrow> Some cfg1
         | Some text \<Rightarrow>
             (case stoi text of
                Inl _ \<Rightarrow> None
              | Inr (p, pos) \<Rightarrow> if pos \<noteq> length text then None else Some (cfg1\<lparr>sc_api := (sc_api cfg1)\<lparr>port := p\<rparr>\<rparr>)))"

datatype startup = Exit int | Run server_configuration

definition startup_configuration :: "'j config_json \<Rightarrow> 'j json_text \<Rightarrow> (string \<Rightarrow> string option) \<Rightarrow> (string \<Rightarrow> string option) \<Rightarrow>
    string list \<Rightarrow> startup" where
  "startup_configuration J T read_file getenv args =
     (case parse_arguments args '''' of
        Show_help \<Rightarrow> Exit 0
      | Show_version \<Rightarrow> Exit 0
      | Unknown_option _ \<Rightarrow> Exit 1
      | Config_path p \<Rightarrow>
          (let path = (if p = '''' then opt_or (getenv ''QWEN_CONFIG'') '''' else p)
           in case load_config J T read_file path of
                Inl _ \<Rightarrow> Exit 1
              | Inr cfg \<Rightarrow>
                  (case override_environment getenv cfg of
                     None \<Rightarrow> Exit 1
                   | Some cfg' \<Rightarrow> if validate_config cfg' False \<noteq> '''' then Exit 1 else Run cfg')))"

section \<open>The start of the server\<close>

text \<open>
  The allocator chosen by the configuration, behind the interface: a sum of the two allocators stands for
  the pointer to \<open>IKVCacheAllocator\<close>.
\<close>

definition either_ops :: "'c cuda \<Rightarrow> ((contiguous + pooled) \<times> 'c) kv_ops" where
  "either_ops C =
     \<lparr>ka_config = (\<lambda>(a, c). case a of Inl s \<Rightarrow> ca_config s | Inr s \<Rightarrow> pa_config s),
      ka_allocate = (\<lambda>n (a, c). case a of
          Inl s \<Rightarrow> (case ca_allocate C n s c of (h, s', c') \<Rightarrow> (h, Inl s', c'))
        | Inr s \<Rightarrow> (case pa_allocate C n s c of (h, s', c') \<Rightarrow> (h, Inr s', c'))),
      ka_allocate_tensor_parallel = (\<lambda>n ds (a, c). case a of
          Inl s \<Rightarrow> (case ca_allocate_tensor_parallel C n ds s c of (h, s', c') \<Rightarrow> (h, Inl s', c'))
        | Inr s \<Rightarrow> (case pa_allocate_tensor_parallel C n ds s c of (h, s', c') \<Rightarrow> (h, Inr s', c'))),
      ka_free = (\<lambda>h (a, c). case a of
          Inl s \<Rightarrow> (case ca_free C h s c of (h', s', c') \<Rightarrow> (h', Inl s', c'))
        | Inr s \<Rightarrow> (case pa_free C h s c of (h', s', c') \<Rightarrow> (h', Inr s', c'))),
      ka_can_allocate = (\<lambda>n (a, c). case a of Inl s \<Rightarrow> ca_can_allocate n s | Inr s \<Rightarrow> pa_can_allocate n s)\<rparr>"

definition kv_stats :: "contiguous + pooled \<Rightarrow> memory_stats" where
  "kv_stats a = (case a of Inl s \<Rightarrow> ca_stats s | Inr s \<Rightarrow> pa_stats s)"

definition create_allocator :: "'c cuda \<Rightarrow> server_configuration \<Rightarrow> kv_allocator_config \<Rightarrow> 'c \<Rightarrow> unit result \<times> (contiguous + pooled) \<times> 'c" where
  "create_allocator C cfg kv c =
     (if use_pooled_allocator cfg
      then (case pa_initialize C kv (pooled_init (sc_kv_pool cfg)) c of (r, s, c') \<Rightarrow> (r, Inr s, c'))
      else (case ca_initialize C kv contiguous_init c of (r, s) \<Rightarrow> (r, Inl s, c)))"

text \<open>
  The start: an error of a component ends the program with status 1; dividing by the number of devices is
  undefined when there is none (\<open>Crashed\<close>). \<open>st\<close> and \<open>g\<close> are the request objects and the generator of the
  sampler.
\<close>

datatype 's boot = Boot_failed error | Crashed | Ready 's

definition kv_config_for :: "server_configuration \<Rightarrow> device_manager \<Rightarrow> kv_allocator_config" where
  "kv_config_for cfg dm =
     (let kv = sc_kv_cache cfg
      in if cfg_device_ids kv = [] then kv\<lparr>cfg_device_ids := map dev_id (devices dm)\<rparr> else kv)"

definition boot :: "'c cuda \<Rightarrow> token_files \<Rightarrow> 'g std_random \<Rightarrow> 'j request_store \<Rightarrow> 'g \<Rightarrow> server_configuration \<Rightarrow> 'c \<Rightarrow>
    (tokenizer \<times> ('j, 'g null_backend, (contiguous + pooled) \<times> 'c, 'g) scheduler) boot" where
  "boot C F R st g cfg c =
     (case dm_initialize C (new_device_manager (sc_gpu cfg)) c of
        (Inl e, _, _) \<Rightarrow> Boot_failed e
      | (Inr _, dm, c1) \<Rightarrow>
          (case tk_initialize F default_tokenizer_config new_tokenizer of
             (Inl e, _) \<Rightarrow> Boot_failed e
           | (Inr _, tok) \<Rightarrow>
               (case create_allocator C cfg (kv_config_for cfg dm) c1 of
                  (Inl e, _, _) \<Rightarrow> Boot_failed e
                | (Inr _, a, c2) \<Rightarrow>
                    (case size_div (total_bytes (kv_stats a)) (sz (devices dm)) of
                       None \<Rightarrow> Crashed
                     | Some kv_budget_per_gpu \<Rightarrow>
                         (let router = initialize_budgets kv_budget_per_gpu (new_gpu_router dm);
                              backend = snd (nb_load_model (snd (nb_initialize (sc_model cfg) (new_null_backend R))));
                              s = set_gpu_router router (new_scheduler (sc_scheduler cfg) st (a, c2) backend g)
                          in case start s of
                               (Inl e, _) \<Rightarrow> Boot_failed e
                             | (Inr _, s') \<Rightarrow> Ready (tok, s'))))))"

section \<open>What a configuration guarantees\<close>

lemma first_negative_None: "first_negative ds = None \<longleftrightarrow> (\<forall>d \<in> set ds. 0 \<le> sint d)"
  by (induction ds) auto

text \<open>
  C32. A configuration is valid exactly when the port is between 1 and 65535, the queue and the number of
  active requests are positive, the sequence length and the vocabulary are positive, a required model
  path is given and no device identifier is negative.
\<close>

theorem validate_config_iff:
  "validate_config cfg required = '''' \<longleftrightarrow>
     1 \<le> sint (port (sc_api cfg)) \<and> sint (port (sc_api cfg)) \<le> 65535 \<and>
     0 < max_queue_size (sc_scheduler cfg) \<and> 0 < max_active_requests (sc_scheduler cfg) \<and>
     0 < sint (mc_max_seq_len (sc_model cfg)) \<and> 0 < sint (mc_vocab_size (sc_model cfg)) \<and>
     (required \<longrightarrow> model_path (sc_model cfg) \<noteq> '''') \<and>
     (\<forall>d \<in> set (dm_device_ids (sc_gpu cfg)) \<union> set (cfg_device_ids (sc_kv_cache cfg)). 0 \<le> sint d)"
proof -
  have "first_negative ds \<noteq> None \<longleftrightarrow> (\<exists>d \<in> set ds. sint d < 0)" for ds
    using first_negative_None [of ds] by (simp add: not_le)
  moreover have "d \<in> set ds" "sint d < 0" if "first_negative ds = Some d" for ds d
    using that by (induction ds) (auto split: if_splits)
  ultimately show ?thesis
    using first_negative_None [of "dm_device_ids (sc_gpu cfg)"] first_negative_None [of "cfg_device_ids (sc_kv_cache cfg)"]
    by (auto simp: validate_config_def Let_def word_gt_0 split: option.splits)
qed

theorem validate_config_iff_witness:
  "validate_config (default_server_configuration\<lparr>sc_gpu := default_device_config\<lparr>dm_device_ids := [0, -1]\<rparr>\<rparr>) False \<noteq> ''''"
  unfolding validate_config_iff by (simp add: default_server_configuration_def default_device_config_def)

section \<open>Numbers in the environment\<close>

lemma is_digit_char [simp]: "n < 10 \<Longrightarrow> is_digit (digit_char n)"
  by (simp add: is_digit_def digit_char_def)

lemma nat_to_string_digits: "c \<in> set (nat_to_string n) \<Longrightarrow> is_digit c"
proof (induction n rule: nat_to_string.induct)
  case (1 n)
  then show ?case by (subst (asm) (2) nat_to_string.simps) (auto split: if_splits)
qed

lemma digits_value_snoc: "digits_value (ds @ [c]) = digits_value ds * 10 + (of_char c - 48)"
  by (simp add: digits_value_def)

lemma digits_value_nat_to_string [simp]: "digits_value (nat_to_string n) = n"
proof (induction n rule: nat_to_string.induct)
  case (1 n)
  show ?case
  proof (cases "n < 10")
    case True
    then show ?thesis by (subst nat_to_string.simps) (simp add: digits_value_def digit_char_def)
  next
    case False
    then show ?thesis using 1 by (subst nat_to_string.simps) (simp add: digits_value_snoc digit_char_def)
  qed
qed

lemma nat_to_string_start:
  obtains d ds where "nat_to_string n = d # ds" "is_digit d" "\<not> is_space d" "d \<noteq> CHR ''-''" "d \<noteq> CHR ''+''"
proof -
  obtain d ds where eq: "nat_to_string n = d # ds" by (cases "nat_to_string n") (use nat_to_string.simps [of n] in \<open>auto split: if_splits\<close>)
  then have "is_digit d" using nat_to_string_digits [of d n] by simp
  moreover have "\<not> is_space d" "d \<noteq> CHR ''-''" "d \<noteq> CHR ''+''"
    using \<open>is_digit d\<close> by (auto simp: is_digit_def is_space_def Let_def)
  ultimately show thesis using that eq by blast
qed

lemma stoi_printed:
  assumes "- (2 ^ 31) \<le> i" and "i < 2 ^ 31"
  shows "stoi (int_to_string i) = Inr (word_of_int i, length (int_to_string i))"
proof -
  have all: "takeWhile is_digit (nat_to_string n) = nat_to_string n" for n
    using nat_to_string_digits by (simp add: takeWhile_eq_all_conv)
  obtain d ds where n: "nat_to_string (nat \<bar>i\<bar>) = d # ds" "is_digit d" "\<not> is_space d" "d \<noteq> CHR ''-''" "d \<noteq> CHR ''+''"
    by (rule nat_to_string_start)
  have val: "digits_value (d # ds) = nat \<bar>i\<bar>" using digits_value_nat_to_string [of "nat \<bar>i\<bar>"] n(1) by simp
  have minus: "\<not> is_space (CHR ''-'')" by (simp add: is_space_def)
  have tw: "takeWhile is_digit ds = ds" using all [of "nat \<bar>i\<bar>"] n(1,2) by simp
  show ?thesis
  proof (cases "i < 0")
    case True
    then have "int_to_string i = CHR ''-'' # d # ds" using n(1) by (simp add: int_to_string_def)
    moreover have "(of_nat (nat (- i)) :: int32) = of_int (- i)" using True by (intro of_nat_nat) simp
    ultimately show ?thesis using True assms minus val n(2) by (simp add: stoi_def Let_def tw)
  next
    case False
    then have "int_to_string i = d # ds" using n(1) by (simp add: int_to_string_def)
    then show ?thesis using False assms val n by (simp add: stoi_def Let_def tw)
  qed
qed

text \<open>
  Reading back a printed number: \<open>stoi\<close> of the decimal text of an \<open>int\<close> gives the number and consumes
  the whole text, so a port written to the environment as a number is the port of the server.
\<close>

theorem stoi_int_to_string:
  assumes "- (2 ^ 31) \<le> i" and "i < 2 ^ 31"
  shows "stoi (int_to_string i) = Inr (word_of_int i, length (int_to_string i))"
  using assms by (rule stoi_printed)

theorem stoi_int_to_string_witness: "stoi ''8080'' = Inr (8080, 4)"
proof -
  have "int_to_string 8080 = ''8080''" by (simp add: int_to_string_def nat_to_string.simps digit_char_def char_of_def bit_0)
  then show ?thesis using stoi_int_to_string [of 8080] by simp
qed

text \<open>
  When \<open>main\<close> goes on to start the server, its configuration is valid, a port given in the environment
  was a complete decimal number and is the port used, and a host given there is the host used.
\<close>

theorem startup_uses_valid_configuration:
  assumes "startup_configuration J T read_file getenv args = Run cfg"
  shows "validate_config cfg False = '''' \<and> 1 \<le> sint (port (sc_api cfg)) \<and> sint (port (sc_api cfg)) \<le> 65535 \<and>
    (\<forall>text. getenv ''QWEN_PORT'' = Some text \<longrightarrow> stoi text = Inr (port (sc_api cfg), length text)) \<and>
    (\<forall>h. getenv ''QWEN_HOST'' = Some h \<longrightarrow> host (sc_api cfg) = h)"
proof -
  from assms obtain c0 where over: "override_environment getenv c0 = Some cfg" and valid: "validate_config cfg False = ''''"
    by (auto simp: startup_configuration_def Let_def split: arguments.splits sum.splits option.splits if_splits)
  have "1 \<le> sint (port (sc_api cfg)) \<and> sint (port (sc_api cfg)) \<le> 65535"
    using valid by (auto simp: validate_config_def Let_def split: if_splits)
  then show ?thesis
    using over valid by (auto simp: override_environment_def Let_def split: option.splits sum.splits if_splits)
qed

definition demo_config_json :: "json config_json" where
  "demo_config_json = json_api.extend json_ref
     \<lparr>cj_value_int32 = json_value json_int_of, cj_value_size = json_value json_int_of,
      cj_get_int32s = (\<lambda>j. case j of JArray js \<Rightarrow> try_map json_int_of js | _ \<Rightarrow> Inl ''type must be array'')\<rparr>"

definition demo_environment :: "string \<Rightarrow> string option" where
  "demo_environment = [''QWEN_PORT'' \<mapsto> int_to_string 9000]"

definition demo_config_text :: "json json_text" where
  "demo_config_text = \<lparr>jt_parse = (\<lambda>_. Inr (JObject
      [(''scheduler'', JObject [(''max_queue_size'', JInt 10)]), (''gpu'', JObject [(''device_ids'', JArray [JInt 0])]),
       (''kv_cache'', JObject [(''allocator'', JString ''contiguous'')])])), jt_dump = (\<lambda>j. Inr (show_json j))\<rparr>"

definition demo_configuration :: server_configuration where
  "demo_configuration = default_server_configuration\<lparr>sc_api := default_api_config\<lparr>port := 9000\<rparr>,
     sc_scheduler := default_scheduler_config\<lparr>max_queue_size := 10\<rparr>, sc_gpu := default_device_config\<lparr>dm_device_ids := [0]\<rparr>,
     use_pooled_allocator := False\<rparr>"

lemma demo_startup:
  "startup_configuration demo_config_json demo_config_text (\<lambda>_. Some ''{}'') demo_environment [''server.json''] =
    Run demo_configuration"
proof -
  have port: "stoi (int_to_string 9000) = Inr (9000, length (int_to_string 9000))" using stoi_printed [of 9000] by simp
  have load: "load_config demo_config_json demo_config_text (\<lambda>_. Some ''{}'') ''server.json'' =
      Inr (demo_configuration\<lparr>sc_api := default_api_config\<rparr>)"
    by (simp add: load_config_def demo_config_text_def load_sections_def in_section_def demo_config_json_def json_ref_def
        json_api.defs json_at_def json_members_def load_scheduler_def load_gpu_def load_kv_cache_def json_value_def json_int_of_def
        json_string_of_def json_bool_of_def demo_configuration_def default_server_configuration_def Let_def)
  have "validate_config demo_configuration False = ''''"
    by (simp add: validate_config_def Let_def demo_configuration_def default_server_configuration_def default_api_config_def
        default_scheduler_config_def default_model_config_def default_kv_config_def)
  moreover have "demo_configuration\<lparr>sc_api := default_api_config\<lparr>port := 9000\<rparr>\<rparr> = demo_configuration"
    by (simp add: demo_configuration_def)
  ultimately show ?thesis
    using port load by (simp add: startup_configuration_def override_environment_def demo_environment_def)
qed

theorem startup_uses_valid_configuration_witness:
  "sint (port (sc_api demo_configuration)) \<le> 65535 \<and>
   stoi (int_to_string 9000) = Inr (port (sc_api demo_configuration), length (int_to_string 9000))"
  using startup_uses_valid_configuration [OF demo_startup] by (simp add: demo_environment_def)

section \<open>What the start guarantees\<close>

lemma start_fields: "start s = (Inr u, s') \<Longrightarrow> s' = s\<lparr>running := True\<rparr>"
  by (auto simp: start_def split: if_splits)

text \<open>
  A server that starts is idle and accepts requests: the decode thread runs, nothing is queued or
  active, the backend is loaded with the configured model, and the router has one budget per device, all
  of the same size, the memory of the allocator divided among the devices, with nothing used or reserved.
\<close>

theorem boot_ready:
  assumes "boot C F R st g cfg c = Ready (tok, s)"
  shows "running s \<and> pending_queue s = [] \<and> active_requests s = [] \<and> registry s = [] \<and>
    sch_config s = sc_scheduler cfg \<and> nb_loaded (rt_state s) \<and> nb_config (rt_state s) = sc_model cfg \<and>
    (\<exists>gr. router s = Some gr \<and> devices (device_manager gr) \<noteq> [] \<and>
       map gb_device_id (budgets gr) = map dev_id (devices (device_manager gr)) \<and>
       (\<forall>b \<in> set (budgets gr). gb_used b = 0 \<and> gb_reserved b = 0 \<and>
          gb_total b = total_bytes (kv_stats (fst (kv_state s))) div sz (devices (device_manager gr))))"
proof -
  from assms obtain u dm a c2 b where
      s: "start (set_gpu_router (initialize_budgets b (new_gpu_router dm)) (new_scheduler (sc_scheduler cfg) st (a, c2)
        (snd (nb_load_model (snd (nb_initialize (sc_model cfg) (new_null_backend R))))) g)) = (Inr u, s)"
    and b: "size_div (total_bytes (kv_stats a)) (sz (devices dm)) = Some b"
    by (auto simp: boot_def Let_def split: prod.splits sum.splits option.splits)
  have "devices dm \<noteq> []" using b by (auto simp: result_iff)
  then show ?thesis
    using start_fields [OF s] b
    by (auto simp: set_gpu_router_def new_scheduler_def initialize_budgets_def new_gpu_router_def nb_load_model_def nb_initialize_def
        result_iff o_def)
qed

text \<open>
  An empty list of devices in the configuration is valid and passes the discovery, but the start then
  divides the memory by zero devices.
\<close>

theorem boot_divides_by_zero:
  assumes "cudaGetDeviceCount C c = (cudaSuccess, n)" and "n \<noteq> 0" and "dm_device_ids (sc_gpu cfg) = []"
    and "tk_initialize F default_tokenizer_config new_tokenizer = (Inr (), tok)"
    and "create_allocator C cfg (sc_kv_cache cfg) c = (Inr (), a, c')"
  shows "boot C F R st g cfg c = Crashed"
proof -
  have dm: "dm_initialize C (new_device_manager (sc_gpu cfg)) c = (Inr (), new_device_manager (sc_gpu cfg), c)"
    using assms(1-3) by (simp add: dm_initialize_def new_device_manager_def)
  have "kv_config_for cfg (new_device_manager (sc_gpu cfg)) = sc_kv_cache cfg"
    by (simp add: kv_config_for_def Let_def new_device_manager_def)
  then show ?thesis using dm assms(4,5) by (simp add: boot_def size_div_def new_device_manager_def)
qed

section \<open>Concrete starts\<close>

lemma demo_tokenizer_init: "tk_initialize F default_tokenizer_config new_tokenizer = (Inr (), minimal_tokenizer F)"
  by (simp add: minimal_tokenizer_def tk_initialize_def load_vocab_def load_merges_def new_tokenizer_def
      default_tokenizer_config_def Let_def)

text \<open>The demonstration configuration with a given vocabulary and a contiguous allocator on device 0.\<close>

definition demo_with_vocab :: "int32 \<Rightarrow> server_configuration" where
  "demo_with_vocab v = demo_configuration\<lparr>sc_model := default_model_config\<lparr>mc_vocab_size := v\<rparr>\<rparr>"

lemma demo_boot:
  "\<exists>s. boot bump_cuda no_files counter_random st 0 (demo_with_vocab v) (bump_init 4) = Ready (minimal_tokenizer no_files, s) \<and>
     rt_state s = (new_null_backend counter_random)\<lparr>nb_config := default_model_config\<lparr>mc_vocab_size := v\<rparr>, nb_loaded := True\<rparr>"
  by (simp add: boot_def demo_tokenizer_init dm_initialize_def new_device_manager_def bump_cuda_def demo_with_vocab_def
      demo_configuration_def default_device_config_def create_allocator_def kv_config_for_def default_server_configuration_def
      ca_initialize_def contiguous_init_def default_kv_config_def Let_def kv_stats_def ca_stats_def size_div_def
      start_def set_gpu_router_def new_scheduler_def nb_load_model_def nb_initialize_def)

definition demo_requests :: "json request_store" where
  "demo_requests = (\<lambda>_. make_request 0 0 0 demo_api_request)"

theorem boot_ready_witness:
  "\<exists>s gr. boot bump_cuda no_files counter_random demo_requests 0 (demo_with_vocab 152064) (bump_init 4) = Ready (minimal_tokenizer no_files, s) \<and>
     running s \<and> router s = Some gr \<and> (\<forall>b \<in> set (budgets gr). gb_used b = 0)"
proof -
  obtain s where s: "boot bump_cuda no_files counter_random demo_requests 0 (demo_with_vocab 152064) (bump_init 4)
      = Ready (minimal_tokenizer no_files, s)" using demo_boot by blast
  show ?thesis using boot_ready [OF s] s by blast
qed

definition no_devices :: server_configuration where
  "no_devices = demo_configuration\<lparr>sc_gpu := default_device_config\<lparr>dm_device_ids := []\<rparr>\<rparr>"

theorem boot_divides_by_zero_witness:
  "validate_config no_devices False = '''' \<and>
   boot bump_cuda no_files counter_random demo_requests 0 no_devices (bump_init 4) = Crashed"
proof -
  have count: "cudaGetDeviceCount bump_cuda (bump_init 4) = (cudaSuccess, 2)" by (simp add: bump_cuda_def)
  have alloc: "\<exists>a c'. create_allocator bump_cuda no_devices (sc_kv_cache no_devices) (bump_init 4) = (Inr (), a, c')"
    by (simp add: create_allocator_def no_devices_def demo_configuration_def default_server_configuration_def default_kv_config_def
        ca_initialize_def contiguous_init_def bump_cuda_def Let_def)
  have "validate_config no_devices False = ''''"
    by (simp add: validate_config_def Let_def no_devices_def demo_configuration_def default_server_configuration_def
        default_api_config_def default_scheduler_config_def default_model_config_def default_kv_config_def)
  moreover have "dm_device_ids (sc_gpu no_devices) = []" by (simp add: no_devices_def)
  moreover obtain a c' where "create_allocator bump_cuda no_devices (sc_kv_cache no_devices) (bump_init 4) = (Inr (), a, c')"
    using alloc by blast
  ultimately show ?thesis
    using boot_divides_by_zero [OF count _ _ demo_tokenizer_init, of no_devices a c' no_files] by simp
qed

text \<open>
  A vocabulary smaller than the range of the made-up logits is valid as well: the server starts, and
  the first prefill writes outside the logits.
\<close>

theorem validated_vocabulary_overflows:
  "validate_config (demo_with_vocab 40) False = '''' \<and>
   (\<exists>s. boot bump_cuda no_files counter_random st 0 (demo_with_vocab 40) (bump_init 4) = Ready (minimal_tokenizer no_files, s) \<and>
      nb_prefill counter_random inp None (rt_state s) = None)"
proof -
  obtain s where s: "boot bump_cuda no_files counter_random st 0 (demo_with_vocab 40) (bump_init 4) = Ready (minimal_tokenizer no_files, s)"
      "rt_state s = (new_null_backend counter_random)\<lparr>nb_config := default_model_config\<lparr>mc_vocab_size := 40\<rparr>, nb_loaded := True\<rparr>"
    using demo_boot by blast
  have draw: "draw_int counter_random 0 1000 42 = (42, 43)" by (simp add: counter_random_def)
  have "random_logits counter_random 0 10 ls 42 = None" if "length ls = 40" for ls
    using that draw random_logits.simps(2) [of counter_random 0 9 ls 42] by (simp add: write_logit_def)
  moreover have seed: "seed_rng counter_random 42 = 42" by (simp add: counter_random_def)
  ultimately have "nb_prefill counter_random inp None (rt_state s) = None"
    by (simp add: s(2) nb_prefill_def generate_fake_logits_def new_null_backend_def Let_def seed)
  moreover have "validate_config (demo_with_vocab 40) False = ''''"
    by (simp add: validate_config_def Let_def demo_with_vocab_def demo_configuration_def default_server_configuration_def
        default_api_config_def default_scheduler_config_def default_model_config_def default_kv_config_def default_device_config_def)
  ultimately show ?thesis using s(1) by blast
qed

end
