(* ===== verification/Sse_Streamer.thy ===== *)
theory Sse_Streamer
  imports Routes
begin

text \<open>
  \<^verbatim>\<open>include/api/sse_streamer.hpp\<close> and \<^verbatim>\<open>src/api/sse_streamer.cpp\<close>: the queue between the threads that push the
  events of a stream and the thread that writes them. A call that pushes tests the flags without the
  mutex and then takes it: two atomic actions. An iteration of \<open>run\<close> is three: the loop test, the wait
  with the pop, the write. \<open>sse_step\<close> interleaves them with \<open>stop\<close> and with a cancellation of the token.
  Log lines and the length of the wait are not modelled.
\<close>

section \<open>State\<close>

datatype sse_event_type = SSE_Chunk | SSE_Done | SSE_Error

record 'j sse_event =
  sse_type :: sse_event_type
  sse_chunk :: "'j chat_completion_chunk option"
  sse_error :: "error_response option"

record sse_config =
  sse_max_queue_size :: size_t
  flush_interval_ms :: uint32
  enable_backpressure :: bool

definition default_sse_config :: sse_config where
  "default_sse_config = \<lparr>sse_max_queue_size = 256, flush_interval_ms = 10, enable_backpressure = True\<rparr>"

record 'j sse_streamer =
  streamer_config :: sse_config
  sse_events :: "'j sse_event list"
  sse_active :: bool
  sse_disconnected :: bool
  sse_completed :: bool

text \<open>A callback on the token of a stream: the one of the streamer, which captures \<open>this\<close>, or another one.\<close>

datatype sse_callback = Stop_streamer | Other_callback nat

definition sse_stop :: "'j sse_streamer \<Rightarrow> 'j sse_streamer" where
  "sse_stop s = s\<lparr>sse_active := False\<rparr>"

definition run_callbacks :: "sse_callback list \<Rightarrow> 'j sse_streamer \<Rightarrow> 'j sse_streamer" where
  "run_callbacks cbs s = (if Stop_streamer \<in> set cbs then sse_stop s else s)"

definition make_sse_streamer :: "sse_config \<Rightarrow> sse_callback cancellation_token option \<Rightarrow>
    'j sse_streamer \<times> sse_callback cancellation_token option" where
  "make_sse_streamer cfg token =
     (let s = \<lparr>streamer_config = cfg, sse_events = [], sse_active = True, sse_disconnected = False, sse_completed = False\<rparr>
      in case token of
           None \<Rightarrow> (s, None)
         | Some t \<Rightarrow> (case on_cancel Stop_streamer t of (called, t') \<Rightarrow> (run_callbacks called s, Some t')))"

definition sse_is_active :: "'j sse_streamer \<Rightarrow> bool" where
  "sse_is_active s \<longleftrightarrow> sse_active s \<and> \<not> sse_disconnected s"

definition pending_count :: "'j sse_streamer \<Rightarrow> size_t" where
  "pending_count s = sz (sse_events s)"

section \<open>Pushing events\<close>

datatype 'j sse_call = Push_chunk "'j chat_completion_chunk" | Push_error error_response | Complete_stream

fun call_event :: "'j sse_call \<Rightarrow> 'j sse_event" where
  "call_event (Push_chunk c) = \<lparr>sse_type = SSE_Chunk, sse_chunk = Some c, sse_error = None\<rparr>"
| "call_event (Push_error e) = \<lparr>sse_type = SSE_Error, sse_chunk = None, sse_error = Some e\<rparr>"
| "call_event Complete_stream = \<lparr>sse_type = SSE_Done, sse_chunk = None, sse_error = None\<rparr>"

text \<open>The test before the mutex, and the rest of the call under it, with whether the event was queued.\<close>

fun call_admitted :: "'j sse_call \<Rightarrow> 'j sse_streamer \<Rightarrow> bool" where
  "call_admitted (Push_chunk c) s \<longleftrightarrow> sse_active s \<and> \<not> sse_disconnected s"
| "call_admitted (Push_error e) s \<longleftrightarrow> sse_active s"
| "call_admitted Complete_stream s \<longleftrightarrow> sse_active s"

fun call_locked :: "'j sse_call \<Rightarrow> 'j sse_streamer \<Rightarrow> bool \<times> 'j sse_streamer" where
  "call_locked (Push_chunk c) s =
     (if enable_backpressure (streamer_config s) \<and> sz (sse_events s) \<ge> sse_max_queue_size (streamer_config s)
      then (False, s) else (True, s\<lparr>sse_events := sse_events s @ [call_event (Push_chunk c)]\<rparr>))"
| "call_locked (Push_error e) s = (True, s\<lparr>sse_events := sse_events s @ [call_event (Push_error e)]\<rparr>)"
| "call_locked Complete_stream s =
     (True, s\<lparr>sse_completed := True, sse_events := sse_events s @ [call_event Complete_stream]\<rparr>)"

text \<open>A call no other thread interferes with.\<close>

definition push_event :: "'j sse_call \<Rightarrow> 'j sse_streamer \<Rightarrow> bool \<times> 'j sse_streamer" where
  "push_event c s = (if call_admitted c s then call_locked c s else (False, s))"

section \<open>The writing thread\<close>

definition format_sse_event :: "'j json_api \<Rightarrow> 'j json_text \<Rightarrow> 'j sse_event \<Rightarrow> string json_result" where
  "format_sse_event J T ev =
     (case sse_type ev of
        SSE_Chunk \<Rightarrow> (case sse_chunk ev of Some c \<Rightarrow> chunk_frame J T c | None \<Rightarrow> Inr '''')
      | SSE_Done \<Rightarrow> Inr done_frame
      | SSE_Error \<Rightarrow>
          (case sse_error ev of
             Some e \<Rightarrow> try_then (jt_dump T (error_response_to_json J e)) (\<lambda>txt. Inr (sse_frame txt))
           | None \<Rightarrow> Inr ''''))"

text \<open>The write callback may be empty, and it may throw: both count as a failed write.\<close>

type_synonym 'w sse_writer = "(string \<Rightarrow> 'w \<Rightarrow> bool json_result \<times> 'w) option"

definition try_write :: "'w sse_writer \<Rightarrow> string \<Rightarrow> 'w \<Rightarrow> bool \<times> 'w" where
  "try_write wr data w =
     (case wr of
        None \<Rightarrow> (False, w)
      | Some f \<Rightarrow> (case f data w of (Inl what, w') \<Rightarrow> (False, w') | (Inr ok, w') \<Rightarrow> (ok, w')))"

text \<open>Where \<open>run\<close> is: at the loop test, at the wait, writing an event, returned, or left by an exception.\<close>

datatype 'j sse_pc = At_check | At_wait | At_write "'j sse_event" | Returned | Threw string

text \<open>
  The streamer with its surroundings: the token, the thread in \<open>run\<close>, the sink, the calls between their
  test and the mutex; and two histories, the events queued and the events written.
\<close>

record ('j, 'w) sse_world =
  streamer :: "'j sse_streamer"
  sw_token :: "sse_callback cancellation_token option"
  sw_pc :: "'j sse_pc"
  sw_sink :: 'w
  sw_calls :: "'j sse_call list"
  sw_accepted :: "'j sse_event list"
  sw_written :: "'j sse_event list"

definition cancel_stream :: "('j, 'w) sse_world \<Rightarrow> ('j, 'w) sse_world" where
  "cancel_stream w =
     (case sw_token w of
        None \<Rightarrow> w
      | Some t \<Rightarrow> (case token_cancel t of (called, t') \<Rightarrow>
          w\<lparr>sw_token := Some t', streamer := run_callbacks called (streamer w)\<rparr>))"

definition run_write :: "'j json_api \<Rightarrow> 'j json_text \<Rightarrow> 'w sse_writer \<Rightarrow> 'j sse_event \<Rightarrow> ('j, 'w) sse_world \<Rightarrow> ('j, 'w) sse_world" where
  "run_write J T wr ev w =
     (case format_sse_event J T ev of
        Inl what \<Rightarrow> w\<lparr>sw_pc := Threw what\<rparr>
      | Inr data \<Rightarrow>
          (case try_write wr data (sw_sink w) of (ok, out) \<Rightarrow>
             (let w1 = w\<lparr>sw_sink := out\<rparr>
              in if \<not> ok
                 then (cancel_stream (w1\<lparr>streamer := (streamer w1)\<lparr>sse_disconnected := True\<rparr>\<rparr>))\<lparr>sw_pc := Returned\<rparr>
                 else (let w2 = w1\<lparr>sw_written := sw_written w1 @ [ev]\<rparr>
                       in if sse_type ev = SSE_Done \<or> sse_type ev = SSE_Error
                          then w2\<lparr>streamer := (streamer w2)\<lparr>sse_active := False\<rparr>, sw_pc := Returned\<rparr>
                          else w2\<lparr>sw_pc := At_check\<rparr>))))"

definition run_step :: "'j json_api \<Rightarrow> 'j json_text \<Rightarrow> 'w sse_writer \<Rightarrow> ('j, 'w) sse_world \<Rightarrow> ('j, 'w) sse_world" where
  "run_step J T wr w =
     (case sw_pc w of
        At_check \<Rightarrow> w\<lparr>sw_pc := (if sse_active (streamer w) then At_wait else Returned)\<rparr>
      | At_wait \<Rightarrow>
          (case sse_events (streamer w) of
             [] \<Rightarrow> w\<lparr>sw_pc := (if sse_active (streamer w) then At_check else Returned)\<rparr>
           | ev # evs \<Rightarrow> w\<lparr>streamer := (streamer w)\<lparr>sse_events := evs\<rparr>, sw_pc := At_write ev\<rparr>)
      | At_write ev \<Rightarrow> run_write J T wr ev w
      | Returned \<Rightarrow> w
      | Threw what \<Rightarrow> w)"

section \<open>Interleavings\<close>

inductive sse_step :: "'j json_api \<Rightarrow> 'j json_text \<Rightarrow> 'w sse_writer \<Rightarrow> ('j, 'w) sse_world \<Rightarrow> ('j, 'w) sse_world \<Rightarrow> bool"
  for J T wr where
  run: "sse_step J T wr w (run_step J T wr w)"
| test: "call_admitted c (streamer w) \<Longrightarrow> sse_step J T wr w (w\<lparr>sw_calls := sw_calls w @ [c]\<rparr>)"
| lock: "sw_calls w = cs @ c # ds \<Longrightarrow> call_locked c (streamer w) = (ok, s') \<Longrightarrow>
    sse_step J T wr w (w\<lparr>streamer := s', sw_calls := cs @ ds,
      sw_accepted := sw_accepted w @ (if ok then [call_event c] else [])\<rparr>)"
| stop: "sse_step J T wr w (w\<lparr>streamer := sse_stop (streamer w)\<rparr>)"
| cancel: "sse_step J T wr w (cancel_stream w)"

definition sse_start :: "sse_config \<Rightarrow> sse_callback cancellation_token option \<Rightarrow> 'w \<Rightarrow> ('j, 'w) sse_world" where
  "sse_start cfg token out =
     (case make_sse_streamer cfg token of (s, t) \<Rightarrow>
        \<lparr>streamer = s, sw_token = t, sw_pc = At_check, sw_sink = out, sw_calls = [], sw_accepted = [], sw_written = []\<rparr>)"

section \<open>What is written\<close>

definition is_chunk :: "'j sse_event \<Rightarrow> bool" where
  "is_chunk ev \<longleftrightarrow> sse_type ev = SSE_Chunk"

text \<open>The event that has left the queue and is not written: the one being written, or the last one of a run that ended.\<close>

fun taken_ok :: "'j sse_pc \<Rightarrow> 'j sse_event list \<Rightarrow> bool" where
  "taken_ok (At_write ev) evs \<longleftrightarrow> evs = [ev]"
| "taken_ok Returned evs \<longleftrightarrow> length evs \<le> 1"
| "taken_ok (Threw what) evs \<longleftrightarrow> length evs \<le> 1"
| "taken_ok pc evs \<longleftrightarrow> evs = []"

definition sse_inv :: "('j, 'w) sse_world \<Rightarrow> bool" where
  "sse_inv w \<longleftrightarrow>
     (\<exists>taken. sw_accepted w = sw_written w @ taken @ sse_events (streamer w) \<and> taken_ok (sw_pc w) taken) \<and>
     (\<forall>ev \<in> set (butlast (sw_written w)). is_chunk ev) \<and>
     ((\<exists>ev \<in> set (sw_written w). \<not> is_chunk ev) \<longrightarrow> sw_pc w = Returned)"

lemma run_callbacks_frame [frame, simp]:
  "sse_events (run_callbacks cbs s) = sse_events s" "streamer_config (run_callbacks cbs s) = streamer_config s"
  by (simp_all add: run_callbacks_def sse_stop_def)

lemma cancel_stream_frame [frame, simp]:
  "sw_pc (cancel_stream w) = sw_pc w" "sw_accepted (cancel_stream w) = sw_accepted w"
  "sw_written (cancel_stream w) = sw_written w" "sw_sink (cancel_stream w) = sw_sink w" "sw_calls (cancel_stream w) = sw_calls w"
  "sse_events (streamer (cancel_stream w)) = sse_events (streamer w)"
  "streamer_config (streamer (cancel_stream w)) = streamer_config (streamer w)"
  by (auto simp: cancel_stream_def split: option.splits prod.splits)

lemma call_locked_frame [frame]:
  "call_locked c s = (ok, s') \<Longrightarrow> sse_events s' = sse_events s @ (if ok then [call_event c] else []) \<and>
     streamer_config s' = streamer_config s"
  by (cases c) (auto split: if_splits)

lemma sse_inv_start: "sse_inv (sse_start cfg token out)"
  by (auto simp: sse_inv_def sse_start_def make_sse_streamer_def Let_def split: option.splits prod.splits)

text \<open>Writing an event moves it to the history, or ends the run.\<close>

lemma run_write_cases:
  obtains (written) out s pc where "run_write J T wr ev w = w\<lparr>streamer := s, sw_sink := out, sw_pc := pc, sw_written := sw_written w @ [ev]\<rparr>"
      "sse_events s = sse_events (streamer w)" "streamer_config s = streamer_config (streamer w)"
      "pc = (if is_chunk ev then At_check else Returned)"
  | (ended) out t s pc where "run_write J T wr ev w = w\<lparr>streamer := s, sw_token := t, sw_sink := out, sw_pc := pc\<rparr>"
      "sse_events s = sse_events (streamer w)" "streamer_config s = streamer_config (streamer w)" "pc = Returned \<or> (\<exists>what. pc = Threw what)"
proof (cases "format_sse_event J T ev")
  case (Inl what)
  then have "run_write J T wr ev w = w\<lparr>streamer := streamer w, sw_token := sw_token w, sw_sink := sw_sink w, sw_pc := Threw what\<rparr>"
    by (simp add: run_write_def)
  then show ?thesis by (rule ended) auto
next
  case (Inr data)
  obtain ok out where wd: "try_write wr data (sw_sink w) = (ok, out)" by fastforce
  show ?thesis
  proof (cases ok)
    case True
    have "sse_type ev \<noteq> SSE_Chunk \<longleftrightarrow> sse_type ev = SSE_Done \<or> sse_type ev = SSE_Error" by (cases "sse_type ev") auto
    then show ?thesis
      using Inr wd True by (intro written [where s = "if is_chunk ev then streamer w else (streamer w)\<lparr>sse_active := False\<rparr>" and out = out])
        (auto simp: run_write_def is_chunk_def Let_def)
  next
    case False
    let ?w = "cancel_stream (w\<lparr>sw_sink := out, streamer := (streamer w)\<lparr>sse_disconnected := True\<rparr>\<rparr>)"
    have "run_write J T wr ev w = w\<lparr>streamer := streamer ?w, sw_token := sw_token ?w, sw_sink := out, sw_pc := Returned\<rparr>"
      using Inr wd False by (simp add: run_write_def Let_def cancel_stream_def split: option.splits prod.splits)
    then show ?thesis by (rule ended) auto
  qed
qed

lemma sse_inv_run_write:
  assumes "sse_inv w" and "sw_pc w = At_write ev"
  shows "sse_inv (run_write J T wr ev w)"
proof -
  from assms have acc: "sw_accepted w = sw_written w @ [ev] @ sse_events (streamer w)"
    and chunks: "\<forall>x \<in> set (sw_written w). is_chunk x" by (auto simp: sse_inv_def)
  show ?thesis
    by (rule run_write_cases [of J T wr ev w]) (use acc chunks in \<open>auto simp: sse_inv_def butlast_append dest: in_set_butlastD\<close>)
qed

lemma sse_inv_run_step:
  assumes "sse_inv w" shows "sse_inv (run_step J T wr w)"
proof (cases "sw_pc w")
  case (At_write ev)
  with assms show ?thesis by (simp add: run_step_def sse_inv_run_write)
qed (use assms in \<open>auto simp: run_step_def sse_inv_def split: list.splits\<close>)

lemma taken_ok_frame: "sse_inv w \<Longrightarrow> sw_pc w' = sw_pc w \<Longrightarrow> sw_written w' = sw_written w \<Longrightarrow>
    sw_accepted w' = sw_accepted w @ evs \<Longrightarrow> sse_events (streamer w') = sse_events (streamer w) @ evs \<Longrightarrow> sse_inv w'"
  unfolding sse_inv_def by (elim conjE exE, intro conjI exI) simp_all

lemma sse_inv_step [inv_pres]: "sse_step J T wr w w' \<Longrightarrow> sse_inv w \<Longrightarrow> sse_inv w'"
proof (induction rule: sse_step.induct)
  case (run w) then show ?case by (rule sse_inv_run_step)
next
  case (test c w) show ?case by (rule taken_ok_frame [OF test(2), where evs = "[]"]) simp_all
next
  case (lock w cs c ds ok s')
  show ?case using call_locked_frame [OF lock(2)] by - (rule taken_ok_frame [OF lock(3), where evs = "if ok then [call_event c] else []"], simp_all)
next
  case (stop w) show ?case by (rule taken_ok_frame [OF stop, where evs = "[]"]) (simp_all add: sse_stop_def)
next
  case (cancel w) show ?case by (rule taken_ok_frame [OF cancel, where evs = "[]"]) simp_all
qed

lemma sse_inv_reachable: "(sse_step J T wr)\<^sup>*\<^sup>* (sse_start cfg token out) w \<Longrightarrow> sse_inv w"
  by (induction rule: rtranclp_induct) (auto simp: sse_inv_start intro: sse_inv_step)

text \<open>
  C27. Under every interleaving of producers, the writing thread, \<open>stop\<close> and cancellations, the events
  written are, in order, the first of those queued; at most one event has left the queue without being
  written; and an end marker or an error is the last thing the client receives.
\<close>

theorem sse_events_in_order:
  assumes "(sse_step J T wr)\<^sup>*\<^sup>* (sse_start cfg token out) w"
  shows "\<exists>taken. sw_accepted w = sw_written w @ taken @ sse_events (streamer w) \<and> length taken \<le> 1 \<and>
    (\<forall>ev \<in> set (butlast (sw_written w)). sse_type ev = SSE_Chunk) \<and>
    (\<forall>ev \<in> set (sw_written w). sse_type ev \<noteq> SSE_Chunk \<longrightarrow> sw_pc w = Returned)"
proof -
  have "taken_ok pc evs \<Longrightarrow> length evs \<le> 1" for pc and evs :: "'a sse_event list" by (cases pc) auto
  then show ?thesis using sse_inv_reachable [OF assms] unfolding sse_inv_def is_chunk_def by blast
qed

section \<open>Backpressure\<close>

text \<open>The chunks waiting in the queue.\<close>

definition waiting_chunks :: "'j sse_streamer \<Rightarrow> 'j sse_event list" where
  "waiting_chunks s = filter is_chunk (sse_events s)"

lemma call_locked_chunks:
  assumes "call_locked c s = (ok, s')" and "enable_backpressure (streamer_config s)" and "length (sse_events s) < 2 ^ 64"
    and "length (waiting_chunks s) \<le> unat (sse_max_queue_size (streamer_config s))"
  shows "length (waiting_chunks s') \<le> unat (sse_max_queue_size (streamer_config s))"
proof (cases c)
  case (Push_chunk d)
  show ?thesis
  proof (cases ok)
    case True
    have "unat (sz (sse_events s)) = length (sse_events s)" using assms(3) by (simp add: unat_of_nat)
    then have "length (sse_events s) < unat (sse_max_queue_size (streamer_config s))"
      using assms(1,2) Push_chunk True by (auto simp: word_le_nat_alt split: if_splits)
    moreover have "length (waiting_chunks s') = Suc (length (waiting_chunks s))"
      using assms(1) Push_chunk True by (auto simp: waiting_chunks_def is_chunk_def split: if_splits)
    moreover have "length (waiting_chunks s) \<le> length (sse_events s)" unfolding waiting_chunks_def by (rule length_filter_le)
    ultimately show ?thesis by linarith
  next
    case False
    with assms Push_chunk show ?thesis by (auto split: if_splits)
  qed
qed (use assms in \<open>auto simp: waiting_chunks_def is_chunk_def\<close>)

lemma run_write_frame [frame]:
  "streamer_config (streamer (run_write J T wr ev w)) = streamer_config (streamer w)"
  "sse_events (streamer (run_write J T wr ev w)) = sse_events (streamer w)"
  "sw_accepted (run_write J T wr ev w) = sw_accepted w"
  by (rule run_write_cases [of J T wr ev w]; simp)+

lemma run_step_frame [frame]:
  "streamer_config (streamer (run_step J T wr w)) = streamer_config (streamer w)"
  "sse_events (streamer (run_step J T wr w)) \<in> {sse_events (streamer w), tl (sse_events (streamer w))}"
  by (auto simp: run_step_def run_write_frame split: sse_pc.splits list.splits)

lemma run_step_acc: "sw_accepted (run_step J T wr w) = sw_accepted w"
  by (auto simp: run_step_def run_write_frame split: sse_pc.splits list.splits)

lemma run_step_chunks: "length (waiting_chunks (streamer (run_step J T wr w))) \<le> length (waiting_chunks (streamer w))"
  using run_step_frame(2) [of J T wr w] by (cases "sse_events (streamer w)") (auto simp: waiting_chunks_def)

text \<open>
  C2. With backpressure the queue never holds more chunks than its limit, however many threads push: the
  length is tested and the event queued under one mutex.
\<close>

theorem sse_backpressure_bound:
  assumes "(sse_step J T wr)\<^sup>*\<^sup>* (sse_start cfg token out) w" and "enable_backpressure cfg"
    and "length (sw_accepted w) < 2 ^ 64"
  shows "length (waiting_chunks (streamer w)) \<le> unat (sse_max_queue_size cfg)"
proof -
  have "streamer_config (streamer w) = cfg \<and>
      (length (sw_accepted w) < 2 ^ 64 \<longrightarrow> length (waiting_chunks (streamer w)) \<le> unat (sse_max_queue_size cfg))"
    using assms(1)
  proof (induction rule: rtranclp_induct)
    case base
    show ?case by (auto simp: sse_start_def make_sse_streamer_def Let_def waiting_chunks_def split: option.splits prod.splits)
  next
    case (step w w')
    have inv: "sse_inv w" using step(1) by (rule sse_inv_reachable)
    then have len: "length (sse_events (streamer w)) \<le> length (sw_accepted w)" by (auto simp: sse_inv_def)
    from step(2) show ?case
    proof cases
      case run
      then show ?thesis using step(3) run_step_frame(1) [of J T wr w] run_step_chunks [of J T wr w] by (auto simp: run_step_acc)
    next
      case (lock cs c ds ok s')
      then show ?thesis using step(3) call_locked_chunks [OF lock(3)] call_locked_frame [OF lock(3)] len assms(2) by auto
    qed (use step(3) in \<open>auto simp: waiting_chunks_def sse_stop_def\<close>)
  qed
  then show ?thesis using assms(3) by blast
qed

section \<open>Delivery\<close>

text \<open>A sink that keeps what it is given, and the frames of a run of chunks.\<close>

definition keeper :: "string list sse_writer" where
  "keeper = Some (\<lambda>data out. (Inr True, out @ [data]))"

definition chunk_text :: "'j json_api \<Rightarrow> ('j \<Rightarrow> string) \<Rightarrow> 'j chat_completion_chunk \<Rightarrow> string" where
  "chunk_text J txt c = sse_frame (txt (chunk_to_json J c))"

lemma run_step_returned: "sw_pc w = Returned \<Longrightarrow> run_step J T wr w = w"
  by (simp add: run_step_def)

lemma run_chunk:
  assumes "prints T txt" and "sw_pc w = At_check" and "sse_active (streamer w)" and "sse_events (streamer w) = call_event (Push_chunk c) # evs"
  shows "(run_step J T keeper ^^ 3) w =
    w\<lparr>streamer := (streamer w)\<lparr>sse_events := evs\<rparr>, sw_sink := sw_sink w @ [chunk_text J txt c],
      sw_written := sw_written w @ [call_event (Push_chunk c)]\<rparr>"
  using assms by (simp add: numeral_eq_Suc run_step_def run_write_def format_sse_event_def chunk_frame_def prints_def
      try_write_def keeper_def chunk_text_def)

lemma run_done:
  assumes "sw_pc w = At_check" and "sse_active (streamer w)" and "sse_events (streamer w) = call_event Complete_stream # evs"
  shows "(run_step J T keeper ^^ 3) w =
    w\<lparr>streamer := (streamer w)\<lparr>sse_events := evs, sse_active := False\<rparr>, sw_sink := sw_sink w @ [done_frame],
      sw_written := sw_written w @ [call_event Complete_stream], sw_pc := Returned\<rparr>"
  using assms by (simp add: numeral_eq_Suc run_step_def run_write_def format_sse_event_def try_write_def keeper_def Let_def)


section \<open>Witnesses\<close>

text \<open>Two chunks, the end marker, and a chunk pushed after it.\<close>

definition demo_chunk :: "string \<Rightarrow> json chat_completion_chunk" where
  "demo_chunk txt = stream_chunk ''id'' ''m'' 0 (empty_delta\<lparr>delta_content := Some txt\<rparr>) None"

definition demo_calls :: "json sse_call list" where
  "demo_calls = [Push_chunk (demo_chunk ''He''), Push_chunk (demo_chunk ''llo''), Complete_stream, Push_chunk (demo_chunk ''late'')]"

definition demo_pushed :: "(json, string list) sse_world" where
  "demo_pushed =
    \<lparr>streamer = \<lparr>streamer_config = default_sse_config, sse_events = map call_event demo_calls, sse_active = True,
       sse_disconnected = False, sse_completed = True\<rparr>,
     sw_token = None, sw_pc = At_check, sw_sink = [], sw_calls = [], sw_accepted = map call_event demo_calls, sw_written = []\<rparr>"

lemma demo_start: "(sse_start default_sse_config None out :: ('j, 'w) sse_world) =
    \<lparr>streamer = \<lparr>streamer_config = default_sse_config, sse_events = [], sse_active = True, sse_disconnected = False, sse_completed = False\<rparr>,
     sw_token = None, sw_pc = At_check, sw_sink = out, sw_calls = [], sw_accepted = [], sw_written = []\<rparr>"
  by (simp add: sse_start_def make_sse_streamer_def)

text \<open>A call that runs alone is a test followed by a locked action.\<close>

lemma push_steps:
  assumes "call_admitted c (streamer w)" and "call_locked c (streamer w) = (ok, s')"
  shows "(sse_step J T wr)\<^sup>*\<^sup>* w (w\<lparr>streamer := s', sw_accepted := sw_accepted w @ (if ok then [call_event c] else [])\<rparr>)"
proof -
  let ?w1 = "w\<lparr>sw_calls := sw_calls w @ [c]\<rparr>"
  have first: "sse_step J T wr w ?w1" using assms(1) by (rule sse_step.test)
  have "sse_step J T wr ?w1
      (?w1\<lparr>streamer := s', sw_calls := sw_calls w @ [], sw_accepted := sw_accepted ?w1 @ (if ok then [call_event c] else [])\<rparr>)"
    using assms(2) by (intro sse_step.lock [where ds = "[]"]) simp_all
  with first have "(sse_step J T wr)\<^sup>*\<^sup>* w
      (?w1\<lparr>streamer := s', sw_calls := sw_calls w @ [], sw_accepted := sw_accepted ?w1 @ (if ok then [call_event c] else [])\<rparr>)"
    by (rule converse_rtranclp_into_rtranclp [OF _ r_into_rtranclp])
  then show ?thesis by simp
qed

lemma demo_pushed_reachable: "(sse_step J T wr)\<^sup>*\<^sup>* (sse_start default_sse_config None []) demo_pushed"
proof -
  let ?w = "\<lambda>es fin. \<lparr>streamer = \<lparr>streamer_config = default_sse_config, sse_events = es, sse_active = True, sse_disconnected = False,
      sse_completed = fin\<rparr>, sw_token = None, sw_pc = At_check, sw_sink = [], sw_calls = [], sw_accepted = es, sw_written = []\<rparr>"
  have step: "(sse_step J T wr)\<^sup>*\<^sup>* (?w es b) (?w (es @ [call_event c]) (b \<or> c = Complete_stream))" if "length es < 4" for es b c
  proof -
    have "sz es < (256 :: size_t)" using that by (simp add: word_less_nat_alt unat_of_nat)
    then show ?thesis
      using push_steps [of c "?w es b" True "streamer (?w (es @ [call_event c]) (b \<or> c = Complete_stream))" J T wr]
      by (cases c) (simp_all add: default_sse_config_def not_le)
  qed
  have "(sse_step J T wr)\<^sup>*\<^sup>* (?w [] False) (?w (map call_event demo_calls) True)"
    using step [of "[]" False "demo_calls ! 0"] step [of "map call_event (take 1 demo_calls)" False "demo_calls ! 1"]
      step [of "map call_event (take 2 demo_calls)" False "demo_calls ! 2"] step [of "map call_event (take 3 demo_calls)" True "demo_calls ! 3"]
    by (simp add: demo_calls_def numeral_eq_Suc del: call_event.simps)
  then show ?thesis by (simp add: demo_start demo_pushed_def)
qed

theorem sse_events_in_order_witness:
  "\<exists>taken. map call_event demo_calls = [] @ taken @ map call_event demo_calls \<and> length taken \<le> 1"
  using sse_events_in_order [OF demo_pushed_reachable [of json_ref demo_text keeper]] by (simp add: demo_pushed_def)

theorem sse_backpressure_bound_witness: "length (waiting_chunks (streamer demo_pushed)) \<le> 256"
  using sse_backpressure_bound [OF demo_pushed_reachable [of json_ref demo_text keeper]]
  by (simp add: demo_pushed_def default_sse_config_def demo_calls_def)


end
