(* ===== verification/Http_Server.thy ===== *)
theory Http_Server
  imports Server_Main
begin

text \<open>
  \<^verbatim>\<open>include/api/server.hpp\<close> and \<^verbatim>\<open>src/api/server.cpp\<close>: the life of the HTTP server object and of its thread, and
  the end of \<open>main\<close>, which owns it. Sockets belong to the HTTP library: whether \<open>listen\<close> fails, and when, is
  an input. A \<open>std::thread\<close> that is destroyed or assigned while it is joinable ends the program
  (\<open>std::terminate\<close>): the operation then has no result, \<^const>\<open>None\<close>.
\<close>

section \<open>State\<close>

text \<open>What \<open>start\<close> sets on the library's server object; \<^const>\<open>None\<close> is the library's default.\<close>

record http_settings =
  http_read_timeout :: "int32 option"
  http_write_timeout :: "int32 option"
  http_payload_max :: "size_t option"
  http_workers :: "int32 option"
  http_headers :: "(string \<times> string) list"
  http_preflight :: "int option"
  http_routes :: "(string \<times> string \<times> endpoint) list"

definition new_http_settings :: http_settings where
  "new_http_settings = \<lparr>http_read_timeout = None, http_write_timeout = None, http_payload_max = None, http_workers = None,
     http_headers = [], http_preflight = None, http_routes = []\<rparr>"

text \<open>The thread: not joinable, in \<open>listen\<close>, or returned from it and not yet joined.\<close>

datatype server_thread = No_thread | Listening | Finished

record http_server =
  srv_config :: api_config
  srv_http :: http_settings
  srv_running :: bool
  srv_thread :: server_thread

definition new_http_server :: "api_config \<Rightarrow> http_server" where
  "new_http_server cfg = \<lparr>srv_config = cfg, srv_http = new_http_settings, srv_running = False, srv_thread = No_thread\<rparr>"

section \<open>Operations\<close>

definition configure_http :: "api_config \<Rightarrow> http_settings \<Rightarrow> http_settings" where
  "configure_http cfg h =
     (let h1 = h\<lparr>http_read_timeout := Some (read_timeout_sec cfg), http_write_timeout := Some (write_timeout_sec cfg),
            http_payload_max := Some (max_request_size cfg)\<rparr>;
          h2 = (if sint (num_threads cfg) > 0 then h1\<lparr>http_workers := Some (num_threads cfg)\<rparr> else h1);
          h3 = (if enable_cors cfg
                then h2\<lparr>http_headers := [(''Access-Control-Allow-Origin'', ''*''),
                         (''Access-Control-Allow-Methods'', ''GET, POST, OPTIONS''),
                         (''Access-Control-Allow-Headers'', ''Content-Type, Authorization'')],
                       http_preflight := Some 204\<rparr>
                else h2)
      in h3\<lparr>http_routes := http_routes h3 @ route_table\<rparr>)"

text \<open>The thread body when \<open>listen\<close> returns false.\<close>

definition listen_fails :: "http_server \<Rightarrow> http_server" where
  "listen_fails s = (if srv_thread s = Listening then s\<lparr>srv_running := False, srv_thread := Finished\<rparr> else s)"

text \<open>\<open>failed\<close>: \<open>listen\<close> returns false during the 100 ms that \<open>start\<close> sleeps.\<close>

definition server_start :: "bool \<Rightarrow> http_server \<Rightarrow> (unit result \<times> http_server) option" where
  "server_start failed s =
     (if srv_running s then Some (Inl (internal ''Server already running''), s)
      else (let s1 = s\<lparr>srv_http := configure_http (srv_config s) (srv_http s), srv_running := True\<rparr>
            in if srv_thread s1 \<noteq> No_thread then None
               else (let s2 = s1\<lparr>srv_thread := Listening\<rparr>; s3 = (if failed then listen_fails s2 else s2)
                     in if \<not> srv_running s3 then Some (Inl (internal ''Failed to start server''), s3)
                        else Some (Inr (), s3))))"

text \<open>\<open>stop\<close> makes \<open>listen\<close> return and joins the thread.\<close>

definition server_stop :: "http_server \<Rightarrow> http_server" where
  "server_stop s = (if \<not> srv_running s then s else s\<lparr>srv_running := False, srv_thread := No_thread\<rparr>)"

definition server_is_running :: "http_server \<Rightarrow> bool" where
  "server_is_running s = srv_running s"

text \<open>\<open>wait\<close> joins; \<^const>\<open>None\<close> while the thread still listens, since the call then blocks.\<close>

definition server_wait :: "http_server \<Rightarrow> http_server option" where
  "server_wait s = (if srv_thread s = Listening then None else Some (s\<lparr>srv_thread := No_thread\<rparr>))"

text \<open>The destructor: \<open>stop\<close>, then the thread is destroyed.\<close>

definition server_destroy :: "http_server \<Rightarrow> unit option" where
  "server_destroy s = (if srv_thread (server_stop s) \<noteq> No_thread then None else Some ())"

section \<open>The end of main\<close>

text \<open>
  From the start of the HTTP server to the return of \<open>main\<close>, with the scheduler it leaves; \<open>meanwhile\<close> is
  what the scheduler does until the shutdown is requested.
\<close>

datatype 's main_end = Main_returns int 's | Main_aborts

definition unload_backend :: "('j, 'g null_backend, 'k, 'g) scheduler \<Rightarrow> ('j, 'g null_backend, 'k, 'g) scheduler" where
  "unload_backend s = s\<lparr>rt_state := nb_unload_model (rt_state s)\<rparr>"

definition main_tail :: "bool \<Rightarrow> api_config \<Rightarrow> (('j, 'g null_backend, 'k, 'g) scheduler \<Rightarrow> ('j, 'g null_backend, 'k, 'g) scheduler) \<Rightarrow>
    ('j, 'g null_backend, 'k, 'g) scheduler \<Rightarrow> ('j, 'g null_backend, 'k, 'g) scheduler main_end" where
  "main_tail failed cfg meanwhile sch =
     (case server_start failed (new_http_server cfg) of
        None \<Rightarrow> Main_aborts
      | Some (Inl e, srv) \<Rightarrow>
          (case server_destroy srv of None \<Rightarrow> Main_aborts | Some _ \<Rightarrow> Main_returns 1 (stop sch))
      | Some (Inr _, srv) \<Rightarrow>
          (let sch1 = unload_backend (stop (meanwhile sch))
           in case server_destroy (server_stop srv) of None \<Rightarrow> Main_aborts | Some _ \<Rightarrow> Main_returns 0 (stop sch1)))"

section \<open>Scripts of calls\<close>

datatype server_call = Start bool | Listen_fails | Stop_server | Wait_server

text \<open>A script that blocks or ends the program has no result.\<close>

fun run_call :: "server_call \<Rightarrow> http_server \<Rightarrow> http_server option" where
  "run_call (Start failed) s = map_option snd (server_start failed s)"
| "run_call Listen_fails s = Some (listen_fails s)"
| "run_call Stop_server s = Some (server_stop s)"
| "run_call Wait_server s = server_wait s"

fun server_script :: "server_call list \<Rightarrow> http_server \<Rightarrow> http_server option" where
  "server_script [] s = Some s"
| "server_script (c # cs) s = (case run_call c s of None \<Rightarrow> None | Some s' \<Rightarrow> server_script cs s')"

text \<open>A server with its thread listening and running, or neither: no failed \<open>listen\<close> is left to be joined.\<close>

definition server_ok :: "http_server \<Rightarrow> bool" where
  "server_ok s \<longleftrightarrow> (srv_running s \<longleftrightarrow> srv_thread s = Listening)"

lemma server_ok_new: "server_ok (new_http_server cfg)"
  by (simp add: server_ok_def new_http_server_def)

lemma run_call_ok [inv_pres]: "run_call c s = Some s' \<Longrightarrow> server_ok s \<Longrightarrow> server_ok s'"
  by (cases c) (auto simp: server_ok_def server_start_def listen_fails_def server_stop_def server_wait_def Let_def split: if_splits)

lemma server_script_ok: "server_script cs s = Some s' \<Longrightarrow> server_ok s \<Longrightarrow> server_ok s'"
  by (induction cs arbitrary: s) (auto split: option.splits dest: run_call_ok)

text \<open>
  C35. Whatever calls were made on a server, its \<open>running\<close> flag is set exactly while its thread listens, and
  destroying it is safe exactly when no thread has ended by a failed \<open>listen\<close> without being joined; a
  second start then ends the program too.
\<close>

theorem http_server_lifecycle:
  assumes "server_script cs (new_http_server cfg) = Some s"
  shows "(server_is_running s \<longleftrightarrow> srv_thread s = Listening) \<and>
    (server_destroy s = None \<longleftrightarrow> srv_thread s = Finished) \<and>
    (server_start failed s = None \<longleftrightarrow> srv_thread s = Finished) \<and>
    \<not> server_is_running (server_stop s) \<and> server_stop (server_stop s) = server_stop s"
proof -
  have "server_ok s" using assms server_ok_new by (rule server_script_ok)
  then show ?thesis
    by (cases "srv_thread s") (auto simp: server_ok_def server_is_running_def server_destroy_def server_stop_def server_start_def
      listen_fails_def Let_def)
qed

text \<open>
  A port that cannot be bound aborts the program instead of returning 1 from \<open>main\<close>: \<open>start\<close> reports
  the error, but the destructor finds the server not running and destroys a joinable thread. When the port
  can be bound, \<open>main\<close> returns 0 with the scheduler stopped and the model unloaded.
\<close>

theorem unbound_port_aborts_main:
  "main_tail True cfg meanwhile sch = Main_aborts \<and>
   (\<exists>sch'. main_tail False cfg meanwhile sch = Main_returns 0 sch' \<and> \<not> is_running sch' \<and> \<not> nb_loaded (rt_state sch'))"
  by (auto simp: main_tail_def server_start_def new_http_server_def listen_fails_def Let_def server_destroy_def server_stop_def
      unload_backend_def stop_def stop_finish_def stop_signal_def nb_unload_model_def is_running_def)

theorem http_server_lifecycle_witness:
  "\<exists>s. server_script [Start False, Stop_server, Start True] (new_http_server default_api_config) = Some s \<and>
     server_destroy s = None \<and> http_workers (srv_http s) = Some 4"
proof -
  let ?cs = "[Start False, Stop_server, Start True]"
  have "\<exists>s. server_script ?cs (new_http_server default_api_config) = Some s \<and> srv_thread s = Finished \<and>
      http_workers (srv_http s) = Some 4"
    by (simp add: server_start_def server_stop_def new_http_server_def listen_fails_def Let_def configure_http_def default_api_config_def)
  then obtain s where s: "server_script ?cs (new_http_server default_api_config) = Some s" "srv_thread s = Finished"
      "http_workers (srv_http s) = Some 4" by blast
  with http_server_lifecycle [OF s(1)] show ?thesis by blast
qed

end
