(* ===== verification/Batch_Coordinator.thy ===== *)
theory Batch_Coordinator
  imports Request_Registry
begin

text \<open>
  \<^verbatim>\<open>src/scheduler/decode_loop.cpp\<close>: the batch coordinator meant for continuous batching. It holds pointers to
  requests that other threads change, so an operation reads the request objects of the moment.
\<close>

section \<open>State and operations\<close>

record batch_config =
  max_batch_size :: size_t
  max_total_tokens :: size_t
  enable_prefix_caching :: bool

definition default_batch_config :: batch_config where
  "default_batch_config = \<lparr>max_batch_size = 8, max_total_tokens = 8192, enable_prefix_caching = False\<rparr>"

record batch_coordinator =
  batch_cfg :: batch_config
  batch :: "request_ptr list"

definition new_batch_coordinator :: "batch_config \<Rightarrow> batch_coordinator" where
  "new_batch_coordinator cfg = \<lparr>batch_cfg = cfg, batch = []\<rparr>"

fun batch_tokens :: "'j request_store \<Rightarrow> request_ptr list \<Rightarrow> size_t \<Rightarrow> size_t" where
  "batch_tokens st [] acc = acc"
| "batch_tokens st (p # ps) acc = batch_tokens st ps (acc + current_len (kv_cache (st p)))"

definition try_add :: "'j request_store \<Rightarrow> request_ptr \<Rightarrow> batch_coordinator \<Rightarrow> bool \<times> batch_coordinator" where
  "try_add st p b =
     (if sz (batch b) \<ge> max_batch_size (batch_cfg b) then (False, b)
      else (let tokens = batch_tokens st (batch b) 0 + current_len (kv_cache (st p))
            in if tokens > max_total_tokens (batch_cfg b) then (False, b)
               else (True, b\<lparr>batch := batch b @ [p]\<rparr>)))"

definition remove_completed :: "'j request_store \<Rightarrow> batch_coordinator \<Rightarrow> batch_coordinator" where
  "remove_completed st b = b\<lparr>batch := filter (\<lambda>p. \<not> is_terminal (st p)) (batch b)\<rparr>"

definition batch_empty :: "batch_coordinator \<Rightarrow> bool" where
  "batch_empty b \<longleftrightarrow> batch b = []"

definition batch_full :: "batch_coordinator \<Rightarrow> bool" where
  "batch_full b \<longleftrightarrow> sz (batch b) \<ge> max_batch_size (batch_cfg b)"

section \<open>Limits\<close>

text \<open>The tokens held by a batch, without the wrap-around of the sum.\<close>

definition held_tokens :: "'j request_store \<Rightarrow> request_ptr list \<Rightarrow> nat" where
  "held_tokens st ps = sum_list (map (\<lambda>p. unat (current_len (kv_cache (st p)))) ps)"

lemma batch_tokens_eq:
  "unat acc + held_tokens st ps < 2 ^ 64 \<Longrightarrow> unat (batch_tokens st ps acc) = unat acc + held_tokens st ps"
proof (induction ps arbitrary: acc)
  case (Cons p ps)
  then have "unat (acc + current_len (kv_cache (st p))) = unat acc + unat (current_len (kv_cache (st p)))"
    by (intro unat_plus_nowrap) (simp add: held_tokens_def)
  with Cons show ?case by (simp add: held_tokens_def)
qed (simp add: held_tokens_def)

text \<open>One call, at the moment the request objects are \<open>st\<close>.\<close>

datatype 'j batch_call = Add "'j request_store" request_ptr | Sweep "'j request_store"

fun apply_batch_call :: "'j batch_call \<Rightarrow> batch_coordinator \<Rightarrow> batch_coordinator" where
  "apply_batch_call (Add st p) b = snd (try_add st p b)"
| "apply_batch_call (Sweep st) b = remove_completed st b"


definition batch_ok :: "batch_coordinator \<Rightarrow> bool" where
  "batch_ok b \<longleftrightarrow> length (batch b) \<le> unat (max_batch_size (batch_cfg b))"

lemma unat_sz_batch: "batch_ok b \<Longrightarrow> unat (sz (batch b)) = length (batch b)"
  unfolding batch_ok_def by (rule unat_of_nat_size)

lemma try_add_eq:
  "try_add st p b =
     (if batch_full b \<or> max_total_tokens (batch_cfg b) < batch_tokens st (batch b) 0 + current_len (kv_cache (st p))
      then (False, b) else (True, b\<lparr>batch := batch b @ [p]\<rparr>))"
  by (simp add: try_add_def batch_full_def)

lemma batch_full_iff: "batch_ok b \<Longrightarrow> batch_full b \<longleftrightarrow> length (batch b) = unat (max_batch_size (batch_cfg b))"
  using unat_sz_batch [of b] by (auto simp: batch_full_def word_le_nat_alt batch_ok_def)

lemma batch_ok_call [inv_pres]:
  assumes "batch_ok b" shows "batch_ok (apply_batch_call c b) \<and> batch_cfg (apply_batch_call c b) = batch_cfg b"
proof (cases c)
  case (Add st p)
  then show ?thesis using assms by (auto simp: try_add_eq batch_full_iff batch_ok_def)
next
  case (Sweep st)
  with assms show ?thesis
    unfolding batch_ok_def by (auto simp: remove_completed_def intro: le_trans [OF length_filter_le])
qed

lemma batch_ok_calls: "batch_ok b \<Longrightarrow> batch_ok (fold apply_batch_call cs b) \<and> batch_cfg (fold apply_batch_call cs b) = batch_cfg b"
  by (induction cs arbitrary: b) (simp_all add: batch_ok_call)

text \<open>
  After any calls the batch is within its size limit; a request is admitted exactly when there is room
  and the tokens held at that moment, its own included, are within the token limit; a sweep leaves exactly
  the requests that have not ended, in their order.
\<close>

theorem batch_limits:
  assumes "b = fold apply_batch_call cs (new_batch_coordinator cfg)" and "held_tokens st (batch b @ [p]) < 2 ^ 64"
  shows "length (batch b) \<le> unat (max_batch_size cfg) \<and>
    (batch_full b \<longleftrightarrow> length (batch b) = unat (max_batch_size cfg)) \<and>
    (fst (try_add st p b) \<longleftrightarrow> \<not> batch_full b \<and> held_tokens st (batch b @ [p]) \<le> unat (max_total_tokens cfg)) \<and>
    batch (snd (try_add st p b)) = batch b @ (if fst (try_add st p b) then [p] else []) \<and>
    batch (remove_completed st b) = [q \<leftarrow> batch b. state (st q) \<notin> {Completed, Cancelled, Errored, Rejected}]"
proof -
  have ok: "batch_ok b" and cfg: "batch_cfg b = cfg"
    using assms(1) batch_ok_calls [of "new_batch_coordinator cfg" cs] by (auto simp: batch_ok_def new_batch_coordinator_def)
  have held: "held_tokens st (batch b @ [p]) = held_tokens st (batch b) + unat (current_len (kv_cache (st p)))"
    by (simp add: held_tokens_def)
  then have "unat (batch_tokens st (batch b) 0 + current_len (kv_cache (st p))) = held_tokens st (batch b @ [p])"
    using assms(2) batch_tokens_eq [of 0 st "batch b"] by (subst unat_plus_nowrap) simp_all
  then have "fst (try_add st p b) \<longleftrightarrow> \<not> batch_full b \<and> held_tokens st (batch b @ [p]) \<le> unat (max_total_tokens cfg)"
    by (auto simp: try_add_eq cfg word_less_nat_alt)
  moreover have "batch_full b \<longleftrightarrow> length (batch b) = unat (max_batch_size cfg)"
    using batch_full_iff [OF ok] cfg by simp
  ultimately show ?thesis
    using ok by (auto simp: batch_ok_def cfg try_add_eq remove_completed_def is_terminal_def terminal_state_def)
qed

text \<open>
  A batch of two requests within its limits; a third one does not fit.
\<close>

definition demo_holding :: "nat \<Rightarrow> json request" where
  "demo_holding p = (make_request 0 0 0 demo_api_request)\<lparr>kv_cache := empty_handle\<lparr>current_len := 3000\<rparr>,
     state := (if p = 1 then Completed else Decoding)\<rparr>"

theorem batch_limits_witness:
  "\<not> fst (try_add demo_holding 3 (fold apply_batch_call [Add demo_holding 1, Add demo_holding 2] (new_batch_coordinator default_batch_config)))"
proof -
  let ?b = "fold apply_batch_call [Add demo_holding 1, Add demo_holding 2] (new_batch_coordinator default_batch_config)"
  have b: "batch ?b = [1, 2]"
    by (simp add: try_add_def new_batch_coordinator_def default_batch_config_def demo_holding_def word_le_nat_alt word_less_nat_alt)
  then have "held_tokens demo_holding (batch ?b @ [3]) = 9000" by (simp add: held_tokens_def demo_holding_def)
  with batch_limits [OF refl, of demo_holding "[Add demo_holding 1, Add demo_holding 2]" default_batch_config 3]
  show ?thesis by (simp add: default_batch_config_def)
qed

end
