(* ===== verification/Cuda_Utils.thy ===== *)
theory Cuda_Utils
  imports Cuda_Runtime
begin

text \<open>
  \<^verbatim>\<open>src/backend/cuda_utils.cpp\<close>: the owners of device memory, streams and events, and the device guard. An
  exception is its text in \<^const>\<open>Inl\<close>. The three owner classes share one shape: a handle, null when
  there is nothing to release, with the data of the class (the element count of a buffer).
\<close>

section \<open>The runtime calls\<close>

text \<open>What the file calls beside memory and the selection of a device.\<close>

record 'c cuda_async =
  cudaGetDevice :: "'c \<Rightarrow> cuda_error \<times> int32"
  cudaMemcpyHostToDevice :: "ptr \<Rightarrow> ptr \<Rightarrow> size_t \<Rightarrow> 'c \<Rightarrow> cuda_error \<times> 'c"
  cudaMemcpyDeviceToHost :: "ptr \<Rightarrow> ptr \<Rightarrow> size_t \<Rightarrow> 'c \<Rightarrow> cuda_error \<times> 'c"
  cudaStreamCreate :: "'c \<Rightarrow> (cuda_error \<times> ptr) \<times> 'c"
  cudaStreamCreateWithFlags :: "uint32 \<Rightarrow> 'c \<Rightarrow> (cuda_error \<times> ptr) \<times> 'c"
  cudaStreamDestroy :: "ptr \<Rightarrow> 'c \<Rightarrow> 'c"
  cudaStreamSynchronize :: "ptr \<Rightarrow> 'c \<Rightarrow> cuda_error \<times> 'c"
  cudaEventCreate :: "'c \<Rightarrow> (cuda_error \<times> ptr) \<times> 'c"
  cudaEventCreateWithFlags :: "uint32 \<Rightarrow> 'c \<Rightarrow> (cuda_error \<times> ptr) \<times> 'c"
  cudaEventDestroy :: "ptr \<Rightarrow> 'c \<Rightarrow> 'c"
  cudaEventRecord :: "ptr \<Rightarrow> ptr \<Rightarrow> 'c \<Rightarrow> cuda_error \<times> 'c"
  cudaEventSynchronize :: "ptr \<Rightarrow> 'c \<Rightarrow> cuda_error \<times> 'c"
  cudaEventElapsedTime :: "ptr \<Rightarrow> ptr \<Rightarrow> 'c \<Rightarrow> cuda_error \<times> real"

definition check_cuda :: "'c cuda \<Rightarrow> cuda_error \<Rightarrow> string + unit" where
  "check_cuda C err = (if err \<noteq> cudaSuccess then Inl (''CUDA error: '' @ cudaGetErrorString C err) else Inr ())"

definition checked :: "'c cuda \<Rightarrow> cuda_error \<times> 'c \<Rightarrow> (string + unit) \<times> 'c" where
  "checked C r = (case r of (err, c) \<Rightarrow> (check_cuda C err, c))"

section \<open>Owners\<close>

record 'a owner =
  own_handle :: ptr
  own_data :: 'a

type_synonym cuda_buffer = "size_t owner"
type_synonym cuda_stream = "unit owner"
type_synonym cuda_event = "unit owner"

text \<open>A default object, which is also what a move leaves behind.\<close>

definition null_owner :: "'a \<Rightarrow> 'a owner" where
  "null_owner d = \<lparr>own_handle = nullptr, own_data = d\<rparr>"

text \<open>The destructor; the move constructor and the move assignment return the new object and the source.\<close>

definition destroy_owner :: "(ptr \<Rightarrow> 'c \<Rightarrow> 'c) \<Rightarrow> 'a owner \<Rightarrow> 'c \<Rightarrow> 'c" where
  "destroy_owner release o1 c = (if own_handle o1 \<noteq> nullptr then release (own_handle o1) c else c)"

definition move_construct :: "'a \<Rightarrow> 'a owner \<Rightarrow> 'a owner \<times> 'a owner" where
  "move_construct d other = (other, null_owner d)"

definition move_assign :: "(ptr \<Rightarrow> 'c \<Rightarrow> 'c) \<Rightarrow> 'a \<Rightarrow> 'a owner \<Rightarrow> 'a owner \<Rightarrow> 'c \<Rightarrow> ('a owner \<times> 'a owner) \<times> 'c" where
  "move_assign release d this other c = ((other, null_owner d), destroy_owner release this c)"

text \<open>A constructor: the handle of a successful call, or the exception of a failed one.\<close>

definition construct_owner :: "'c cuda \<Rightarrow> ('c \<Rightarrow> (cuda_error \<times> ptr) \<times> 'c) \<Rightarrow> 'a \<Rightarrow> 'c \<Rightarrow> (string + 'a owner) \<times> 'c" where
  "construct_owner C acquire d c =
     (case acquire c of ((err, h), c') \<Rightarrow>
        (case check_cuda C err of Inl what \<Rightarrow> Inl what | Inr _ \<Rightarrow> Inr \<lparr>own_handle = h, own_data = d\<rparr>, c'))"

section \<open>Buffers, streams and events\<close>

text \<open>\<open>elem\<close> is \<open>sizeof(T)\<close>; the product is one of \<open>size_t\<close>.\<close>

definition buffer_construct :: "'c cuda \<Rightarrow> size_t \<Rightarrow> size_t \<Rightarrow> 'c \<Rightarrow> (string + cuda_buffer) \<times> 'c" where
  "buffer_construct C elem cnt = construct_owner C (cudaMalloc C (cnt * elem)) cnt"

definition buffer_size :: "cuda_buffer \<Rightarrow> size_t" where
  "buffer_size b = own_data b"

definition buffer_bytes :: "size_t \<Rightarrow> cuda_buffer \<Rightarrow> size_t" where
  "buffer_bytes elem b = own_data b * elem"

definition copy_from_host :: "'c cuda \<Rightarrow> 'c cuda_async \<Rightarrow> size_t \<Rightarrow> ptr \<Rightarrow> size_t \<Rightarrow> cuda_buffer \<Rightarrow> 'c \<Rightarrow> (string + unit) \<times> 'c" where
  "copy_from_host C A elem src cnt b c = checked C (cudaMemcpyHostToDevice A (own_handle b) src (cnt * elem) c)"

definition copy_to_host :: "'c cuda \<Rightarrow> 'c cuda_async \<Rightarrow> size_t \<Rightarrow> ptr \<Rightarrow> size_t \<Rightarrow> cuda_buffer \<Rightarrow> 'c \<Rightarrow> (string + unit) \<times> 'c" where
  "copy_to_host C A elem dst cnt b c = checked C (cudaMemcpyDeviceToHost A dst (own_handle b) (cnt * elem) c)"

definition stream_construct :: "'c cuda \<Rightarrow> 'c cuda_async \<Rightarrow> uint32 option \<Rightarrow> 'c \<Rightarrow> (string + cuda_stream) \<times> 'c" where
  "stream_construct C A flags =
     construct_owner C (case flags of None \<Rightarrow> cudaStreamCreate A | Some f \<Rightarrow> cudaStreamCreateWithFlags A f) ()"

definition stream_synchronize :: "'c cuda \<Rightarrow> 'c cuda_async \<Rightarrow> cuda_stream \<Rightarrow> 'c \<Rightarrow> (string + unit) \<times> 'c" where
  "stream_synchronize C A s c = checked C (cudaStreamSynchronize A (own_handle s) c)"

definition event_construct :: "'c cuda \<Rightarrow> 'c cuda_async \<Rightarrow> uint32 option \<Rightarrow> 'c \<Rightarrow> (string + cuda_event) \<times> 'c" where
  "event_construct C A flags =
     construct_owner C (case flags of None \<Rightarrow> cudaEventCreate A | Some f \<Rightarrow> cudaEventCreateWithFlags A f) ()"

definition event_record :: "'c cuda \<Rightarrow> 'c cuda_async \<Rightarrow> ptr \<Rightarrow> cuda_event \<Rightarrow> 'c \<Rightarrow> (string + unit) \<times> 'c" where
  "event_record C A stream_handle e c = checked C (cudaEventRecord A (own_handle e) stream_handle c)"

definition event_synchronize :: "'c cuda \<Rightarrow> 'c cuda_async \<Rightarrow> cuda_event \<Rightarrow> 'c \<Rightarrow> (string + unit) \<times> 'c" where
  "event_synchronize C A e c = checked C (cudaEventSynchronize A (own_handle e) c)"

definition elapsed_ms :: "'c cuda \<Rightarrow> 'c cuda_async \<Rightarrow> cuda_event \<Rightarrow> cuda_event \<Rightarrow> 'c \<Rightarrow> string + real" where
  "elapsed_ms C A e begun c =
     (case cudaEventElapsedTime A (own_handle begun) (own_handle e) c of (err, ms) \<Rightarrow>
        (case check_cuda C err of Inl what \<Rightarrow> Inl what | Inr _ \<Rightarrow> Inr ms))"

text \<open>The destructors and the move assignments of the three classes.\<close>

definition buffer_destroy :: "'c cuda \<Rightarrow> cuda_buffer \<Rightarrow> 'c \<Rightarrow> 'c" where
  "buffer_destroy C = destroy_owner (cudaFree C)"

definition buffer_move_assign :: "'c cuda \<Rightarrow> cuda_buffer \<Rightarrow> cuda_buffer \<Rightarrow> 'c \<Rightarrow> (cuda_buffer \<times> cuda_buffer) \<times> 'c" where
  "buffer_move_assign C = move_assign (cudaFree C) 0"

definition stream_destroy :: "'c cuda_async \<Rightarrow> cuda_stream \<Rightarrow> 'c \<Rightarrow> 'c" where
  "stream_destroy A = destroy_owner (cudaStreamDestroy A)"

definition stream_move_assign :: "'c cuda_async \<Rightarrow> cuda_stream \<Rightarrow> cuda_stream \<Rightarrow> 'c \<Rightarrow> (cuda_stream \<times> cuda_stream) \<times> 'c" where
  "stream_move_assign A = move_assign (cudaStreamDestroy A) ()"

definition event_destroy :: "'c cuda_async \<Rightarrow> cuda_event \<Rightarrow> 'c \<Rightarrow> 'c" where
  "event_destroy A = destroy_owner (cudaEventDestroy A)"

definition event_move_assign :: "'c cuda_async \<Rightarrow> cuda_event \<Rightarrow> cuda_event \<Rightarrow> 'c \<Rightarrow> (cuda_event \<times> cuda_event) \<times> 'c" where
  "event_move_assign A = move_assign (cudaEventDestroy A) ()"

section \<open>Devices\<close>

definition get_device :: "'c cuda \<Rightarrow> 'c cuda_async \<Rightarrow> 'c \<Rightarrow> string + int32" where
  "get_device C A c =
     (case cudaGetDevice A c of (err, d) \<Rightarrow> (case check_cuda C err of Inl what \<Rightarrow> Inl what | Inr _ \<Rightarrow> Inr d))"

definition set_device :: "'c cuda \<Rightarrow> int32 \<Rightarrow> 'c \<Rightarrow> (string + unit) \<times> 'c" where
  "set_device C d c = checked C (cudaSetDevice C d c)"

text \<open>The guard holds the device it found.\<close>

type_synonym device_guard = int32

definition guard_construct :: "'c cuda \<Rightarrow> 'c cuda_async \<Rightarrow> int32 \<Rightarrow> 'c \<Rightarrow> (string + device_guard) \<times> 'c" where
  "guard_construct C A d c =
     (case get_device C A c of
        Inl what \<Rightarrow> (Inl what, c)
      | Inr prev_device \<Rightarrow>
          (case set_device C d c of (Inl what, c') \<Rightarrow> (Inl what, c') | (Inr _, c') \<Rightarrow> (Inr prev_device, c')))"

definition guard_leave :: "'c cuda \<Rightarrow> device_guard \<Rightarrow> 'c \<Rightarrow> 'c" where
  "guard_leave C prev_device c = snd (cudaSetDevice C prev_device c)"

text \<open>Whatever happened under the guard, the device it found is selected again.\<close>

definition selects_device :: "'c cuda \<Rightarrow> 'c cuda_async \<Rightarrow> ('c \<Rightarrow> int32) \<Rightarrow> bool" where
  "selects_device C A current \<longleftrightarrow>
     (\<forall>c err d. cudaGetDevice A c = (err, d) \<longrightarrow> err = cudaSuccess \<longrightarrow> d = current c) \<and>
     (\<forall>d c c'. cudaSetDevice C d c = (cudaSuccess, c') \<longrightarrow> current c' = d)"

lemma guard_restores:
  assumes "selects_device C A current" and "guard_construct C A d c = (Inr g, c1)" and "fst (cudaSetDevice C g c2) = cudaSuccess"
  shows "current c1 = d \<and> current (guard_leave C g c2) = current c"
  using assms
  by (cases "cudaSetDevice C d c"; cases "cudaSetDevice C g c2"; cases "cudaGetDevice A c")
    (auto simp: selects_device_def guard_construct_def get_device_def set_device_def checked_def check_cuda_def guard_leave_def
      split: if_splits)

section \<open>Programs over owners\<close>

text \<open>
  Variables holding objects of one owner class. A call on a variable out of scope has no result; a
  constructor that throws leaves its variable out of scope. Assigning an object to itself does nothing.
\<close>

datatype 'b owner_call = Construct nat 'b | Default nat | Move_construct nat nat | Move_assign nat nat | Destroy nat

type_synonym 'a owners = "nat \<Rightarrow> 'a owner option"

fun owner_call_step ::
  "('b \<Rightarrow> 'c \<Rightarrow> (string + 'a owner) \<times> 'c) \<Rightarrow> (ptr \<Rightarrow> 'c \<Rightarrow> 'c) \<Rightarrow> 'a \<Rightarrow> 'b owner_call \<Rightarrow> 'a owners \<times> 'c \<Rightarrow> ('a owners \<times> 'c) option" where
  "owner_call_step acquire release d (Construct x b) (vs, c) =
     (if vs x \<noteq> None then None
      else (case acquire b c of (Inl what, c') \<Rightarrow> Some (vs, c') | (Inr o1, c') \<Rightarrow> Some (vs(x \<mapsto> o1), c')))"
| "owner_call_step acquire release d (Default x) (vs, c) = (if vs x \<noteq> None then None else Some (vs(x \<mapsto> null_owner d), c))"
| "owner_call_step acquire release d (Move_construct x y) (vs, c) =
     (case vs y of
        None \<Rightarrow> None
      | Some other \<Rightarrow> if vs x \<noteq> None then None
          else (case move_construct d other of (o1, o2) \<Rightarrow> Some (vs(x \<mapsto> o1, y \<mapsto> o2), c)))"
| "owner_call_step acquire release d (Move_assign x y) (vs, c) =
     (case (vs x, vs y) of
        (Some this, Some other) \<Rightarrow>
          if x = y then Some (vs, c)
          else (case move_assign release d this other c of ((o1, o2), c') \<Rightarrow> Some (vs(x \<mapsto> o1, y \<mapsto> o2), c'))
      | _ \<Rightarrow> None)"
| "owner_call_step acquire release d (Destroy x) (vs, c) =
     (case vs x of None \<Rightarrow> None | Some o1 \<Rightarrow> Some (vs(x := None), destroy_owner release o1 c))"

fun owner_program ::
  "('b \<Rightarrow> 'c \<Rightarrow> (string + 'a owner) \<times> 'c) \<Rightarrow> (ptr \<Rightarrow> 'c \<Rightarrow> 'c) \<Rightarrow> 'a \<Rightarrow> 'b owner_call list \<Rightarrow> 'a owners \<times> 'c \<Rightarrow> ('a owners \<times> 'c) option" where
  "owner_program acquire release d [] s = Some s"
| "owner_program acquire release d (k # ks) s =
     (case owner_call_step acquire release d k s of None \<Rightarrow> None | Some s' \<Rightarrow> owner_program acquire release d ks s')"

section \<open>No leak and no double release\<close>

text \<open>
  What a class needs of its runtime calls, over a ghost function that gives the live handles: a constructor
  that returns has made a fresh non-null handle live, one that throws has changed nothing, and a release
  ends exactly its handle. \<open>ok\<close> restricts the arguments of the constructor.
\<close>

definition owner_laws :: "('b \<Rightarrow> 'c \<Rightarrow> (string + 'a owner) \<times> 'c) \<Rightarrow> (ptr \<Rightarrow> 'c \<Rightarrow> 'c) \<Rightarrow> ('c \<Rightarrow> ptr set) \<Rightarrow> ('b \<Rightarrow> bool) \<Rightarrow> bool" where
  "owner_laws acquire release live ok \<longleftrightarrow>
     (\<forall>b c r c'. ok b \<longrightarrow> acquire b c = (r, c') \<longrightarrow>
        (case r of Inl _ \<Rightarrow> live c' = live c
         | Inr o1 \<Rightarrow> own_handle o1 \<noteq> nullptr \<and> own_handle o1 \<notin> live c \<and> live c' = insert (own_handle o1) (live c))) \<and>
     (\<forall>p c. live (release p c) = live c - {p})"

lemma owner_laws_acquire:
  "owner_laws acquire release live ok \<Longrightarrow> ok b \<Longrightarrow> acquire b c = (r, c') \<Longrightarrow>
     (case r of Inl _ \<Rightarrow> live c' = live c
      | Inr o1 \<Rightarrow> own_handle o1 \<noteq> nullptr \<and> own_handle o1 \<notin> live c \<and> live c' = insert (own_handle o1) (live c))"
  unfolding owner_laws_def by blast

definition holds :: "'a owners \<Rightarrow> nat \<Rightarrow> ptr \<Rightarrow> bool" where
  "holds vs x h \<longleftrightarrow> h \<noteq> nullptr \<and> map_option own_handle (vs x) = Some h"

definition owned :: "'a owners \<Rightarrow> ptr set" where
  "owned vs = {h. \<exists>x. holds vs x h}"

definition one_owner :: "'a owners \<Rightarrow> bool" where
  "one_owner vs \<longleftrightarrow> (\<forall>x y h. holds vs x h \<longrightarrow> holds vs y h \<longrightarrow> x = y)"

definition owners_inv :: "('c \<Rightarrow> ptr set) \<Rightarrow> ptr set \<Rightarrow> 'a owners \<times> 'c \<Rightarrow> bool" where
  "owners_inv live L s \<longleftrightarrow> live (snd s) = L \<union> owned (fst s) \<and> L \<inter> owned (fst s) = {} \<and> one_owner (fst s)"

definition args_ok :: "('b \<Rightarrow> bool) \<Rightarrow> 'b owner_call \<Rightarrow> bool" where
  "args_ok ok k = (case k of Construct x b \<Rightarrow> ok b | _ \<Rightarrow> True)"

lemma holds_update [simp]:
  "holds (vs(x \<mapsto> o1)) y h \<longleftrightarrow> (if y = x then h \<noteq> nullptr \<and> own_handle o1 = h else holds vs y h)"
  "holds (vs(x := None)) y h \<longleftrightarrow> y \<noteq> x \<and> holds vs y h"
  by (auto simp: holds_def)

lemma holds_none [simp]: "vs x = None \<Longrightarrow> \<not> holds vs x h"
  by (simp add: holds_def)

lemma holds_some: "vs x = Some o1 \<Longrightarrow> holds vs x h \<longleftrightarrow> h \<noteq> nullptr \<and> own_handle o1 = h"
  by (auto simp: holds_def)

lemma owned_add: "vs x = None \<Longrightarrow> owned (vs(x \<mapsto> o1)) = owned vs \<union> ({own_handle o1} - {nullptr})"
  by (auto simp: owned_def) (metis holds_none)

lemma owned_drop:
  assumes "one_owner vs" and "vs x = Some o1"
  shows "owned (vs(x := None)) = owned vs - {own_handle o1}"
proof -
  have x: "holds vs x h \<longleftrightarrow> h \<noteq> nullptr \<and> own_handle o1 = h" for h using assms(2) by (rule holds_some)
  have "(\<exists>y. y \<noteq> x \<and> holds vs y h) \<longleftrightarrow> (\<exists>y. holds vs y h) \<and> h \<noteq> own_handle o1" for h
    using assms(1) x [of h] unfolding one_owner_def holds_def by metis
  then show ?thesis by (auto simp: owned_def)
qed

lemma one_owner_drop: "one_owner vs \<Longrightarrow> one_owner (vs(x := None))"
  by (auto simp: one_owner_def)

lemma one_owner_add: "one_owner vs \<Longrightarrow> vs x = None \<Longrightarrow> own_handle o1 \<notin> owned vs \<Longrightarrow> one_owner (vs(x \<mapsto> o1))"
  by (auto simp: one_owner_def owned_def)

text \<open>Moving a handle to another variable keeps the set of owned handles.\<close>

lemma move_owned:
  assumes "one_owner vs" and "vs y = Some o2" and "vs x = None"
  shows "owned (vs(x \<mapsto> o2, y \<mapsto> null_owner d)) = owned vs" and "one_owner (vs(x \<mapsto> o2, y \<mapsto> null_owner d))"
proof -
  have "x \<noteq> y" using assms by auto
  have h: "holds vs y h \<longleftrightarrow> h \<noteq> nullptr \<and> own_handle o2 = h" for h using assms(2) by (rule holds_some)
  show "owned (vs(x \<mapsto> o2, y \<mapsto> null_owner d)) = owned vs"
  proof (intro set_eqI iffI)
    fix k assume "k \<in> owned vs"
    then obtain z where z: "holds vs z k" by (auto simp: owned_def)
    with assms(3) have "z \<noteq> x" by (metis holds_none)
    with z h [of k] \<open>x \<noteq> y\<close> have "holds (vs(x \<mapsto> o2, y \<mapsto> null_owner d)) (if z = y then x else z) k" by auto
    then show "k \<in> owned (vs(x \<mapsto> o2, y \<mapsto> null_owner d))" unfolding owned_def by blast
  qed (use \<open>x \<noteq> y\<close> h in \<open>auto simp: owned_def null_owner_def split: if_splits\<close>)
  show "one_owner (vs(x \<mapsto> o2, y \<mapsto> null_owner d))"
    using assms(1) \<open>x \<noteq> y\<close> h by (auto simp: one_owner_def null_owner_def)
qed

lemma owners_inv_destroy:
  assumes laws: "owner_laws acquire release live ok" and inv: "owners_inv live L (vs, c)" and x: "vs x = Some o1"
  shows "owners_inv live L (vs(x := None), destroy_owner release o1 c)"
proof -
  have "live (destroy_owner release o1 c) = live c - (if own_handle o1 = nullptr then {} else {own_handle o1})"
    using laws by (auto simp: destroy_owner_def owner_laws_def)
  moreover have "own_handle o1 \<noteq> nullptr \<Longrightarrow> own_handle o1 \<in> owned vs" using holds_some [of vs x o1 "own_handle o1", OF x] by (auto simp: owned_def)
  moreover have "nullptr \<notin> owned vs" by (simp add: owned_def holds_def)
  ultimately show ?thesis
    using inv owned_drop [of vs x o1] x one_owner_drop [of vs x] by (auto simp: owners_inv_def split: if_splits)
qed

lemma owners_inv_step:
  assumes laws: "owner_laws acquire release live ok" and inv: "owners_inv live L s" and args: "args_ok ok k"
    and run: "owner_call_step acquire release d k s = Some s'"
  shows "owners_inv live L s'"
proof -
  obtain vs c where s: "s = (vs, c)" by (cases s)
  show ?thesis
  proof (cases k)
    case (Construct x b)
    obtain r c' where r: "acquire b c = (r, c')" by fastforce
    from run s Construct have x: "vs x = None" by (auto split: if_splits)
    show ?thesis
    proof (cases r)
      case (Inl what)
      then have "live c' = live c" using owner_laws_acquire [OF laws _ r] args Construct by (simp add: args_ok_def)
      with Inl show ?thesis using inv run s Construct r x by (auto simp: owners_inv_def)
    next
      case (Inr o1)
      have o1: "own_handle o1 \<noteq> nullptr" "own_handle o1 \<notin> live c" "live c' = insert (own_handle o1) (live c)"
        using owner_laws_acquire [OF laws _ r] args Construct Inr by (simp_all add: args_ok_def)
      have "s' = (vs(x \<mapsto> o1), c')" using run s Construct r x Inr by simp
      then show ?thesis using o1 inv s owned_add [of vs x o1, OF x] one_owner_add [of vs x o1] x
        by (auto simp: owners_inv_def)
    qed
  next
    case (Default x)
    then show ?thesis using inv run s owned_add [of vs x "null_owner d"]
      by (auto simp: owners_inv_def null_owner_def one_owner_def split: if_splits)
  next
    case (Move_construct x y)
    then show ?thesis using inv run s move_owned [of vs y _ x d]
      by (auto simp: owners_inv_def move_construct_def split: if_splits option.splits)
  next
    case (Move_assign x y)
    then obtain this other where xy: "vs x = Some this" "vs y = Some other" using run s by (auto split: option.splits)
    show ?thesis
    proof (cases "x = y")
      case True
      then show ?thesis using inv run s xy Move_assign by simp
    next
      case False
      let ?vs = "vs(x := None)"
      have "owners_inv live L (?vs, destroy_owner release this c)"
        using laws inv [unfolded s] xy(1) by (rule owners_inv_destroy)
      moreover have "s' = (?vs(x \<mapsto> other, y \<mapsto> null_owner d), destroy_owner release this c)"
        using run s xy Move_assign False by (simp add: move_assign_def)
      moreover have "?vs y = Some other" "?vs x = None" using xy False by simp_all
      ultimately show ?thesis using move_owned [of ?vs y other x d] by (simp add: owners_inv_def)
    qed
  next
    case (Destroy x)
    then obtain o1 where "vs x = Some o1" "s' = (vs(x := None), destroy_owner release o1 c)"
      using run s by (auto split: option.splits)
    then show ?thesis using owners_inv_destroy [OF laws inv [unfolded s]] by simp
  qed
qed

lemma owners_inv_program:
  assumes "owner_laws acquire release live ok" and "owners_inv live L s" and "\<forall>k \<in> set ks. args_ok ok k"
    and "owner_program acquire release d ks s = Some s'"
  shows "owners_inv live L s'"
  using assms(2-4) by (induction ks arbitrary: s) (auto split: option.splits intro: owners_inv_step [OF assms(1)])

lemma owners_inv_start: "owners_inv live (live c) (Map.empty, c)"
  by (simp add: owners_inv_def owned_def one_owner_def holds_def)

text \<open>
  A class follows the laws when its runtime calls do: buffers under \<^const>\<open>cuda_heap\<close>, as long as no size
  is or wraps to zero, streams and events under what \<open>fresh_handles\<close> says of their pairs of calls.
\<close>

definition fresh_handles :: "('b \<Rightarrow> 'c \<Rightarrow> (cuda_error \<times> ptr) \<times> 'c) \<Rightarrow> (ptr \<Rightarrow> 'c \<Rightarrow> 'c) \<Rightarrow> ('c \<Rightarrow> ptr set) \<Rightarrow> ('b \<Rightarrow> bool) \<Rightarrow> bool" where
  "fresh_handles acquire release live ok \<longleftrightarrow>
     (\<forall>b c e p c'. ok b \<longrightarrow> acquire b c = ((e, p), c') \<longrightarrow>
        (if e = cudaSuccess then p \<noteq> nullptr \<and> p \<notin> live c \<and> live c' = insert p (live c) else live c' = live c)) \<and>
     (\<forall>p c. live (release p c) = live c - {p})"

lemma construct_owner_laws:
  assumes "fresh_handles acquire release live ok"
  shows "owner_laws (\<lambda>b. construct_owner C (acquire b) (dat b)) release live ok"
proof -
  have "case r of Inl _ \<Rightarrow> live c' = live c
      | Inr o1 \<Rightarrow> own_handle o1 \<noteq> nullptr \<and> own_handle o1 \<notin> live c \<and> live c' = insert (own_handle o1) (live c)"
    if "ok b" and run: "construct_owner C (acquire b) (dat b) c = (r, c')" for b c r c'
  proof -
    obtain e p where m: "acquire b c = ((e, p), c')"
      using run by (auto simp: construct_owner_def split: prod.splits)
    have "if e = cudaSuccess then p \<noteq> nullptr \<and> p \<notin> live c \<and> live c' = insert p (live c) else live c' = live c"
      using assms \<open>ok b\<close> m unfolding fresh_handles_def by blast
    moreover have "r = (if e = cudaSuccess then Inr \<lparr>own_handle = p, own_data = dat b\<rparr> else Inl (''CUDA error: '' @ cudaGetErrorString C e))"
      using run m by (auto simp: construct_owner_def check_cuda_def)
    ultimately show ?thesis by (simp split: if_splits)
  qed
  then show ?thesis using assms unfolding owner_laws_def fresh_handles_def by blast
qed

lemma buffer_laws:
  assumes "cuda_heap C live"
  shows "owner_laws (buffer_construct C elem) (cudaFree C) live (\<lambda>cnt. cnt * elem \<noteq> 0)"
  unfolding buffer_construct_def
  by (rule construct_owner_laws) (use assms in \<open>auto simp: fresh_handles_def cuda_heap_def\<close>)

lemma stream_laws:
  assumes "fresh_handles (\<lambda>b. case b of None \<Rightarrow> cudaStreamCreate A | Some f \<Rightarrow> cudaStreamCreateWithFlags A f) (cudaStreamDestroy A) live (\<lambda>_. True)"
  shows "owner_laws (stream_construct C A) (cudaStreamDestroy A) live (\<lambda>_. True)"
  unfolding stream_construct_def by (rule construct_owner_laws) (rule assms)

lemma event_laws:
  assumes "fresh_handles (\<lambda>b. case b of None \<Rightarrow> cudaEventCreate A | Some f \<Rightarrow> cudaEventCreateWithFlags A f) (cudaEventDestroy A) live (\<lambda>_. True)"
  shows "owner_laws (event_construct C A) (cudaEventDestroy A) live (\<lambda>_. True)"
  unfolding event_construct_def by (rule construct_owner_laws) (rule assms)

text \<open>
  C37. A program that declares, moves, assigns and destroys buffers never leaks device memory and never frees
  a block twice: at every moment the blocks it has made live are those its buffers hold, each held by one
  buffer, so that every block is free again when the buffers are gone.
\<close>

theorem buffers_never_leak:
  assumes "cuda_heap C live" and "\<forall>k \<in> set ks. args_ok (\<lambda>cnt. cnt * elem \<noteq> 0) k"
    and "owner_program (buffer_construct C elem) (cudaFree C) 0 ks (Map.empty, c) = Some (vs, c')"
  shows "live c' = live c \<union> owned vs \<and> live c \<inter> owned vs = {} \<and> one_owner vs \<and>
    ((\<forall>x. vs x = None) \<longrightarrow> live c' = live c)"
proof -
  have "owners_inv live (live c) (vs, c')"
    using buffer_laws [OF assms(1)] owners_inv_start assms(2,3) by (rule owners_inv_program)
  then show ?thesis by (auto simp: owners_inv_def owned_def)
qed

text \<open>Two buffers, one moved over the other: the first block is freed at the assignment, the second at the end.\<close>

theorem buffers_never_leak_witness:
  "\<exists>vs c'. owner_program (buffer_construct bump_cuda 4) (cudaFree bump_cuda) 0
       [Construct 0 100, Construct 1 200, Move_assign 0 1, Move_construct 2 0, Destroy 0, Destroy 1] (Map.empty, bump_init 9) = Some (vs, c') \<and>
     bump_blocks c' = owned vs \<and> vs 0 = None"
proof -
  let ?ks = "[Construct 0 100, Construct 1 200, Move_assign 0 1, Move_construct 2 0, Destroy 0, Destroy 1]"
  have "\<exists>vs c'. owner_program (buffer_construct bump_cuda 4) (cudaFree bump_cuda) 0 ?ks (Map.empty, bump_init 9) = Some (vs, c') \<and> vs 0 = None"
    by (simp add: buffer_construct_def construct_owner_def check_cuda_def bump_cuda_def bump_init_def move_assign_def
        move_construct_def destroy_owner_def null_owner_def)
  then obtain vs c' where run: "owner_program (buffer_construct bump_cuda 4) (cudaFree bump_cuda) 0 ?ks (Map.empty, bump_init 9) = Some (vs, c')"
    and "vs 0 = None" by blast
  with buffers_never_leak [OF bump_cuda_heap _ run] show ?thesis by (simp add: args_ok_def bump_init_def)
qed

end
