(* ===== verification/Logger.thy ===== *)
theory Logger
  imports Server_Main
begin

text \<open>
  \<^verbatim>\<open>include/utils/logger.hpp\<close> and \<^verbatim>\<open>src/utils/logger.cpp\<close>: the structured log lines, the set-up of the logger
  and the scoped timer. The logging library keeps the sinks: a line it is given is a pair of level and text.
  The clock is an argument, in milliseconds.
\<close>

section \<open>Time stamps\<close>

text \<open>\<open>gmtime\<close> and \<open>put_time\<close> of the standard library, for times after 1970.\<close>

definition leap_year :: "nat \<Rightarrow> bool" where
  "leap_year y \<longleftrightarrow> 4 dvd y \<and> (\<not> 100 dvd y \<or> 400 dvd y)"

definition year_days :: "nat \<Rightarrow> nat" where
  "year_days y = (if leap_year y then 366 else 365)"

definition month_lengths :: "nat \<Rightarrow> nat list" where
  "month_lengths y = [31, if leap_year y then 29 else 28, 31, 30, 31, 30, 31, 31, 30, 31, 30, 31]"

function civil_year :: "nat \<Rightarrow> nat \<Rightarrow> nat \<times> nat" where
  "civil_year y d = (if d < year_days y then (y, d) else civil_year (Suc y) (d - year_days y))"
  by pat_completeness auto
termination by (relation "measure snd") (auto simp: year_days_def split: if_splits)

declare civil_year.simps [simp del]

fun civil_month :: "nat list \<Rightarrow> nat \<Rightarrow> nat \<Rightarrow> nat \<times> nat" where
  "civil_month [] m d = (m, d)"
| "civil_month (n # ns) m d = (if d < n then (m, d) else civil_month ns (Suc m) (d - n))"

definition civil_date :: "nat \<Rightarrow> nat \<times> nat \<times> nat" where
  "civil_date days =
     (case civil_year 1970 days of (y, d) \<Rightarrow> (case civil_month (month_lengths y) 1 d of (m, k) \<Rightarrow> (y, m, Suc k)))"

text \<open>The date is the one with this number of days before it.\<close>

lemma civil_year_days:
  "civil_year y d = (y', k) \<Longrightarrow> y \<le> y' \<and> k < year_days y' \<and> sum_list (map year_days [y..<y']) + k = d"
proof (induction y d arbitrary: y' k rule: civil_year.induct)
  case (1 y d)
  show ?case
  proof (cases "d < year_days y")
    case True
    with 1(2) show ?thesis by (simp add: civil_year.simps [of y d])
  next
    case False
    with 1(2) have "civil_year (Suc y) (d - year_days y) = (y', k)" by (simp add: civil_year.simps [of y d])
    with 1(1) [OF False this] False show ?thesis by (auto simp: upt_conv_Cons)
  qed
qed

lemma civil_month_days:
  "civil_month ns m d = (m', k) \<Longrightarrow> d < sum_list ns \<Longrightarrow>
     m \<le> m' \<and> m' < m + length ns \<and> k < ns ! (m' - m) \<and> sum_list (take (m' - m) ns) + k = d"
proof (induction ns m d arbitrary: m' k rule: civil_month.induct)
  case (2 n ns m d)
  show ?case
  proof (cases "d < n")
    case False
    with 2 have "Suc m \<le> m' \<and> m' < Suc m + length ns \<and> k < ns ! (m' - Suc m) \<and> sum_list (take (m' - Suc m) ns) + k = d - n"
      by simp
    moreover from this have "m' - m = Suc (m' - Suc m)" by linarith
    ultimately show ?thesis using False by auto
  qed (use 2 in simp)
qed simp

lemma civil_date_days:
  assumes "civil_date days = (y, m, d)"
  shows "1 \<le> m \<and> m \<le> 12 \<and> 1 \<le> d \<and> d \<le> month_lengths y ! (m - 1) \<and>
    sum_list (map year_days [1970..<y]) + sum_list (take (m - 1) (month_lengths y)) + (d - 1) = days"
proof -
  obtain k where y: "civil_year 1970 days = (y, k)" and m: "civil_month (month_lengths y) 1 k = (m, d - 1)" and "1 \<le> d"
    using assms by (auto simp: civil_date_def split: prod.splits)
  have "sum_list (month_lengths y) = year_days y" by (simp add: month_lengths_def year_days_def)
  moreover have "length (month_lengths y) = 12" by (simp add: month_lengths_def)
  ultimately have "1 \<le> m \<and> m < 1 + 12 \<and> d - 1 < month_lengths y ! (m - 1) \<and> sum_list (take (m - 1) (month_lengths y)) + (d - 1) = k"
    using civil_month_days [OF m] civil_year_days [OF y] by simp
  then show ?thesis using civil_year_days [OF y] \<open>1 \<le> d\<close> by (auto simp: add.assoc)
qed

definition two :: "nat \<Rightarrow> string" where
  "two n = pad_left 2 (nat_to_string n)"

definition get_iso_timestamp :: "nat \<Rightarrow> string" where
  "get_iso_timestamp ms =
     (let s = ms div 1000
      in case civil_date (s div 86400) of (y, m, d) \<Rightarrow>
           nat_to_string y @ ''-'' @ two m @ ''-'' @ two d @ ''T'' @
           two (s mod 86400 div 3600) @ '':'' @ two (s mod 3600 div 60) @ '':'' @ two (s mod 60) @
           ''.'' @ pad_left 3 (nat_to_string (ms mod 1000)) @ ''Z'')"

section \<open>The logger\<close>

datatype log_level = Level_debug | Level_info | Level_warn | Level_err

definition level_name :: "log_level \<Rightarrow> string" where
  "level_name l = (case l of Level_debug \<Rightarrow> ''debug'' | Level_info \<Rightarrow> ''info'' | Level_warn \<Rightarrow> ''warning'' | Level_err \<Rightarrow> ''error'')"

definition level_rank :: "log_level \<Rightarrow> nat" where
  "level_rank l = (case l of Level_debug \<Rightarrow> 1 | Level_info \<Rightarrow> 2 | Level_warn \<Rightarrow> 3 | Level_err \<Rightarrow> 4)"

text \<open>The library compares levels by their numbers.\<close>

instantiation log_level :: linorder
begin

definition less_eq_log_level :: "log_level \<Rightarrow> log_level \<Rightarrow> bool" where
  "less_eq_log_level l l' \<longleftrightarrow> level_rank l \<le> level_rank l'"

definition less_log_level :: "log_level \<Rightarrow> log_level \<Rightarrow> bool" where
  "less_log_level l l' \<longleftrightarrow> level_rank l < level_rank l'"

instance
proof
  fix l l' :: log_level
  show "l \<le> l' \<Longrightarrow> l' \<le> l \<Longrightarrow> l = l'"
    by (cases l; cases l') (simp_all add: less_eq_log_level_def level_rank_def)
qed (auto simp: less_eq_log_level_def less_log_level_def)

end

datatype log_sink = Console_sink | File_sink string size_t size_t

record logger =
  log_sinks :: "log_sink list"
  logger_level :: log_level

record log_context =
  ctx_request_id :: string
  ctx_trace_id :: string
  ctx_span_id :: string

definition no_context :: log_context where
  "no_context = \<lparr>ctx_request_id = '''', ctx_trace_id = '''', ctx_span_id = ''''\<rparr>"

definition context_to_json :: "'j json_api \<Rightarrow> log_context \<Rightarrow> 'j" where
  "context_to_json J ctx = j_object J [(''request_id'', j_string J (ctx_request_id ctx)),
     (''trace_id'', j_string J (ctx_trace_id ctx)), (''span_id'', j_string J (ctx_span_id ctx))]"

text \<open>\<open>init_logger\<close>: a level the configuration misspells leaves the library's default, info.\<close>

definition init_logger :: "logger_config \<Rightarrow> logger" where
  "init_logger cfg =
     (let console = (if log_output cfg = ''console'' \<or> log_output cfg = ''both'' then [Console_sink] else []);
          file = (if log_output cfg = ''file'' \<or> log_output cfg = ''both''
            then [File_sink (log_file_path cfg) (max_file_size cfg) (max_files cfg)] else [])
      in \<lparr>log_sinks = console @ file,
          logger_level = (if log_level cfg = ''debug'' then Level_debug else if log_level cfg = ''info'' then Level_info
            else if log_level cfg = ''warn'' then Level_warn else if log_level cfg = ''error'' then Level_err else Level_info)\<rparr>)"

text \<open>The entry of a line; the entries of the caller come last and may replace the others.\<close>

definition set_unless_empty :: "'j json_api \<Rightarrow> string \<Rightarrow> string \<Rightarrow> 'j \<Rightarrow> 'j" where
  "set_unless_empty J k v j = (if v = '''' then j else j_set J k (j_string J v) j)"

definition log_entry :: "'j json_api \<Rightarrow> string \<Rightarrow> log_level \<Rightarrow> string \<Rightarrow> string \<Rightarrow> (string \<times> 'j) list \<Rightarrow> log_context \<Rightarrow> 'j" where
  "log_entry J stamp level component event entries ctx =
     (let e0 = j_object J [(''timestamp'', j_string J stamp), (''level'', j_string J (level_name level)),
            (''component'', j_string J component), (''event'', j_string J event)];
          e1 = set_unless_empty J ''span_id'' (ctx_span_id ctx) (set_unless_empty J ''trace_id'' (ctx_trace_id ctx)
            (set_unless_empty J ''request_id'' (ctx_request_id ctx) e0))
      in fold (\<lambda>(k, v) e. j_set J k v e) entries e1)"

text \<open>
  \<open>log_structured\<close>: nothing without a logger; the entry is printed before the library drops lines below its
  level, so printing may throw for those too. The result is the line each sink writes.
\<close>

definition log_structured :: "'j json_api \<Rightarrow> 'j json_text \<Rightarrow> logger option \<Rightarrow> nat \<Rightarrow> log_level \<Rightarrow> string \<Rightarrow> string \<Rightarrow> (string \<times> 'j) list \<Rightarrow>
    log_context \<Rightarrow> (log_sink \<times> string) list json_result" where
  "log_structured J T lg wall_ms level component event entries ctx =
     (case lg of
        None \<Rightarrow> Inr []
      | Some l \<Rightarrow>
          try_then (jt_dump T (log_entry J (get_iso_timestamp wall_ms) level component event entries ctx))
            (\<lambda>line. Inr (if level < logger_level l then [] else map (\<lambda>out. (out, line)) (log_sinks l))))"

definition log_info :: "'j json_api \<Rightarrow> 'j json_text \<Rightarrow> logger option \<Rightarrow> nat \<Rightarrow> string \<Rightarrow> string \<Rightarrow> (string \<times> 'j) list \<Rightarrow>
    log_context \<Rightarrow> (log_sink \<times> string) list json_result" where
  "log_info J T lg wall_ms = log_structured J T lg wall_ms Level_info"

definition log_warn :: "'j json_api \<Rightarrow> 'j json_text \<Rightarrow> logger option \<Rightarrow> nat \<Rightarrow> string \<Rightarrow> string \<Rightarrow> (string \<times> 'j) list \<Rightarrow>
    log_context \<Rightarrow> (log_sink \<times> string) list json_result" where
  "log_warn J T lg wall_ms = log_structured J T lg wall_ms Level_warn"

definition log_error :: "'j json_api \<Rightarrow> 'j json_text \<Rightarrow> logger option \<Rightarrow> nat \<Rightarrow> string \<Rightarrow> string \<Rightarrow> (string \<times> 'j) list \<Rightarrow>
    log_context \<Rightarrow> (log_sink \<times> string) list json_result" where
  "log_error J T lg wall_ms = log_structured J T lg wall_ms Level_err"

definition log_debug :: "'j json_api \<Rightarrow> 'j json_text \<Rightarrow> logger option \<Rightarrow> nat \<Rightarrow> string \<Rightarrow> string \<Rightarrow> (string \<times> 'j) list \<Rightarrow>
    log_context \<Rightarrow> (log_sink \<times> string) list json_result" where
  "log_debug J T lg wall_ms = log_structured J T lg wall_ms Level_debug"

section \<open>The scoped timer\<close>

text \<open>The steady clock is in nanoseconds. The destructor writes the duration over a field of that name.\<close>

record 'j scoped_timer =
  timer_component :: string
  timer_event :: string
  timer_ctx :: log_context
  timer_fields :: "(string \<times> 'j) list"
  timer_start :: time_point

definition new_scoped_timer :: "string \<Rightarrow> string \<Rightarrow> log_context \<Rightarrow> time_point \<Rightarrow> 'j scoped_timer" where
  "new_scoped_timer component event ctx now_ns =
     \<lparr>timer_component = component, timer_event = event, timer_ctx = ctx, timer_fields = [], timer_start = now_ns\<rparr>"

definition timer_elapsed_ms :: "time_point \<Rightarrow> 'j scoped_timer \<Rightarrow> real" where
  "timer_elapsed_ms now_ns t = real_of_int (now_ns - timer_start t) / 1000000"

definition add_field :: "string \<Rightarrow> 'j \<Rightarrow> 'j scoped_timer \<Rightarrow> 'j scoped_timer" where
  "add_field k v t = t\<lparr>timer_fields := AList.update k v (timer_fields t)\<rparr>"

definition timer_end :: "'j json_api \<Rightarrow> 'j json_text \<Rightarrow> logger option \<Rightarrow> nat \<Rightarrow> time_point \<Rightarrow> 'j scoped_timer \<Rightarrow> (log_sink \<times> string) list json_result" where
  "timer_end J T lg wall_ms now_ns t =
     (let t1 = add_field ''duration_ms'' (j_double J (timer_elapsed_ms now_ns t)) t
      in log_info J T lg wall_ms (timer_component t1) (timer_event t1 @ ''_completed'') (timer_fields t1) (timer_ctx t1))"

section \<open>What a line says\<close>

lemma set_unless_empty_members:
  "json_laws J mem \<Longrightarrow> mem j = Some m \<Longrightarrow>
     mem (set_unless_empty J k v j) = Some (if v = '''' then m else m(k \<mapsto> j_string J v))"
  by (simp add: set_unless_empty_def json_lawsD(2))

lemma set_fields_members:
  "json_laws J mem \<Longrightarrow> mem j = Some m \<Longrightarrow> mem (fold (\<lambda>(k, v) e. j_set J k v e) entries j) = Some (m ++ map_of (rev entries))"
proof (induction entries arbitrary: j m)
  case (Cons e entries)
  obtain a b where e: "e = (a, b)" by (cases e)
  have "mem (j_set J a b j) = Some (m(a \<mapsto> b))" using Cons.prems by (rule json_lawsD(2))
  then have "mem (fold (\<lambda>(k, v) e. j_set J k v e) entries (j_set J a b j)) = Some (m(a \<mapsto> b) ++ map_of (rev entries))"
    by (rule Cons.IH [OF Cons.prems(1)])
  moreover have "m(a \<mapsto> b) ++ map_of (rev entries) = m ++ map_of (rev (e # entries))"
  proof -
    have last: "map_of (rev (e # entries)) = [a \<mapsto> b] ++ map_of (rev entries)" by (simp add: e)
    have "m(a \<mapsto> b) = m ++ [a \<mapsto> b]" by simp
    then show ?thesis unfolding last by (simp only: map_add_assoc)
  qed
  moreover have "fold (\<lambda>(k, v) e. j_set J k v e) (e # entries) j = fold (\<lambda>(k, v) e. j_set J k v e) entries (j_set J a b j)"
    by (simp add: e)
  ultimately show ?case by (simp only:)
qed simp

text \<open>The identifiers of a context that are set.\<close>

definition context_members :: "'j json_api \<Rightarrow> log_context \<Rightarrow> (string \<rightharpoonup> 'j)" where
  "context_members J ctx = map_of (map (\<lambda>(k, v). (k, j_string J v)) (filter (\<lambda>(k, v). v \<noteq> '''')
     [(''request_id'', ctx_request_id ctx), (''trace_id'', ctx_trace_id ctx), (''span_id'', ctx_span_id ctx)]))"

lemma log_entry_members:
  assumes "json_laws J mem"
  shows "mem (log_entry J stamp level component event entries ctx) = Some
    ([''timestamp'' \<mapsto> j_string J stamp, ''level'' \<mapsto> j_string J (level_name level),
      ''component'' \<mapsto> j_string J component, ''event'' \<mapsto> j_string J event] ++ context_members J ctx ++ map_of (rev entries))"
proof -
  let ?base = "[''timestamp'' \<mapsto> j_string J stamp, ''level'' \<mapsto> j_string J (level_name level),
      ''component'' \<mapsto> j_string J component, ''event'' \<mapsto> j_string J event]"
  let ?e0 = "j_object J [(''timestamp'', j_string J stamp), (''level'', j_string J (level_name level)),
      (''component'', j_string J component), (''event'', j_string J event)]"
  have "mem ?e0 = Some ?base" by (subst json_lawsD(1) [OF assms]) (auto simp: fun_eq_iff)
  from set_unless_empty_members [OF assms set_unless_empty_members [OF assms set_unless_empty_members [OF assms this]]]
  have "mem (set_unless_empty J ''span_id'' (ctx_span_id ctx) (set_unless_empty J ''trace_id'' (ctx_trace_id ctx)
      (set_unless_empty J ''request_id'' (ctx_request_id ctx) ?e0))) = Some (?base ++ context_members J ctx)"
    by (auto simp: context_members_def map_add_def fun_eq_iff)
  then show ?thesis unfolding log_entry_def Let_def by (rule set_fields_members [OF assms])
qed

text \<open>
  A line that is written goes to the sinks of the logger unless its level is below the logger's, and says
  what it is asked to: each member is the last field of the caller with that name, else a non-empty
  identifier of the context, else the time, level, component or event.
\<close>

theorem log_line_members:
  assumes "json_laws J mem" and "log_structured J T (Some l) wall_ms level component event entries ctx = Inr lines"
  shows "\<exists>j line. jt_dump T j = Inr line \<and>
    lines = (if level < logger_level l then [] else map (\<lambda>out. (out, line)) (log_sinks l)) \<and>
    mem j = Some ([''timestamp'' \<mapsto> j_string J (get_iso_timestamp wall_ms), ''level'' \<mapsto> j_string J (level_name level),
      ''component'' \<mapsto> j_string J component, ''event'' \<mapsto> j_string J event] ++ context_members J ctx ++ map_of (rev entries))"
proof -
  let ?j = "log_entry J (get_iso_timestamp wall_ms) level component event entries ctx"
  obtain line where "jt_dump T ?j = Inr line"
    and "lines = (if level < logger_level l then [] else map (\<lambda>out. (out, line)) (log_sinks l))"
    using assms(2) by (cases "jt_dump T ?j") (auto simp: log_structured_def)
  then show ?thesis using log_entry_members [OF assms(1)] by blast
qed

text \<open>A warning, with its time, on the console of a default logger.\<close>

lemma demo_timestamp: "get_iso_timestamp 951782400123 = ''2000-02-29T00:00:00.123Z''"
  by (simp add: get_iso_timestamp_def civil_date_def civil_year.simps year_days_def leap_year_def month_lengths_def two_def
      pad_left_def nat_to_string.simps digit_char_def) code_simp

theorem log_line_members_witness:
  "\<exists>line. log_warn json_ref demo_text (Some (init_logger default_logger_config)) 951782400123 ''api'' ''slow''
     [(''level'', JInt 3)] no_context = Inr [(Console_sink, line)]"
proof -
  let ?run = "log_structured json_ref demo_text (Some (init_logger default_logger_config)) 951782400123 Level_warn ''api'' ''slow''
     [(''level'', JInt 3)] no_context"
  obtain lines where run: "?run = Inr lines" by (simp add: log_structured_def demo_text_def)
  from log_line_members [OF json_ref_laws run] obtain line where
    "lines = (if Level_warn < logger_level (init_logger default_logger_config) then []
       else map (\<lambda>out. (out, line)) (log_sinks (init_logger default_logger_config)))" by blast
  then have "lines = [(Console_sink, line)]" by (simp add: init_logger_def default_logger_config_def less_log_level_def level_rank_def)
  with run show ?thesis by (simp add: log_warn_def)
qed

end
