(* ===== verification/Spec2Isabelle.thy ===== *)
theory Spec2Isabelle
  imports Pooled_Allocator Memory_Budget Request_Validator Prompt_Builder Stop_Checker Sampler Gpu_Router
    Request_Registry Metrics Scheduler_Liveness Scheduler_Streaming Scheduler_Stop Scheduler_Gauges Shutdown Server_Main Sse_Streamer Http_Server Batch_Coordinator Cuda_Utils Logger
begin

text \<open>
  The verification library of \<^verbatim>\<open>win_inference\<close>, a server that answers OpenAI-style chat requests with a language
  model on one or two GPUs.

  \<^bold>\<open>The program.\<close> \<^verbatim>\<open>main.cpp\<close> reads the configuration, creates the KV allocator, the GPU router, the tokenizer, the
  runtime and the scheduler, starts the HTTP server and waits for a shutdown signal. A chat request enters
  through a handler of \<^verbatim>\<open>api/routes.cpp\<close>: it is parsed, validated, turned into a prompt and tokenised, and becomes a
  request object with a token queue and a cancellation token. \<open>Scheduler::submit\<close> checks it and puts it in the
  pending queue. One decode thread starts pending requests (placement on a GPU, KV cache, prefill), runs one
  decode step per active request and round, samples a token, sends it to the token queue, asks the stop checker,
  and completes or fails the request, which releases its cache and budget. The handler reads the queue and
  writes the answer, as one JSON document or as a stream of events.

  \<^bold>\<open>Theories and sources.\<close> Paths are below \<^verbatim>\<open>src/\<close> and \<^verbatim>\<open>include/\<close>.
  \<^item> \<^theory_text>\<open>Prelude\<close>: integer types as words, decimal printing, association lists as \<open>unordered_map\<close>, fact collections.
  \<^item> \<^theory_text>\<open>Result_Type\<close> (\<^verbatim>\<open>utils/result.hpp\<close>): errors and results as a sum. \<^theory_text>\<open>Cancellation_Token\<close>
    (\<^verbatim>\<open>utils/cancellation.hpp\<close>), \<^theory_text>\<open>Metrics\<close> (\<^verbatim>\<open>utils/metrics.hpp\<close>, \<^verbatim>\<open>.cpp\<close>), \<^theory_text>\<open>Logger\<close> (\<^verbatim>\<open>utils/logger.hpp\<close>, \<^verbatim>\<open>.cpp\<close>).
  \<^item> \<^theory_text>\<open>Cuda_Runtime\<close>: the CUDA calls the program makes, as fields of a record over an abstract state;
    \<^theory_text>\<open>Cuda_Utils\<close> (\<^verbatim>\<open>backend/cuda_utils.cpp\<close>): the owners of device memory, streams and events.
  \<^item> \<^theory_text>\<open>Kv_Types\<close> and \<^theory_text>\<open>Kv_Books\<close> (\<^verbatim>\<open>kvcache/kv_allocator.hpp\<close>): handles, statistics, sizes, scripts of calls and the
    allocator interface; \<^theory_text>\<open>Contiguous_Allocator\<close> and \<^theory_text>\<open>Pooled_Allocator\<close> (\<^verbatim>\<open>kvcache/kv_allocator.cpp\<close>);
    \<^theory_text>\<open>Memory_Budget\<close> (\<^verbatim>\<open>kvcache/memory_budget.cpp\<close>).
  \<^item> \<^theory_text>\<open>Json_Interface\<close> and \<^theory_text>\<open>Api_Types\<close> (\<^verbatim>\<open>api/types.hpp\<close>, \<^verbatim>\<open>.cpp\<close>), \<^theory_text>\<open>Request_Validator\<close>
    (\<^verbatim>\<open>api/request_validator.cpp\<close>), \<^theory_text>\<open>Routes\<close> (\<^verbatim>\<open>api/routes.cpp\<close>), \<^theory_text>\<open>Sse_Streamer\<close> (\<^verbatim>\<open>api/sse_streamer.cpp\<close>),
    \<^theory_text>\<open>Http_Server\<close> (\<^verbatim>\<open>api/server.cpp\<close> and the end of \<open>main\<close>).
  \<^item> \<^theory_text>\<open>Bpe\<close>, \<^theory_text>\<open>Tokenizer\<close>, \<^theory_text>\<open>Prompt_Builder\<close> (\<^verbatim>\<open>tokenizer/\<close>); \<^theory_text>\<open>Stop_Checker\<close>, \<^theory_text>\<open>Sampler\<close> (\<^verbatim>\<open>core/\<close>).
  \<^item> \<^theory_text>\<open>Runtime_Interface\<close> (\<^verbatim>\<open>backend/runtime_interface.hpp\<close>) and \<^theory_text>\<open>Null_Backend\<close> (\<^verbatim>\<open>backend/null_backend.cpp\<close>).
  \<^item> \<^theory_text>\<open>Device_Manager\<close>, \<^theory_text>\<open>Gpu_Router\<close> (\<^verbatim>\<open>gpu/\<close>).
  \<^item> \<^theory_text>\<open>Token_Queue\<close>, \<^theory_text>\<open>Request\<close> (\<^verbatim>\<open>scheduler/request.hpp\<close>, \<^verbatim>\<open>.cpp\<close>), \<^theory_text>\<open>Request_Registry\<close>
    (\<^verbatim>\<open>scheduler/request_registry.cpp\<close>), \<^theory_text>\<open>Scheduler\<close> (\<^verbatim>\<open>scheduler/scheduler.cpp\<close>), \<^theory_text>\<open>Batch_Coordinator\<close>
    (\<^verbatim>\<open>scheduler/decode_loop.cpp\<close>).
  \<^item> \<^theory_text>\<open>Server_Main\<close> and \<^theory_text>\<open>Shutdown\<close> (\<^verbatim>\<open>main.cpp\<close>).

  \<^bold>\<open>How the code is modelled.\<close> A class is a record and its methods are functions on it; an operation that
  can fail returns \<open>error + 'a\<close>, and one that may not return, may divide by zero or may write out of bounds
  returns an option. Integers have their width and wrap; \<open>float\<close> and \<open>double\<close> are reals, which leaves out rounding,
  infinities and NaN. Shared requests live in a store of addresses. What the program calls and the repository does
  not contain is an argument of the definitions: CUDA, the JSON library with its text functions, the HTTP
  response and sink, files, clocks, random numbers. The laws a proof needs of them are named predicates with a
  reference instance (\<open>random_laws\<close>, \<open>json_laws\<close>), so the hypotheses can be met, and the witnesses do it.
  Threads are interleaved at their atomic actions by step relations: \<open>sched_step\<close> (decode thread and clients),
  \<open>token_step\<close> (cancellation), \<open>sse_step\<close> (writer and producers of a stream), \<open>shutdown_step\<close> (main and signal
  handlers), \<open>gauge_step\<close> (updates of a gauge).

  \<^bold>\<open>Interfaces.\<close> The locale \<open>kv_allocator\<close> (theory \<^theory_text>\<open>Kv_Books\<close>) says what the users of an allocator rely on: a
  successful allocation adds a valid handle to the books, a failed one changes nothing, freeing removes
  exactly one handle, and empty books mean an idle allocator. It is interpreted as \<open>ca\<close> by the contiguous and
  as \<open>pa\<close> by the pooled allocator. \<open>scheduler_kv\<close> (theory \<^theory_text>\<open>Scheduler_Resources\<close>) extends it by what the
  scheduler needs, that the length of a cache does not matter to \<open>free\<close>; it is interpreted as \<open>cs\<close> and \<open>ps\<close>.

  \<^bold>\<open>What the lemmas show.\<close>
  \<^item> \<^theory_text>\<open>Scheduler\<close> relates the states before and after each operation (\<open>quiet\<close>, \<open>retired\<close>, \<open>started\<close>);
    \<^theory_text>\<open>Scheduler_Runs\<close> builds on it the invariant of all interleavings, the life cycle of requests and the bound of the
    queue; \<^theory_text>\<open>Scheduler_Resources\<close> shows that the live caches are those of the active requests, for both
    allocators; \<^theory_text>\<open>Scheduler_Progress\<close> that a cache is never overrun; \<^theory_text>\<open>Scheduler_Liveness\<close> that every request
    ends; \<^theory_text>\<open>Scheduler_States\<close> which transitions a
    request takes; \<^theory_text>\<open>Scheduler_Streaming\<close> that a client reads the produced tokens in order and then one final event;
    \<^theory_text>\<open>Scheduler_Stop\<close> that \<open>stop\<close> strands the requests it finds; \<^theory_text>\<open>Scheduler_Gauges\<close> how far the gauge of active requests is from their number.
  \<^item> The allocator theories show that every script of calls keeps the books exact, that freeing everything
    leaves the allocator idle, that slots do not overlap, and where tensor parallelism leaks.
  \<^item> \<^theory_text>\<open>Bpe\<close> proves the merge loop equal to repeated merging of the pair of least rank; \<^theory_text>\<open>Tokenizer\<close> that encoding
    ends and that decoding inverts it; \<^theory_text>\<open>Prompt_Builder\<close> which tokens a conversation has; \<^theory_text>\<open>Sampler\<close> that samples
    are indices of logits; \<^theory_text>\<open>Stop_Checker\<close> and \<^theory_text>\<open>Request_Validator\<close> characterise their decisions.
  \<^item> \<^theory_text>\<open>Routes\<close> shows that an accepted request fits its limits, what is streamed, that the stream stops when the client
    is gone, and the answer of a blocking request; \<^theory_text>\<open>Sse_Streamer\<close>, \<^theory_text>\<open>Http_Server\<close> and \<^theory_text>\<open>Shutdown\<close> the order of
    events, the life of the server thread, and that no shutdown request is lost unless a signal
    interrupts the main thread inside its critical section.
  \<^item> \<^theory_text>\<open>Gpu_Router\<close> balances its budgets; \<^theory_text>\<open>Cuda_Utils\<close> shows that buffers do not leak; \<^theory_text>\<open>Server_Main\<close> characterises
    valid configurations and boots the whole system on concrete ones.

  \<^bold>\<open>Bounds and fuel.\<close> \<open>decode_loop\<close> runs until \<open>stop\<close> is called, so it takes the number of its iterations; the
  sum of the tokens that the waiting and active requests may still produce is enough for all of them to end.
  \<open>process_queue\<close> and \<open>bpe_loop\<close> are total by the length of the queue and of the word. The scanner \<open>tokenize\<close> is
  partial, since an empty special string makes it run forever; it is total when none is empty. The waiting
  loops of the routes run over the list of the polls of a run. Containers are
  assumed shorter than \<open>2^64\<close> where a size is compared as \<open>size_t\<close>, and than \<open>2^31\<close> where the code converts it to \<open>int\<close>.

  \<^bold>\<open>Not modelled.\<close> The TensorRT backend (a header of declarations without an implementation) and the declared and
  undefined \<open>register_runtime\<close> and \<open>create_runtime\<close>; sockets, the HTTP and the logging library themselves; log lines of
  the components, console output, sleeps and simulated delays; the memory order of the atomics, whose loads and
  stores are taken as sequentially consistent; tests and benchmarks.
\<close>

end
